(* ===== verification/Ledger_Prelude.thy ===== *)
theory Ledger_Prelude
  imports Main "HOL-Library.Word" "HOL-Library.AList" "HOL-Library.Char_ord"
    "HOL-Library.List_Lexorder" "HOL-Library.Product_Lexorder"
begin

text \<open>
  Shared vocabulary of the development: machine-integer types, byte strings, decimal
  printing and parsing as \<open>to_string\<close> and \<open>str::parse\<close> of the Rust standard
  library do them, hash maps, and the record of the third-party functions the ledger
  calls (SHA-256, hexadecimal encoding, UUID formatting, timestamps, JSON printing).

  A Rust \<open>String\<close> is the list of its UTF-8 bytes, written as an Isabelle
  \<open>string\<close> (a \<open>char\<close> is one of 256 byte values); a \<open>Vec<u8>\<close> is a list of
  8-bit words, and \<open>as_bytes\<close> goes from the first to the second.
\<close>

named_theorems ledger_defs \<open>definitions unfolded by most component proofs\<close>
named_theorems chain_simps \<open>equations on chains of entries\<close>

type_synonym u8 = "8 word"
type_synonym u32 = "32 word"
type_synonym u64 = "64 word"
type_synonym i64 = int
type_synonym uuid = "128 word"
type_synonym instant = nat
type_synonym datetime = int

text \<open>The cast \<open>as usize\<close> of an \<open>i64\<close>: the same 64 bits read as unsigned.\<close>

definition i64_as_usize :: "i64 \<Rightarrow> nat" where
  "i64_as_usize x = unat (word_of_int x :: u64)"

lemma i64_as_usize_pos: "0 \<le> x \<Longrightarrow> x < 2 ^ 63 \<Longrightarrow> i64_as_usize x = nat x"
  by (simp add: i64_as_usize_def uint_word_of_int_eq take_bit_int_eq_self flip: nat_uint_eq)

section \<open>Byte strings\<close>

definition as_bytes :: "string \<Rightarrow> u8 list" where
  "as_bytes s = map of_char s"

lemma of_char_u8_eq [simp]: "(of_char c :: u8) = of_char d \<longleftrightarrow> c = d"
proof
  assume "(of_char c :: u8) = of_char d"
  then have "(word_of_nat (of_char c) :: u8) = word_of_nat (of_char d)"
    by (simp add: of_nat_of_char)
  then have "take_bit 8 (of_char c :: nat) = take_bit 8 (of_char d)"
    by (simp add: word_of_nat_eq_iff)
  then show "c = d"
    by (simp add: take_bit_eq_mod)
qed simp

lemma as_bytes_append [simp]: "as_bytes (s @ t) = as_bytes s @ as_bytes t"
  by (simp add: as_bytes_def)

lemma length_as_bytes [simp]: "length (as_bytes s) = length s"
  by (simp add: as_bytes_def)

lemma as_bytes_Nil [simp]: "as_bytes s = [] \<longleftrightarrow> s = []" "as_bytes [] = []"
  by (simp_all add: as_bytes_def)

lemma as_bytes_inject [simp]: "as_bytes s = as_bytes t \<longleftrightarrow> s = t"
proof
  assume "as_bytes s = as_bytes t"
  then show "s = t"
    unfolding as_bytes_def by (rule map_injective) (simp add: inj_def)
qed simp

section \<open>Decimal numbers\<close>

text \<open>\<open>to_string\<close> on an unsigned and on a signed integer.\<close>

definition digit_char :: "nat \<Rightarrow> char" where
  "digit_char d = char_of (48 + d)"

fun nat_to_string :: "nat \<Rightarrow> string" where
  "nat_to_string n =
     (if n < 10 then [digit_char n]
      else nat_to_string (n div 10) @ [digit_char (n mod 10)])"

declare nat_to_string.simps [simp del]

definition int_to_string :: "int \<Rightarrow> string" where
  "int_to_string i =
     (if i < 0 then CHR ''-'' # nat_to_string (nat (- i)) else nat_to_string (nat i))"

text \<open>
  \<open>str::parse\<close> for integers: an optional sign (\<open>'+'\<close> for unsigned types, \<open>'+'\<close>
  or \<open>'-'\<close> for signed ones), then one or more decimal digits, and an error when the
  value is out of the range of the type.
\<close>

definition is_digit :: "char \<Rightarrow> bool" where
  "is_digit c \<longleftrightarrow> 48 \<le> (of_char c :: nat) \<and> (of_char c :: nat) \<le> 57"

definition digit_value :: "char \<Rightarrow> nat" where
  "digit_value c = of_char c - 48"

definition digits_value :: "string \<Rightarrow> nat" where
  "digits_value s = foldl (\<lambda>n c. 10 * n + digit_value c) 0 s"

definition parse_digits :: "string \<Rightarrow> nat option" where
  "parse_digits s = (if s \<noteq> [] \<and> list_all is_digit s then Some (digits_value s) else None)"

definition parse_unsigned :: "nat \<Rightarrow> string \<Rightarrow> nat option" where
  "parse_unsigned bits s =
     (case parse_digits (if s \<noteq> [] \<and> hd s = CHR ''+'' then tl s else s) of
        None \<Rightarrow> None
      | Some n \<Rightarrow> if n < 2 ^ bits then Some n else None)"

definition parse_signed :: "nat \<Rightarrow> string \<Rightarrow> int option" where
  "parse_signed bits s =
     (if s \<noteq> [] \<and> hd s = CHR ''-'' then
        (case parse_digits (tl s) of
           None \<Rightarrow> None
         | Some n \<Rightarrow> if n \<le> 2 ^ (bits - 1) then Some (- int n) else None)
      else
        (case parse_digits (if s \<noteq> [] \<and> hd s = CHR ''+'' then tl s else s) of
           None \<Rightarrow> None
         | Some n \<Rightarrow> if n < 2 ^ (bits - 1) then Some (int n) else None))"

lemma of_char_digit_char [simp]: "d < 10 \<Longrightarrow> (of_char (digit_char d) :: nat) = 48 + d"
  by (simp add: digit_char_def of_char_of)

lemma is_digit_digit_char [simp]: "d < 10 \<Longrightarrow> is_digit (digit_char d)"
  by (simp add: is_digit_def)

lemma digit_value_digit_char [simp]: "d < 10 \<Longrightarrow> digit_value (digit_char d) = d"
  by (simp add: digit_value_def)

lemma digits_value_snoc [simp]: "digits_value (s @ [c]) = 10 * digits_value s + digit_value c"
  by (simp add: digits_value_def)

lemma nat_to_string_digits: "list_all is_digit (nat_to_string n)"
proof (induction n rule: nat_to_string.induct)
  case (1 n)
  show ?case
    by (cases "n < 10") (simp_all add: nat_to_string.simps [of n] "1")
qed

lemma nat_to_string_nonempty [simp]: "nat_to_string n \<noteq> []"
  by (subst nat_to_string.simps) simp

lemma digits_value_nat_to_string [simp]: "digits_value (nat_to_string n) = n"
proof (induction n rule: nat_to_string.induct)
  case (1 n)
  show ?case
  proof (cases "n < 10")
    case True
    then show ?thesis by (simp add: nat_to_string.simps [of n] digits_value_def)
  next
    case False
    then show ?thesis by (simp add: nat_to_string.simps [of n] "1")
  qed
qed

lemma nat_to_string_inject [simp]: "nat_to_string m = nat_to_string n \<longleftrightarrow> m = n"
  by (metis digits_value_nat_to_string)

lemma parse_digits_nat_to_string [simp]: "parse_digits (nat_to_string n) = Some n"
  by (simp add: parse_digits_def nat_to_string_digits)

lemma nat_to_string_no_colon: "CHR '':'' \<notin> set (nat_to_string n)"
  using nat_to_string_digits [of n] by (auto simp: list_all_iff is_digit_def)

lemma hd_nat_to_string_digit: "is_digit (hd (nat_to_string n))"
  using nat_to_string_digits [of n] by (cases "nat_to_string n") auto

lemma hd_nat_to_string_not_sign [simp]:
  "hd (nat_to_string n) \<noteq> CHR ''-''" "hd (nat_to_string n) \<noteq> CHR ''+''"
  using hd_nat_to_string_digit [of n] by (auto simp: is_digit_def)

lemma int_to_string_inject [simp]: "int_to_string i = int_to_string j \<longleftrightarrow> i = j"
proof -
  have neq: "CHR ''-'' # s \<noteq> nat_to_string n" for s n
    using hd_nat_to_string_not_sign(1) [of n] by (metis list.sel(1))
  show ?thesis
    by (auto simp: int_to_string_def neq neq [symmetric])
qed

lemma parse_unsigned_nat_to_string:
  "parse_unsigned bits (nat_to_string n) = (if n < 2 ^ bits then Some n else None)"
  by (simp add: parse_unsigned_def)

lemma parse_unsigned_bound: "parse_unsigned bits s = Some n \<Longrightarrow> n < 2 ^ bits"
  by (auto simp: parse_unsigned_def split: option.splits if_splits)

section \<open>Options\<close>

text \<open>\<open>Option::unwrap_or_default\<close> on strings and byte vectors.\<close>

definition unwrap_or_default :: "'a list option \<Rightarrow> 'a list" where
  "unwrap_or_default x = (case x of None \<Rightarrow> [] | Some v \<Rightarrow> v)"

lemma unwrap_or_default_simps [simp]:
  "unwrap_or_default None = []" "unwrap_or_default (Some v) = v"
  by (simp_all add: unwrap_or_default_def)

section \<open>Hash maps\<close>

text \<open>
  A \<open>HashMap\<close> is an association list with distinct keys. The order in which
  \<open>values()\<close> and \<open>keys()\<close> enumerate it is unspecified: it is an arbitrary
  rearrangement \<open>seed n\<close> of the positions \<open>0..<n\<close>, a parameter of the state.
\<close>

type_synonym ('k, 'v) hash_map = "('k \<times> 'v) list"
type_synonym hash_seed = "nat \<Rightarrow> nat list"

definition hm_get :: "('k, 'v) hash_map \<Rightarrow> 'k \<Rightarrow> 'v option" where
  "hm_get m k = map_of m k"

definition hm_insert :: "'k \<Rightarrow> 'v \<Rightarrow> ('k, 'v) hash_map \<Rightarrow> ('k, 'v) hash_map" where
  "hm_insert k v m = AList.update k v m"

definition hm_wf :: "('k, 'v) hash_map \<Rightarrow> bool" where
  "hm_wf m \<longleftrightarrow> distinct (map fst m)"

definition iterate :: "hash_seed \<Rightarrow> 'a list \<Rightarrow> 'a list" where
  "iterate seed xs = map ((!) xs) (seed (length xs))"

definition hm_values :: "hash_seed \<Rightarrow> ('k, 'v) hash_map \<Rightarrow> 'v list" where
  "hm_values seed m = iterate seed (map snd m)"

definition hm_keys :: "hash_seed \<Rightarrow> ('k, 'v) hash_map \<Rightarrow> 'k list" where
  "hm_keys seed m = iterate seed (map fst m)"

definition seed_ok :: "hash_seed \<Rightarrow> bool" where
  "seed_ok seed \<longleftrightarrow> (\<forall>n. distinct (seed n) \<and> set (seed n) = {0..<n})"

lemma hm_get_insert [simp]: "hm_get (hm_insert k v m) = (hm_get m)(k \<mapsto> v)"
  by (rule ext) (simp add: hm_get_def hm_insert_def update_conv)

lemma hm_get_Nil [simp]: "hm_get [] k = None"
  by (simp add: hm_get_def)

lemma hm_wf_Nil [simp]: "hm_wf []"
  by (simp add: hm_wf_def)

lemma hm_wf_insert [simp]: "hm_wf m \<Longrightarrow> hm_wf (hm_insert k v m)"
  by (simp add: hm_wf_def hm_insert_def distinct_update)

lemma hm_insert_new: "hm_get m k = None \<Longrightarrow> hm_insert k v m = m @ [(k, v)]"
  unfolding hm_get_def hm_insert_def by (induction m) (auto split: if_splits)

lemma set_iterate: "seed_ok seed \<Longrightarrow> set (iterate seed xs) = set xs"
proof -
  assume "seed_ok seed"
  then have "set (iterate seed xs) = (!) xs ` {0..<length xs}"
    by (simp add: seed_ok_def iterate_def)
  also have "\<dots> = set xs"
    by (auto simp: set_conv_nth)
  finally show ?thesis .
qed

lemma length_iterate: "seed_ok seed \<Longrightarrow> length (iterate seed xs) = length xs"
  unfolding seed_ok_def iterate_def by (metis card_atLeastLessThan diff_zero distinct_card length_map)

lemma distinct_iterate: "seed_ok seed \<Longrightarrow> distinct xs \<Longrightarrow> distinct (iterate seed xs)"
  by (auto simp: seed_ok_def iterate_def distinct_map inj_on_def nth_eq_iff_index_eq)

lemma iterate_Nil [simp]: "seed_ok seed \<Longrightarrow> iterate seed [] = []"
  using length_iterate [of seed "[]"] by simp

lemma iterate_single [simp]:
  assumes "seed_ok seed" shows "iterate seed [x] = [x]"
  using length_iterate [OF assms, of "[x]"] set_iterate [OF assms, of "[x]"] by (auto simp: length_Suc_conv)

lemma set_hm_values: "seed_ok seed \<Longrightarrow> hm_wf m \<Longrightarrow> set (hm_values seed m) = ran (hm_get m)"
  by (simp add: hm_values_def set_iterate hm_wf_def hm_get_def [abs_def] ran_map_of_zip
      ran_distinct image_image)

lemma set_hm_keys: "seed_ok seed \<Longrightarrow> set (hm_keys seed m) = dom (hm_get m)"
  by (simp add: hm_keys_def set_iterate hm_get_def [abs_def] dom_map_of_conv_image_fst)

section \<open>Third-party functions\<close>

text \<open>
  The functions of other crates that the ledger calls. \<open>sha256\<close> is the digest of the
  \<open>sha2\<close> crate, \<open>hex_encode\<close> is \<open>hex::encode\<close>, \<open>uuid_to_string\<close> and
  \<open>uuid_from_str\<close> are the text form of the \<open>uuid\<close> crate, \<open>timestamp_millis\<close> the
  Unix milliseconds of a \<open>chrono\<close> instant, \<open>json_to_string\<close> the printer of
  \<open>serde_json\<close>. Nothing is assumed of them here; theorems that need a documented
  property name it as a hypothesis.
\<close>

datatype json = JNull | JString string | JInt int | JBool bool
  | JArray "json list" | JObject "(string \<times> json) list"

record third_party =
  sha256 :: "u8 list \<Rightarrow> u8 list"
  hex_encode :: "u8 list \<Rightarrow> string"
  uuid_to_string :: "uuid \<Rightarrow> string"
  uuid_from_str :: "string \<Rightarrow> uuid option"
  timestamp_millis :: "datetime \<Rightarrow> i64"
  json_to_string :: "json \<Rightarrow> string"

text \<open>
  Documented properties: \<open>hex::encode\<close> writes each byte as two digits, so it is
  injective; the hyphenated text of a UUID determines it; parsing it gives it back.
\<close>

definition encodings_ok :: "third_party \<Rightarrow> bool" where
  "encodings_ok D \<longleftrightarrow>
     inj (hex_encode D) \<and> (\<forall>u. uuid_from_str D (uuid_to_string D u) = Some u)"

lemma encodings_ok_hex: "encodings_ok D \<Longrightarrow> hex_encode D x = hex_encode D y \<longleftrightarrow> x = y"
  by (auto simp: encodings_ok_def inj_def)

lemma encodings_ok_uuid:
  "encodings_ok D \<Longrightarrow> uuid_to_string D u = uuid_to_string D v \<longleftrightarrow> u = v"
  unfolding encodings_ok_def by (metis option.inject)

end
