(* ===== verification/Crypto.thy ===== *)
theory Crypto
  imports Ledger_Prelude
begin

text \<open>
  The canonical proof envelope of \<open>src/crypto/mod.rs\<close>: the byte string an entry is
  hashed over, in its two versions, the dispatch on the version, and the advisory-lock
  key of a chain. The theorems show that the envelope is uniquely decodable, so that two
  entries with the same hash agree on every bound field unless SHA-256 itself collides.
\<close>

section \<open>Definitions\<close>

definition ENTRY_HASH_VERSION_V2 :: string where
  "ENTRY_HASH_VERSION_V2 = ''ARE_LEDGER_ENTRY_HASH_V2''"

definition ENTRY_HASH_VERSION_V3 :: string where
  "ENTRY_HASH_VERSION_V3 = ''ARE_LEDGER_ENTRY_HASH_V3''"

definition ENTRY_HASH_VERSION :: string where
  "ENTRY_HASH_VERSION = ENTRY_HASH_VERSION_V3"

record canonical_entry_hash_input =
  ch_entry_id :: uuid
  ch_entry_type :: string
  ch_agent_id :: string
  ch_content :: "u8 list"
  ch_content_type :: string
  ch_source_id :: string
  ch_correlation_id :: "string option"
  ch_idempotency_key :: "string option"
  ch_input_hash :: "string option"
  ch_writer_signature :: "u8 list option"
  ch_signer_key_reference :: "string option"
  ch_attestation_report :: "u8 list option"
  ch_chain_position :: i64
  ch_written_ts_ms :: i64
  ch_previous_hash :: string

definition sha256_hex :: "third_party \<Rightarrow> u8 list \<Rightarrow> string" where
  "sha256_hex D value = hex_encode D (sha256 D value)"

text \<open>
  \<open>advisory_lock_key\<close> reads the first eight bytes of the digest as a big-endian
  \<open>i64\<close>; \<open>None\<close> is the panic of the slice on a shorter digest.
\<close>

definition advisory_lock_key :: "third_party \<Rightarrow> string \<Rightarrow> i64 option" where
  "advisory_lock_key D entry_type =
     (let hash = sha256 D (as_bytes entry_type)
      in if length hash < 8 then None
         else Some (sint (word_rcat (take 8 hash) :: u64)))"

definition append_field :: "u8 list \<Rightarrow> string \<Rightarrow> u8 list \<Rightarrow> u8 list" where
  "append_field bytes name value =
     bytes @ as_bytes name @ as_bytes '':'' @ as_bytes (nat_to_string (length value))
       @ as_bytes '':'' @ value @ as_bytes [CHR 0x0A]"

definition append_fields :: "u8 list \<Rightarrow> (string \<times> u8 list) list \<Rightarrow> u8 list" where
  "append_fields bytes fs = foldl (\<lambda>b (name, value). append_field b name value) bytes fs"

definition canonical_bytes_v2 :: "third_party \<Rightarrow> canonical_entry_hash_input \<Rightarrow> u8 list" where
  "canonical_bytes_v2 D input =
     append_fields (as_bytes ENTRY_HASH_VERSION_V2 @ as_bytes [CHR 0x0A])
       [(''entry_id'', as_bytes (uuid_to_string D (ch_entry_id input))),
        (''entry_type'', as_bytes (ch_entry_type input)),
        (''agent_id'', as_bytes (ch_agent_id input)),
        (''content'', ch_content input),
        (''content_type'', as_bytes (ch_content_type input)),
        (''source_id'', as_bytes (ch_source_id input)),
        (''correlation_id'', as_bytes (unwrap_or_default (ch_correlation_id input))),
        (''idempotency_key'', as_bytes (unwrap_or_default (ch_idempotency_key input))),
        (''input_hash'', as_bytes (unwrap_or_default (ch_input_hash input))),
        (''chain_position'', as_bytes (int_to_string (ch_chain_position input))),
        (''written_ts_ms'', as_bytes (int_to_string (ch_written_ts_ms input))),
        (''previous_hash'', as_bytes (ch_previous_hash input))]"

definition canonical_entry_hash_v2 :: "third_party \<Rightarrow> canonical_entry_hash_input \<Rightarrow> string" where
  "canonical_entry_hash_v2 D input = sha256_hex D (canonical_bytes_v2 D input)"

definition canonical_bytes_v3 :: "third_party \<Rightarrow> canonical_entry_hash_input \<Rightarrow> u8 list" where
  "canonical_bytes_v3 D input =
     append_fields (as_bytes ENTRY_HASH_VERSION_V3 @ as_bytes [CHR 0x0A])
       [(''hash_version'', as_bytes ENTRY_HASH_VERSION_V3),
        (''entry_id'', as_bytes (uuid_to_string D (ch_entry_id input))),
        (''entry_type'', as_bytes (ch_entry_type input)),
        (''agent_id'', as_bytes (ch_agent_id input)),
        (''content'', ch_content input),
        (''content_type'', as_bytes (ch_content_type input)),
        (''source_id'', as_bytes (ch_source_id input)),
        (''correlation_id'', as_bytes (unwrap_or_default (ch_correlation_id input))),
        (''idempotency_key'', as_bytes (unwrap_or_default (ch_idempotency_key input))),
        (''input_hash'', as_bytes (unwrap_or_default (ch_input_hash input))),
        (''writer_signature'', unwrap_or_default (ch_writer_signature input)),
        (''signer_key_reference'', as_bytes (unwrap_or_default (ch_signer_key_reference input))),
        (''attestation_report'', unwrap_or_default (ch_attestation_report input)),
        (''chain_position'', as_bytes (int_to_string (ch_chain_position input))),
        (''written_ts_ms'', as_bytes (int_to_string (ch_written_ts_ms input))),
        (''previous_hash'', as_bytes (ch_previous_hash input))]"

definition canonical_entry_hash_v3 :: "third_party \<Rightarrow> canonical_entry_hash_input \<Rightarrow> string" where
  "canonical_entry_hash_v3 D input = sha256_hex D (canonical_bytes_v3 D input)"

definition canonical_entry_hash_for_version ::
    "third_party \<Rightarrow> string \<Rightarrow> canonical_entry_hash_input \<Rightarrow> string option" where
  "canonical_entry_hash_for_version D version input =
     (if version = ENTRY_HASH_VERSION_V2 then Some (canonical_entry_hash_v2 D input)
      else if version = ENTRY_HASH_VERSION_V3 then Some (canonical_entry_hash_v3 D input)
      else None)"

text \<open>\<open>expect\<close> panics on \<open>None\<close>; lemma \<open>canonical_entry_hash_eq\<close> shows it never does.\<close>

definition canonical_entry_hash :: "third_party \<Rightarrow> canonical_entry_hash_input \<Rightarrow> string" where
  "canonical_entry_hash D input =
     the (canonical_entry_hash_for_version D ENTRY_HASH_VERSION input)"

section \<open>What a hash commits to\<close>

text \<open>
  The envelope writes an absent optional field as an empty one, so the commitment is to
  the input with every optional field filled in; version 2 leaves out the three
  proof-material fields.
\<close>

definition committed_v3 :: "canonical_entry_hash_input \<Rightarrow> canonical_entry_hash_input" where
  "committed_v3 i = i
     \<lparr>ch_correlation_id := Some (unwrap_or_default (ch_correlation_id i)),
      ch_idempotency_key := Some (unwrap_or_default (ch_idempotency_key i)),
      ch_input_hash := Some (unwrap_or_default (ch_input_hash i)),
      ch_writer_signature := Some (unwrap_or_default (ch_writer_signature i)),
      ch_signer_key_reference := Some (unwrap_or_default (ch_signer_key_reference i)),
      ch_attestation_report := Some (unwrap_or_default (ch_attestation_report i))\<rparr>"

definition committed_v2 :: "canonical_entry_hash_input \<Rightarrow> canonical_entry_hash_input" where
  "committed_v2 i = (committed_v3 i)
     \<lparr>ch_writer_signature := None, ch_signer_key_reference := None,
      ch_attestation_report := None\<rparr>"

definition committed :: "string \<Rightarrow> canonical_entry_hash_input \<Rightarrow> canonical_entry_hash_input" where
  "committed version i = (if version = ENTRY_HASH_VERSION_V2 then committed_v2 i else committed_v3 i)"

definition canonical_bytes ::
    "third_party \<Rightarrow> string \<Rightarrow> canonical_entry_hash_input \<Rightarrow> u8 list" where
  "canonical_bytes D version i =
     (if version = ENTRY_HASH_VERSION_V2 then canonical_bytes_v2 D i else canonical_bytes_v3 D i)"

definition sha256_collision :: "third_party \<Rightarrow> u8 list \<Rightarrow> u8 list \<Rightarrow> bool" where
  "sha256_collision D x y \<longleftrightarrow> x \<noteq> y \<and> sha256 D x = sha256 D y"

section \<open>Unique decodability of length-delimited fields\<close>

lemma colon_split:
  assumes "a @ x # r = b @ x # s" and "x \<notin> set a" and "x \<notin> set b"
  shows "a = b \<and> r = s"
proof -
  have tw: "takeWhile (\<lambda>y. y \<noteq> x) (c @ x # t) = c" if "x \<notin> set c" for c t
    using that by (induction c) auto
  from assms(1) tw [OF assms(2), of r] tw [OF assms(3), of s] have "a = b" by simp
  with assms(1) show ?thesis by simp
qed

definition field_bytes :: "string \<Rightarrow> u8 list \<Rightarrow> u8 list" where
  "field_bytes name value = append_field [] name value"

lemma append_field_eq: "append_field bytes name value = bytes @ field_bytes name value"
  by (simp add: field_bytes_def append_field_def)

lemma colon_notin_decimal: "(of_char CHR '':'' :: u8) \<notin> set (as_bytes (nat_to_string n))"
  using nat_to_string_no_colon [of n] by (auto simp: as_bytes_def simp del: of_char_Char)

text \<open>A field followed by anything determines both its value and the rest.\<close>

lemma field_bytes_append_inject [simp]:
  "field_bytes name v @ r = field_bytes name w @ s \<longleftrightarrow> v = w \<and> r = s"
proof
  assume eq: "field_bytes name v @ r = field_bytes name w @ s"
  let ?c = "of_char CHR '':'' :: u8" and ?nl = "of_char (CHR 0x0A) :: u8"
  from eq have "as_bytes (nat_to_string (length v)) @ ?c # (v @ ?nl # r) =
      as_bytes (nat_to_string (length w)) @ ?c # (w @ ?nl # s)"
    by (simp add: field_bytes_def append_field_def as_bytes_def)
  from colon_split [OF this colon_notin_decimal colon_notin_decimal]
  have "length v = length w" and "v @ ?nl # r = w @ ?nl # s"
    by auto
  then show "v = w \<and> r = s" by simp
qed simp

lemma field_bytes_inject [simp]: "field_bytes name v = field_bytes name w \<longleftrightarrow> v = w"
  using field_bytes_append_inject [of name v "[]" w "[]"] by simp

lemma append_fields_simps [simp]:
  "append_fields bytes [] = bytes"
  "append_fields bytes ((name, v) # fs) = append_fields (bytes @ field_bytes name v) fs"
  by (simp_all add: append_fields_def append_field_eq)

lemma append_fields_concat:
  "append_fields bytes fs = bytes @ concat (map (\<lambda>(name, v). field_bytes name v) fs)"
  by (induction fs arbitrary: bytes) auto

lemma canonical_bytes_v3_inject:
  assumes "encodings_ok D"
  shows "canonical_bytes_v3 D a = canonical_bytes_v3 D b \<longleftrightarrow> committed_v3 a = committed_v3 b"
  using encodings_ok_uuid [OF assms]
  by (cases a; cases b) (auto simp: canonical_bytes_v3_def append_fields_concat committed_v3_def)

lemma canonical_bytes_v2_inject:
  assumes "encodings_ok D"
  shows "canonical_bytes_v2 D a = canonical_bytes_v2 D b \<longleftrightarrow> committed_v2 a = committed_v2 b"
  using encodings_ok_uuid [OF assms]
  by (cases a; cases b)
    (auto simp: canonical_bytes_v2_def append_fields_concat committed_v2_def committed_v3_def)

text \<open>The version header separates the two envelopes.\<close>

lemma versions_differ [simp]:
  "ENTRY_HASH_VERSION_V2 \<noteq> ENTRY_HASH_VERSION_V3" "ENTRY_HASH_VERSION_V3 \<noteq> ENTRY_HASH_VERSION_V2"
  by (simp_all add: ENTRY_HASH_VERSION_V2_def ENTRY_HASH_VERSION_V3_def)

lemma canonical_bytes_v2_v3_disjoint [simp]: "canonical_bytes_v2 D a \<noteq> canonical_bytes_v3 D b"
proof
  assume "canonical_bytes_v2 D a = canonical_bytes_v3 D b"
  then have "take 24 (canonical_bytes_v2 D a) = take 24 (canonical_bytes_v3 D b)"
    by simp
  then have "as_bytes ENTRY_HASH_VERSION_V2 = as_bytes ENTRY_HASH_VERSION_V3"
    by (simp add: canonical_bytes_v2_def canonical_bytes_v3_def append_fields_concat
        ENTRY_HASH_VERSION_V2_def ENTRY_HASH_VERSION_V3_def del: as_bytes_inject)
  then show False by simp
qed

lemma canonical_entry_hash_eq: "canonical_entry_hash D i = canonical_entry_hash_v3 D i"
  by (simp add: canonical_entry_hash_def canonical_entry_hash_for_version_def ENTRY_HASH_VERSION_def)

lemma canonical_entry_hash_current:
  "canonical_entry_hash_for_version D ENTRY_HASH_VERSION i = Some (canonical_entry_hash D i)"
  by (simp add: canonical_entry_hash_def canonical_entry_hash_for_version_def ENTRY_HASH_VERSION_def)

lemma hash_for_version_SomeD:
  assumes "canonical_entry_hash_for_version D v i = Some h"
  shows "v \<in> {ENTRY_HASH_VERSION_V2, ENTRY_HASH_VERSION_V3}"
    and "h = sha256_hex D (canonical_bytes D v i)"
  using assms
  by (auto simp: canonical_entry_hash_for_version_def canonical_bytes_def
      canonical_entry_hash_v2_def canonical_entry_hash_v3_def split: if_splits)

lemma canonical_bytes_inject:
  assumes "encodings_ok D"
    and "v \<in> {ENTRY_HASH_VERSION_V2, ENTRY_HASH_VERSION_V3}"
    and "w \<in> {ENTRY_HASH_VERSION_V2, ENTRY_HASH_VERSION_V3}"
  shows "canonical_bytes D v a = canonical_bytes D w b \<longleftrightarrow> v = w \<and> committed v a = committed w b"
  using assms(2,3) canonical_bytes_v2_inject [OF assms(1)] canonical_bytes_v3_inject [OF assms(1)]
    canonical_bytes_v2_v3_disjoint [of D]
  by (auto simp: canonical_bytes_def committed_def dest: sym)

text \<open>Equal hashes bind equal contents, or exhibit a collision of SHA-256.\<close>

lemma equal_hash_committed:
  assumes "encodings_ok D"
    and "canonical_entry_hash_for_version D v a = Some h"
    and "canonical_entry_hash_for_version D w b = Some h"
    and "\<not> sha256_collision D (canonical_bytes D v a) (canonical_bytes D w b)"
  shows "v = w \<and> committed v a = committed w b"
proof -
  note a = hash_for_version_SomeD [OF assms(2)] and b = hash_for_version_SomeD [OF assms(3)]
  from a(2) b(2) have "sha256 D (canonical_bytes D v a) = sha256 D (canonical_bytes D w b)"
    by (simp add: sha256_hex_def encodings_ok_hex [OF assms(1)])
  with assms(4) have "canonical_bytes D v a = canonical_bytes D w b"
    by (auto simp: sha256_collision_def)
  with canonical_bytes_inject [OF assms(1) a(1) b(1)] show ?thesis by blast
qed

end
