(* ===== verification/Repository.thy ===== *)
theory Repository
  imports Crypto
begin

text \<open>
  The data model and the \<open>LedgerRepository\<close> trait of \<open>src/repository/mod.rs\<close>.
  A struct is a record; the trait is a record of operations over a state type, each
  returning a result and the next state. The second half states what a repository
  promises, as specification functions on chains of entries and as locales: what the
  verifiers rely on (\<open>entry_store\<close>), what writers rely on (\<open>ledger_store\<close>), what the
  outbox processor relies on (\<open>outbox_store\<close>) and what queries rely on
  (\<open>query_store\<close>). The flag \<open>reliable\<close> says whether an operation may fail with
  \<open>Unavailable\<close>.
\<close>

section \<open>Data\<close>

record ledger_entry_record =
  le_entry_id :: uuid
  le_entry_type :: string
  le_agent_id :: string
  le_content :: "u8 list"
  le_content_type :: string
  le_source_id :: string
  le_correlation_id :: "string option"
  le_idempotency_key :: "string option"
  le_input_hash :: "string option"
  le_writer_signature :: "u8 list option"
  le_signer_key_reference :: "string option"
  le_attestation_report :: "u8 list option"
  le_hash_version :: string
  le_entry_hash :: string
  le_previous_hash :: string
  le_chain_position :: i64
  le_written_ts :: datetime

datatype outbox_status = Pending | Delivered | Failed

record outbox_record =
  ob_outbox_id :: uuid
  ob_entry_id :: uuid
  ob_entry_type :: string
  ob_payload :: string
  ob_status :: outbox_status
  ob_attempt_count :: int

record chain_tip =
  tip_entry_id :: uuid
  tip_hash :: string
  tip_hash_version :: string
  tip_position :: i64
  tip_written_ts :: datetime

datatype repository_error = NotFound | Unavailable | ChainIntegrityViolation | IdempotencyConflict

record write_result =
  wr_entry :: ledger_entry_record
  wr_outbox :: "outbox_record option"

record entry_write_input =
  wi_entry_type :: string
  wi_agent_id :: string
  wi_content :: "u8 list"
  wi_content_type :: string
  wi_source_id :: string
  wi_correlation_id :: "string option"
  wi_idempotency_key :: "string option"
  wi_input_hash :: "string option"
  wi_writer_signature :: "u8 list option"
  wi_signer_key_reference :: "string option"
  wi_attestation_report :: "u8 list option"
  wi_previous_hash :: string
  wi_written_ts :: datetime
  wi_create_outbox :: bool

record entry_query =
  eq_entry_type_prefix :: "string option"
  eq_agent_id :: "string option"
  eq_source_id :: "string option"
  eq_correlation_id :: "string option"
  eq_from_ts_ms :: "i64 option"
  eq_to_ts_ms :: "i64 option"
  eq_limit :: nat
  eq_offset :: nat

record query_result =
  qr_entries :: "ledger_entry_record list"
  qr_total_count :: i64

text \<open>
  The random UUIDs one write draws with \<open>Uuid::new_v4\<close>: the entry id, the outbox id
  and the event id inside the payload.
\<close>

record uuid_draws =
  dr_entry_id :: uuid
  dr_outbox_id :: uuid
  dr_event_id :: uuid

section \<open>The repository trait\<close>

type_synonym ('s, 'a) repo_op = "'s \<Rightarrow> (repository_error + 'a) \<times> 's"

record 's ledger_repository =
  repo_write_entry_with_outbox :: "uuid_draws \<Rightarrow> entry_write_input \<Rightarrow> ('s, write_result) repo_op"
  repo_get_entry :: "uuid \<Rightarrow> ('s, ledger_entry_record) repo_op"
  repo_query_entries :: "entry_query \<Rightarrow> ('s, query_result) repo_op"
  repo_get_chain_tip :: "string \<Rightarrow> ('s, chain_tip) repo_op"
  repo_get_entries_by_type_paged :: "string \<Rightarrow> i64 \<Rightarrow> i64 \<Rightarrow> ('s, ledger_entry_record list) repo_op"
  repo_find_idempotent :: "string \<Rightarrow> string \<Rightarrow> ('s, ledger_entry_record option) repo_op"
  repo_get_entry_by_hash :: "string \<Rightarrow> string \<Rightarrow> ('s, ledger_entry_record) repo_op"
  repo_pending_outbox :: "('s, outbox_record list) repo_op"
  repo_mark_outbox_delivered :: "uuid \<Rightarrow> ('s, unit) repo_op"
  repo_increment_outbox_attempt :: "uuid \<Rightarrow> ('s, unit) repo_op"
  repo_mark_outbox_failed :: "uuid \<Rightarrow> ('s, unit) repo_op"
  repo_get_distinct_entry_types :: "('s, string list) repo_op"

section \<open>Building an entry and its outbox event\<close>

record ledger_written_payload_input =
  lp_entry_id :: uuid
  lp_entry_type :: string
  lp_agent_id :: string
  lp_source_id :: string
  lp_entry_hash :: string
  lp_hash_version :: string
  lp_correlation_id :: "string option"
  lp_written_ts_ms :: i64

definition ledger_written_payload ::
    "third_party \<Rightarrow> uuid \<Rightarrow> ledger_written_payload_input \<Rightarrow> string" where
  "ledger_written_payload D event_id input = json_to_string D (JObject
     [(''event_id'', JString (uuid_to_string D event_id)),
      (''event_type'', JString ''LEDGER_ENTRY_WRITTEN''),
      (''entry_id'', JString (uuid_to_string D (lp_entry_id input))),
      (''entry_type'', JString (lp_entry_type input)),
      (''agent_id'', JString (lp_agent_id input)),
      (''source_id'', JString (lp_source_id input)),
      (''entry_hash'', JString (lp_entry_hash input)),
      (''hash_version'', JString (lp_hash_version input)),
      (''correlation_id'',
         (case lp_correlation_id input of None \<Rightarrow> JNull | Some c \<Rightarrow> JString c)),
      (''written_ts'', JInt (lp_written_ts_ms input)),
      (''schema_version'', JString ''1.0.0'')])"

text \<open>The hash computed by a write, from its input and the next position.\<close>

definition write_hash :: "third_party \<Rightarrow> uuid \<Rightarrow> entry_write_input \<Rightarrow> i64 \<Rightarrow> string" where
  "write_hash D entry_id input next_position = canonical_entry_hash D
     \<lparr>ch_entry_id = entry_id,
      ch_entry_type = wi_entry_type input,
      ch_agent_id = wi_agent_id input,
      ch_content = wi_content input,
      ch_content_type = wi_content_type input,
      ch_source_id = wi_source_id input,
      ch_correlation_id = wi_correlation_id input,
      ch_idempotency_key = wi_idempotency_key input,
      ch_input_hash = wi_input_hash input,
      ch_writer_signature = wi_writer_signature input,
      ch_signer_key_reference = wi_signer_key_reference input,
      ch_attestation_report = wi_attestation_report input,
      ch_chain_position = next_position,
      ch_written_ts_ms = timestamp_millis D (wi_written_ts input),
      ch_previous_hash = wi_previous_hash input\<rparr>"

definition new_entry :: "third_party \<Rightarrow> uuid \<Rightarrow> entry_write_input \<Rightarrow> i64 \<Rightarrow> ledger_entry_record" where
  "new_entry D entry_id input next_position =
     \<lparr>le_entry_id = entry_id,
      le_entry_type = wi_entry_type input,
      le_agent_id = wi_agent_id input,
      le_content = wi_content input,
      le_content_type = wi_content_type input,
      le_source_id = wi_source_id input,
      le_correlation_id = wi_correlation_id input,
      le_idempotency_key = wi_idempotency_key input,
      le_input_hash = wi_input_hash input,
      le_writer_signature = wi_writer_signature input,
      le_signer_key_reference = wi_signer_key_reference input,
      le_attestation_report = wi_attestation_report input,
      le_hash_version = ENTRY_HASH_VERSION,
      le_entry_hash = write_hash D entry_id input next_position,
      le_previous_hash = wi_previous_hash input,
      le_chain_position = next_position,
      le_written_ts = wi_written_ts input\<rparr>"

definition new_outbox :: "third_party \<Rightarrow> uuid_draws \<Rightarrow> entry_write_input \<Rightarrow> i64 \<Rightarrow> outbox_record" where
  "new_outbox D draws input next_position =
     \<lparr>ob_outbox_id = dr_outbox_id draws,
      ob_entry_id = dr_entry_id draws,
      ob_entry_type = wi_entry_type input,
      ob_payload = ledger_written_payload D (dr_event_id draws)
        \<lparr>lp_entry_id = dr_entry_id draws,
         lp_entry_type = wi_entry_type input,
         lp_agent_id = wi_agent_id input,
         lp_source_id = wi_source_id input,
         lp_entry_hash = write_hash D (dr_entry_id draws) input next_position,
         lp_hash_version = ENTRY_HASH_VERSION,
         lp_correlation_id = wi_correlation_id input,
         lp_written_ts_ms = timestamp_millis D (wi_written_ts input)\<rparr>,
      ob_status = Pending,
      ob_attempt_count = 0\<rparr>"

section \<open>Checking a stored entry\<close>

text \<open>
  The canonical input rebuilt from a stored entry, as each verification path does it.
\<close>

definition entry_hash_input ::
    "third_party \<Rightarrow> ledger_entry_record \<Rightarrow> canonical_entry_hash_input" where
  "entry_hash_input D entry =
     \<lparr>ch_entry_id = le_entry_id entry,
      ch_entry_type = le_entry_type entry,
      ch_agent_id = le_agent_id entry,
      ch_content = le_content entry,
      ch_content_type = le_content_type entry,
      ch_source_id = le_source_id entry,
      ch_correlation_id = le_correlation_id entry,
      ch_idempotency_key = le_idempotency_key entry,
      ch_input_hash = le_input_hash entry,
      ch_writer_signature = le_writer_signature entry,
      ch_signer_key_reference = le_signer_key_reference entry,
      ch_attestation_report = le_attestation_report entry,
      ch_chain_position = le_chain_position entry,
      ch_written_ts_ms = timestamp_millis D (le_written_ts entry),
      ch_previous_hash = le_previous_hash entry\<rparr>"

definition recompute_hash :: "third_party \<Rightarrow> ledger_entry_record \<Rightarrow> string option" where
  "recompute_hash D entry =
     canonical_entry_hash_for_version D (le_hash_version entry) (entry_hash_input D entry)"

section \<open>Chains\<close>

text \<open>A chain is the list of the entries of one \<open>entry_type\<close> in the order of their positions.\<close>

definition hash_ok :: "third_party \<Rightarrow> ledger_entry_record \<Rightarrow> bool" where
  "hash_ok D e \<longleftrightarrow> recompute_hash D e = Some (le_entry_hash e)"

fun linked :: "string \<Rightarrow> ledger_entry_record list \<Rightarrow> bool" where
  "linked prev [] \<longleftrightarrow> True"
| "linked prev (e # es) \<longleftrightarrow> le_previous_hash e = prev \<and> linked (le_entry_hash e) es"

definition tip_hash_of :: "string \<Rightarrow> ledger_entry_record list \<Rightarrow> string" where
  "tip_hash_of prev es = (if es = [] then prev else le_entry_hash (last es))"

definition positions_ok :: "ledger_entry_record list \<Rightarrow> bool" where
  "positions_ok es \<longleftrightarrow> map le_chain_position es = map int [1..<Suc (length es)]"

definition ascending :: "ledger_entry_record list \<Rightarrow> bool" where
  "ascending es \<longleftrightarrow> sorted_wrt (\<lambda>a b. le_chain_position a < le_chain_position b) es"

definition chain_inv :: "third_party \<Rightarrow> string \<Rightarrow> ledger_entry_record list \<Rightarrow> bool" where
  "chain_inv D t es \<longleftrightarrow>
     (\<forall>e \<in> set es. le_entry_type e = t \<and> hash_ok D e) \<and> positions_ok es \<and>
     (es \<noteq> [] \<longrightarrow> le_previous_hash (hd es) \<noteq> [] \<and> linked (le_previous_hash (hd es)) es)"

type_synonym ledger = "string \<Rightarrow> ledger_entry_record list"
type_synonym outboxes = "uuid \<Rightarrow> outbox_record option"

definition all_entries :: "ledger \<Rightarrow> ledger_entry_record set" where
  "all_entries L = (\<Union>t. set (L t))"

definition ledger_inv :: "third_party \<Rightarrow> ledger \<Rightarrow> bool" where
  "ledger_inv D L \<longleftrightarrow>
     (\<forall>t. chain_inv D t (L t)) \<and> inj_on le_entry_id (all_entries L) \<and>
     (\<forall>t. \<forall>e \<in> set (L t). \<forall>e' \<in> set (L t).
        le_idempotency_key e \<noteq> None \<longrightarrow> le_idempotency_key e = le_idempotency_key e' \<longrightarrow> e = e')"

definition entry_chain_tip :: "ledger_entry_record \<Rightarrow> chain_tip" where
  "entry_chain_tip e =
     \<lparr>tip_entry_id = le_entry_id e, tip_hash = le_entry_hash e,
      tip_hash_version = le_hash_version e, tip_position = le_chain_position e,
      tip_written_ts = le_written_ts e\<rparr>"

text \<open>What a page read, a link check and a key lookup mean on a chain.\<close>

definition page :: "ledger_entry_record list \<Rightarrow> i64 \<Rightarrow> nat \<Rightarrow> ledger_entry_record list" where
  "page es after limit = take limit (filter (\<lambda>e. le_chain_position e > after) es)"

definition link_ok :: "string \<Rightarrow> ledger_entry_record list \<Rightarrow> bool" where
  "link_ok prev es \<longleftrightarrow> (if es = [] then prev \<noteq> [] else prev = le_entry_hash (last es))"

definition with_key :: "string \<Rightarrow> ledger_entry_record \<Rightarrow> bool" where
  "with_key k e \<longleftrightarrow> le_idempotency_key e = Some k"

definition key_used :: "string option \<Rightarrow> ledger_entry_record list \<Rightarrow> bool" where
  "key_used ko es \<longleftrightarrow> (\<exists>k. ko = Some k \<and> list_ex (with_key k) es)"

definition fresh_draws :: "ledger \<Rightarrow> outboxes \<Rightarrow> uuid_draws \<Rightarrow> bool" where
  "fresh_draws L ob d \<longleftrightarrow> dr_entry_id d \<notin> le_entry_id ` all_entries L \<and> ob (dr_outbox_id d) = None"

definition next_entry :: "third_party \<Rightarrow> ledger \<Rightarrow> uuid_draws \<Rightarrow> entry_write_input \<Rightarrow> ledger_entry_record" where
  "next_entry D L d input =
     new_entry D (dr_entry_id d) input (int (length (L (wi_entry_type input))) + 1)"

definition next_outbox :: "third_party \<Rightarrow> ledger \<Rightarrow> uuid_draws \<Rightarrow> entry_write_input \<Rightarrow> outbox_record" where
  "next_outbox D L d input = new_outbox D d input (int (length (L (wi_entry_type input))) + 1)"

definition append_entry :: "third_party \<Rightarrow> ledger \<Rightarrow> uuid_draws \<Rightarrow> entry_write_input \<Rightarrow> ledger" where
  "append_entry D L d input =
     L(wi_entry_type input := L (wi_entry_type input) @ [next_entry D L d input])"

definition append_outbox ::
    "third_party \<Rightarrow> ledger \<Rightarrow> outboxes \<Rightarrow> uuid_draws \<Rightarrow> entry_write_input \<Rightarrow> outboxes" where
  "append_outbox D L ob d input =
     (if wi_create_outbox input then ob(dr_outbox_id d \<mapsto> next_outbox D L d input) else ob)"

text \<open>
  A store may keep instants at a coarser resolution than the clock reads them: \<open>clip\<close>
  is what it keeps of an instant.
\<close>

definition clip_input :: "(datetime \<Rightarrow> datetime) \<Rightarrow> entry_write_input \<Rightarrow> entry_write_input" where
  "clip_input clip input = input\<lparr>wi_written_ts := clip (wi_written_ts input)\<rparr>"

text \<open>
  The promise of \<open>write_entry_with_outbox\<close>, result by result. What is stored is the
  clipped input; the result still has the instant the caller gave.
\<close>

definition write_spec ::
    "third_party \<Rightarrow> (datetime \<Rightarrow> datetime) \<Rightarrow> bool \<Rightarrow> uuid_draws \<Rightarrow> entry_write_input \<Rightarrow>
     ledger \<Rightarrow> outboxes \<Rightarrow> repository_error + write_result \<Rightarrow> ledger \<Rightarrow> outboxes \<Rightarrow> bool" where
  "write_spec D clip reliable d input L ob r L' ob' \<longleftrightarrow>
     (let es = L (wi_entry_type input);
          kept = clip_input clip input;
          unchanged = (L' = L \<and> ob' = ob);
          appended = (L' = append_entry D L d kept \<and> ob' = append_outbox D L ob d kept
            \<and> link_ok (wi_previous_hash input) es \<and> \<not> key_used (wi_idempotency_key input) es)
      in case r of
           Inr w \<Rightarrow> appended
             \<and> wr_entry w = (next_entry D L d kept)\<lparr>le_written_ts := wi_written_ts input\<rparr>
             \<and> wr_outbox w = (if wi_create_outbox input then Some (next_outbox D L d kept) else None)
         | Inl IdempotencyConflict \<Rightarrow> unchanged \<and> key_used (wi_idempotency_key input) es
         | Inl ChainIntegrityViolation \<Rightarrow> unchanged \<and> \<not> link_ok (wi_previous_hash input) es
         | Inl NotFound \<Rightarrow> False
         | Inl Unavailable \<Rightarrow> \<not> reliable \<and> (unchanged \<or> appended))"

definition answers :: "bool \<Rightarrow> repository_error + 'a \<Rightarrow> repository_error + 'a \<Rightarrow> bool" where
  "answers reliable r good \<longleftrightarrow> (r = Inl Unavailable \<and> \<not> reliable) \<or> r = good"

section \<open>Interfaces\<close>

text \<open>
  What the verification paths rely on. Nothing is said about hashes or links, so the
  interface also covers a store whose rows were tampered with.
\<close>

locale entry_store =
  fixes R :: "'s ledger_repository"
    and inv :: "'s \<Rightarrow> bool"
    and reliable :: bool
    and stored :: "'s \<Rightarrow> ledger"
  assumes paged: "\<And>s t after limit r s'. \<lbrakk>inv s; 1 \<le> limit; limit < 2 ^ 63;
      repo_get_entries_by_type_paged R t after limit s = (r, s')\<rbrakk>
      \<Longrightarrow> inv s' \<and> stored s' = stored s \<and> answers reliable r (Inr (page (stored s t) after (nat limit)))"
    and get_entry_law: "\<And>s i r s'. \<lbrakk>inv s; repo_get_entry R i s = (r, s')\<rbrakk>
      \<Longrightarrow> inv s' \<and> stored s' = stored s \<and>
        (case r of Inr e \<Rightarrow> e \<in> set (stored s (le_entry_type e)) \<and> le_entry_id e = i
         | Inl err \<Rightarrow> (err = NotFound \<and> i \<notin> le_entry_id ` all_entries (stored s))
             \<or> (err = Unavailable \<and> \<not> reliable))"
    and tip_law: "\<And>s t r s'. \<lbrakk>inv s; repo_get_chain_tip R t s = (r, s')\<rbrakk>
      \<Longrightarrow> inv s' \<and> stored s' = stored s \<and>
        (case r of Inr tip \<Rightarrow> stored s t \<noteq> [] \<and> tip_entry_id tip = le_entry_id (last (stored s t))
             \<and> tip_position tip = le_chain_position (last (stored s t))
         | Inl err \<Rightarrow> (err = NotFound \<and> stored s t = []) \<or> (err = Unavailable \<and> \<not> reliable))"
    and types_law: "\<And>s r s'. \<lbrakk>inv s; repo_get_distinct_entry_types R s = (r, s')\<rbrakk>
      \<Longrightarrow> inv s' \<and> stored s' = stored s \<and>
        (case r of Inr ts \<Rightarrow> distinct ts \<and> set ts = {t. stored s t \<noteq> []}
         | Inl err \<Rightarrow> err = Unavailable \<and> \<not> reliable)"
    and by_hash_law: "\<And>s t h r s'. \<lbrakk>inv s; repo_get_entry_by_hash R t h s = (r, s')\<rbrakk>
      \<Longrightarrow> inv s' \<and> stored s' = stored s \<and>
        (case r of Inr e \<Rightarrow> e \<in> set (stored s t) \<and> le_entry_hash e = h
         | Inl err \<Rightarrow> (err = NotFound \<and> h \<notin> le_entry_hash ` set (stored s t))
             \<or> (err = Unavailable \<and> \<not> reliable))"
    and stored_ascending: "inv s \<Longrightarrow> ascending (stored s t)"
    and stored_type: "inv s \<Longrightarrow> e \<in> set (stored s t) \<Longrightarrow> le_entry_type e = t"
    and stored_ids: "inv s \<Longrightarrow> inj_on le_entry_id (all_entries (stored s))"

text \<open>
  The five reads of the interface keep \<open>Q\<close>. Then the interface holds with \<open>Q\<close> added to
  its invariant, so that whatever only reads through it keeps \<open>Q\<close> too.
\<close>

definition reads_keep :: "'s ledger_repository \<Rightarrow> ('s \<Rightarrow> bool) \<Rightarrow> bool" where
  "reads_keep R Q \<longleftrightarrow> (\<forall>s. Q s \<longrightarrow>
     (\<forall>t after limit. Q (snd (repo_get_entries_by_type_paged R t after limit s)))
     \<and> (\<forall>i. Q (snd (repo_get_entry R i s))) \<and> (\<forall>t. Q (snd (repo_get_chain_tip R t s)))
     \<and> Q (snd (repo_get_distinct_entry_types R s)) \<and> (\<forall>t h. Q (snd (repo_get_entry_by_hash R t h s))))"

lemma reads_keepD:
  assumes "reads_keep R Q" and "Q s"
  shows "repo_get_entries_by_type_paged R t after limit s = (r1, s') \<Longrightarrow> Q s'"
    and "repo_get_entry R i s = (r2, s') \<Longrightarrow> Q s'" and "repo_get_chain_tip R t s = (r3, s') \<Longrightarrow> Q s'"
    and "repo_get_distinct_entry_types R s = (r4, s') \<Longrightarrow> Q s'"
    and "repo_get_entry_by_hash R t h s = (r5, s') \<Longrightarrow> Q s'"
  using assms unfolding reads_keep_def by (metis snd_conv)+

context entry_store
begin

lemma pin:
  assumes "reads_keep R Q"
  shows "entry_store R (\<lambda>s. inv s \<and> Q s) reliable stored"
proof (unfold_locales, goal_cases)
  case (1 s t after limit r s')
  then show ?case using paged [of s limit t after r s'] reads_keepD [OF assms, of s] by blast
next
  case (2 s i r s')
  then show ?case using get_entry_law [of s i r s'] reads_keepD [OF assms, of s] by blast
next
  case (3 s t r s')
  then show ?case using tip_law [of s t r s'] reads_keepD [OF assms, of s] by blast
next
  case (4 s r s')
  then show ?case using types_law [of s r s'] reads_keepD [OF assms, of s] by blast
next
  case (5 s t h r s')
  then show ?case using by_hash_law [of s t h r s'] reads_keepD [OF assms, of s] by blast
next
  case (6 s t)
  then show ?case using stored_ascending by blast
next
  case (7 s e t)
  then show ?case using stored_type by blast
next
  case (8 s)
  then show ?case using stored_ids by blast
qed

end

text \<open>
  What the write path relies on: every stored chain is well formed and stays so. The laws
  cover the inputs a store can keep unchanged up to the resolution of the clock
  (\<open>storable\<close>), and that resolution must not lose a millisecond.
\<close>

locale ledger_store = entry_store R inv reliable stored
  for R :: "'s ledger_repository" and inv :: "'s \<Rightarrow> bool" and reliable :: bool
    and stored :: "'s \<Rightarrow> ledger" +
  fixes D :: third_party
    and outbox :: "'s \<Rightarrow> outboxes"
    and clip :: "datetime \<Rightarrow> datetime"
    and storable :: "entry_write_input \<Rightarrow> bool"
  assumes stored_inv: "inv s \<Longrightarrow> ledger_inv D (stored s)"
    and write_law: "\<And>s d input r s'. \<lbrakk>inv s; fresh_draws (stored s) (outbox s) d; storable input;
      repo_write_entry_with_outbox R d input s = (r, s')\<rbrakk>
      \<Longrightarrow> inv s' \<and> write_spec D clip reliable d input (stored s) (outbox s) r (stored s') (outbox s')"
    and storable_millis: "storable input \<Longrightarrow>
      timestamp_millis D (clip (wi_written_ts input)) = timestamp_millis D (wi_written_ts input)"
    and tip_exact: "\<And>s t r s'. \<lbrakk>inv s; repo_get_chain_tip R t s = (r, s')\<rbrakk>
      \<Longrightarrow> outbox s' = outbox s \<and> answers reliable r
        (if stored s t = [] then Inl NotFound else Inr (entry_chain_tip (last (stored s t))))"
    and idempotent_law: "\<And>s t k r s'. \<lbrakk>inv s; repo_find_idempotent R t k s = (r, s')\<rbrakk>
      \<Longrightarrow> inv s' \<and> stored s' = stored s \<and> outbox s' = outbox s \<and>
        answers reliable r (Inr (List.find (with_key k) (stored s t)))"

text \<open>
  What the outbox processor relies on. An update that answers \<open>Unavailable\<close> may have
  taken effect: the answer, not the update, can be lost.
\<close>

locale outbox_store =
  fixes R :: "'s ledger_repository"
    and inv :: "'s \<Rightarrow> bool"
    and reliable :: bool
    and stored :: "'s \<Rightarrow> ledger"
    and outbox :: "'s \<Rightarrow> outboxes"
  assumes pending_law: "\<And>s r s'. \<lbrakk>inv s; repo_pending_outbox R s = (r, s')\<rbrakk>
      \<Longrightarrow> inv s' \<and> stored s' = stored s \<and> outbox s' = outbox s \<and>
        (case r of Inr rs \<Rightarrow> distinct (map ob_outbox_id rs) \<and>
             set rs = {x \<in> ran (outbox s). ob_status x = Pending}
         | Inl err \<Rightarrow> err = Unavailable \<and> \<not> reliable)"
    and delivered_law: "\<And>s i x r s'. \<lbrakk>inv s; outbox s i = Some x; ob_status x = Pending;
      repo_mark_outbox_delivered R i s = (r, s')\<rbrakk>
      \<Longrightarrow> inv s' \<and> stored s' = stored s \<and>
        ((r = Inr () \<and> outbox s' = (outbox s)(i \<mapsto> x\<lparr>ob_status := Delivered\<rparr>))
         \<or> (r = Inl Unavailable \<and> \<not> reliable \<and>
             (outbox s' = outbox s \<or> outbox s' = (outbox s)(i \<mapsto> x\<lparr>ob_status := Delivered\<rparr>))))"
    and increment_law: "\<And>s i x r s'. \<lbrakk>inv s; outbox s i = Some x; repo_increment_outbox_attempt R i s = (r, s')\<rbrakk>
      \<Longrightarrow> inv s' \<and> stored s' = stored s \<and>
        ((r = Inr () \<and> outbox s' = (outbox s)(i \<mapsto> x\<lparr>ob_attempt_count := ob_attempt_count x + 1\<rparr>))
         \<or> (r = Inl Unavailable \<and> \<not> reliable \<and>
             (outbox s' = outbox s \<or> outbox s' = (outbox s)(i \<mapsto> x\<lparr>ob_attempt_count := ob_attempt_count x + 1\<rparr>))))"
    and failed_law: "\<And>s i x r s'. \<lbrakk>inv s; outbox s i = Some x; repo_mark_outbox_failed R i s = (r, s')\<rbrakk>
      \<Longrightarrow> inv s' \<and> stored s' = stored s \<and>
        ((r = Inr () \<and> outbox s' = (outbox s)(i \<mapsto> x\<lparr>ob_status := Failed\<rparr>))
         \<or> (r = Inl Unavailable \<and> \<not> reliable \<and>
             (outbox s' = outbox s \<or> outbox s' = (outbox s)(i \<mapsto> x\<lparr>ob_status := Failed\<rparr>))))"
    and outbox_key: "inv s \<Longrightarrow> outbox s i = Some x \<Longrightarrow> ob_outbox_id x = i"

text \<open>What pagination relies on: one ordered view of the matching entries per filter.\<close>

locale query_store =
  fixes R :: "'s ledger_repository"
    and inv :: "'s \<Rightarrow> bool"
    and reliable :: bool
    and view :: "'s \<Rightarrow> entry_query \<Rightarrow> ledger_entry_record list"
  assumes query_law: "\<And>s q r s'. \<lbrakk>inv s; repo_query_entries R q s = (r, s')\<rbrakk>
      \<Longrightarrow> inv s' \<and> view s' = view s \<and> answers reliable r
        (Inr \<lparr>qr_entries = take (eq_limit q) (drop (eq_offset q) (view s q)),
              qr_total_count = int (length (view s q))\<rparr>)"
    and view_filters: "view s (q\<lparr>eq_limit := l, eq_offset := k\<rparr>) = view s q"

end
