(* ===== verification/Chains.thy ===== *)
theory Chains
  imports Repository
begin

text \<open>
  Facts about chains that every component shares: splitting links at any point,
  positions, pages of an ascending chain, and that appending the entry a write builds
  keeps a ledger well formed.
\<close>

section \<open>Links and positions\<close>

lemma tip_hash_of_simps [chain_simps]:
  "tip_hash_of p [] = p"
  "tip_hash_of p (es @ [e]) = le_entry_hash e"
  "tip_hash_of p (e # es) = tip_hash_of (le_entry_hash e) es"
  by (simp_all add: tip_hash_of_def)

lemma linked_append [chain_simps]:
  "linked p (xs @ ys) \<longleftrightarrow> linked p xs \<and> linked (tip_hash_of p xs) ys"
  by (induction xs arbitrary: p) (auto simp: tip_hash_of_simps)

lemma linked_hd: "linked p es \<Longrightarrow> es \<noteq> [] \<Longrightarrow> le_previous_hash (hd es) = p"
  by (cases es) auto

lemma positions_ok_Nil [simp]: "positions_ok []"
  by (simp add: positions_ok_def)

lemma positions_ok_snoc [chain_simps]:
  "positions_ok (es @ [e]) \<longleftrightarrow> positions_ok es \<and> le_chain_position e = int (length es) + 1"
  by (auto simp: positions_ok_def)

lemma positions_ok_nth:
  assumes "positions_ok es" and "i < length es"
  shows "le_chain_position (es ! i) = int i + 1"
proof -
  have "map le_chain_position es ! i = map int [1..<Suc (length es)] ! i"
    using assms(1) by (simp only: positions_ok_def)
  with assms(2) show ?thesis by (simp del: upt_Suc)
qed

lemma positions_ok_ascending: "positions_ok es \<Longrightarrow> ascending es"
  unfolding ascending_def sorted_wrt_iff_nth_less by (auto simp: positions_ok_nth)

lemma positions_ok_distinct: "positions_ok es \<Longrightarrow> distinct es"
  by (rule distinct_conv_nth [THEN iffD2]) (metis add_right_cancel of_nat_eq_iff positions_ok_nth)

lemma positions_ok_last:
  "positions_ok es \<Longrightarrow> es \<noteq> [] \<Longrightarrow> le_chain_position (last es) = int (length es)"
  by (cases es rule: rev_cases) (simp_all add: positions_ok_snoc)

lemma positions_ok_filter:
  assumes "positions_ok es"
  shows "filter (\<lambda>e. le_chain_position e > int n) es = drop n es"
proof -
  have split: "es = take n es @ drop n es" by simp
  have "\<forall>e \<in> set (take n es). \<not> le_chain_position e > int n"
    using assms by (auto simp: in_set_conv_nth positions_ok_nth)
  moreover have "\<forall>e \<in> set (drop n es). le_chain_position e > int n"
    using assms by (auto simp: in_set_conv_nth positions_ok_nth)
  ultimately have "filter (\<lambda>e. le_chain_position e > int n) (take n es @ drop n es) = drop n es"
    unfolding filter_append by (simp add: filter_id_conv filter_empty_conv)
  with split show ?thesis by simp
qed

section \<open>Ascending chains and their pages\<close>

lemma ascending_append [chain_simps]:
  "ascending (xs @ ys) \<longleftrightarrow> ascending xs \<and> ascending ys \<and>
     (\<forall>x \<in> set xs. \<forall>y \<in> set ys. le_chain_position x < le_chain_position y)"
  by (auto simp: ascending_def sorted_wrt_append)

lemma ascending_Cons [chain_simps]:
  "ascending (e # es) \<longleftrightarrow> (\<forall>x \<in> set es. le_chain_position e < le_chain_position x) \<and> ascending es"
  by (simp add: ascending_def)

lemma ascending_Nil [simp]: "ascending []"
  by (simp add: ascending_def)

lemma ascending_filter: "ascending es \<Longrightarrow> ascending (filter P es)"
  by (simp add: ascending_def sorted_wrt_filter)

text \<open>After a full page ending at \<open>e\<close>, what is left to read is what follows \<open>e\<close>.\<close>

lemma filter_after_page:
  assumes asc: "ascending es" and page: "filter (\<lambda>e. le_chain_position e > after) es = xs @ ys"
    and "xs \<noteq> []"
  shows "filter (\<lambda>e. le_chain_position e > le_chain_position (last xs)) es = ys"
proof -
  let ?p = "le_chain_position (last xs)"
  have asc': "ascending (xs @ ys)"
    using ascending_filter [OF asc] page by metis
  have last: "last xs \<in> set xs" using \<open>xs \<noteq> []\<close> by simp
  have "last xs \<in> set (filter (\<lambda>e. le_chain_position e > after) es)"
    using page last by simp
  then have "after < ?p" by simp
  then have "filter (\<lambda>e. le_chain_position e > ?p) es =
      filter (\<lambda>e. le_chain_position e > ?p) (filter (\<lambda>e. le_chain_position e > after) es)"
    by (auto intro: filter_cong)
  also have "\<dots> = filter (\<lambda>e. le_chain_position e > ?p) xs @ filter (\<lambda>e. le_chain_position e > ?p) ys"
    using page by simp
  also have "filter (\<lambda>e. le_chain_position e > ?p) ys = ys"
    using asc' last by (auto simp: ascending_append intro!: filter_True)
  also have "filter (\<lambda>e. le_chain_position e > ?p) xs = []"
  proof -
    obtain zs where zs: "xs = zs @ [last xs]"
      using \<open>xs \<noteq> []\<close> by (metis append_butlast_last_id)
    then have "\<forall>x \<in> set zs. le_chain_position x < ?p"
      using asc' by (metis ascending_append last list.set_intros(1))
    then have "\<forall>x \<in> set xs. \<not> le_chain_position x > ?p"
      by (subst zs) auto
    then show ?thesis by (simp add: filter_empty_conv)
  qed
  finally show ?thesis by simp
qed

section \<open>Entries built by a write\<close>

lemma new_entry_simps [simp]:
  "le_entry_id (new_entry D i inp n) = i"
  "le_entry_type (new_entry D i inp n) = wi_entry_type inp"
  "le_agent_id (new_entry D i inp n) = wi_agent_id inp"
  "le_content (new_entry D i inp n) = wi_content inp"
  "le_content_type (new_entry D i inp n) = wi_content_type inp"
  "le_source_id (new_entry D i inp n) = wi_source_id inp"
  "le_correlation_id (new_entry D i inp n) = wi_correlation_id inp"
  "le_idempotency_key (new_entry D i inp n) = wi_idempotency_key inp"
  "le_input_hash (new_entry D i inp n) = wi_input_hash inp"
  "le_writer_signature (new_entry D i inp n) = wi_writer_signature inp"
  "le_signer_key_reference (new_entry D i inp n) = wi_signer_key_reference inp"
  "le_attestation_report (new_entry D i inp n) = wi_attestation_report inp"
  "le_hash_version (new_entry D i inp n) = ENTRY_HASH_VERSION"
  "le_entry_hash (new_entry D i inp n) = write_hash D i inp n"
  "le_previous_hash (new_entry D i inp n) = wi_previous_hash inp"
  "le_chain_position (new_entry D i inp n) = n"
  "le_written_ts (new_entry D i inp n) = wi_written_ts inp"
  by (simp_all add: new_entry_def)

lemma hash_ok_new_entry [simp]: "hash_ok D (new_entry D i inp n)"
  by (simp add: hash_ok_def recompute_hash_def canonical_entry_hash_current entry_hash_input_def
      write_hash_def)

lemma next_entry_id [simp]: "le_entry_id (next_entry D L d inp) = dr_entry_id d"
  by (simp add: next_entry_def)

lemma next_entry_type [simp]: "le_entry_type (next_entry D L d inp) = wi_entry_type inp"
  by (simp add: next_entry_def)

lemma next_entry_previous [simp]: "le_previous_hash (next_entry D L d inp) = wi_previous_hash inp"
  by (simp add: next_entry_def)

lemma next_entry_position [simp]:
  "le_chain_position (next_entry D L d inp) = int (length (L (wi_entry_type inp))) + 1"
  by (simp add: next_entry_def)

lemma next_entry_key [simp]: "le_idempotency_key (next_entry D L d inp) = wi_idempotency_key inp"
  by (simp add: next_entry_def)

lemma hash_ok_next_entry [simp]: "hash_ok D (next_entry D L d inp)"
  by (simp add: next_entry_def)

section \<open>Appending keeps a ledger well formed\<close>

lemma append_entry_apply:
  "append_entry D L d inp t =
     (if t = wi_entry_type inp then L t @ [next_entry D L d inp] else L t)"
  by (simp add: append_entry_def)

lemma chain_inv_Nil [simp]: "chain_inv D t []"
  by (simp add: chain_inv_def)

lemma chain_inv_snoc:
  assumes "chain_inv D t es" and "hash_ok D e" and "le_entry_type e = t"
    and "le_chain_position e = int (length es) + 1" and "link_ok (le_previous_hash e) es"
  shows "chain_inv D t (es @ [e])"
proof (cases "es = []")
  case True
  with assms show ?thesis by (simp add: chain_inv_def link_ok_def positions_ok_def)
next
  case False
  with assms have "linked (le_previous_hash (hd es)) (es @ [e])"
    by (simp add: chain_inv_def linked_append tip_hash_of_def link_ok_def)
  with False assms show ?thesis by (auto simp: chain_inv_def positions_ok_snoc)
qed

lemma all_entries_append:
  "all_entries (append_entry D L d inp) = insert (next_entry D L d inp) (all_entries L)"
  by (auto simp: all_entries_def append_entry_def split: if_splits)

lemma ledger_inv_append:
  assumes "ledger_inv D L" and "link_ok (wi_previous_hash inp) (L (wi_entry_type inp))"
    and fresh: "dr_entry_id d \<notin> le_entry_id ` all_entries L"
    and key: "\<not> key_used (wi_idempotency_key inp) (L (wi_entry_type inp))"
  shows "ledger_inv D (append_entry D L d inp)"
proof -
  have "chain_inv D t (append_entry D L d inp t)" for t
    using assms(1,2) by (auto simp: append_entry_apply ledger_inv_def intro: chain_inv_snoc)
  moreover have "inj_on le_entry_id (all_entries (append_entry D L d inp))"
    using assms(1) fresh by (auto simp: all_entries_append ledger_inv_def)
  moreover have "e = e'"
    if "e \<in> set (append_entry D L d inp t)" "e' \<in> set (append_entry D L d inp t)"
      "le_idempotency_key e \<noteq> None" "le_idempotency_key e = le_idempotency_key e'" for t e e'
    using that assms(1) key
    by (auto simp: append_entry_apply ledger_inv_def key_used_def list_ex_iff with_key_def
        split: if_splits)
  ultimately show ?thesis unfolding ledger_inv_def by blast
qed

lemma ledger_inv_chain: "ledger_inv D L \<Longrightarrow> chain_inv D t (L t)"
  by (simp add: ledger_inv_def)

lemma chain_inv_positions: "chain_inv D t es \<Longrightarrow> positions_ok es"
  by (simp add: chain_inv_def)

end
