(* ===== verification/In_Memory.thy ===== *)
theory In_Memory
  imports Chains
begin

text \<open>
  \<open>InMemoryLedgerRepository\<close> of \<open>src/repository/mod.rs\<close>: the five hash maps of
  \<open>Inner\<close>, every operation of the trait on them, and the proof that they implement the
  repository interfaces. The \<open>RwLock\<close> around \<open>Inner\<close> makes each operation one
  atomic step, so an operation is a function from the state to a result and the next
  state.
\<close>

section \<open>State and operations\<close>

record inner =
  im_entries :: "(uuid, ledger_entry_record) hash_map"
  im_ordered_by_type :: "(string, uuid list) hash_map"
  im_chain_tips :: "(string, chain_tip) hash_map"
  im_idempotency_index :: "(string \<times> string, uuid) hash_map"
  im_outbox :: "(uuid, outbox_record) hash_map"
  im_seed :: hash_seed

definition mem_default :: "hash_seed \<Rightarrow> inner" where
  "mem_default seed =
     \<lparr>im_entries = [], im_ordered_by_type = [], im_chain_tips = [],
      im_idempotency_index = [], im_outbox = [], im_seed = seed\<rparr>"

definition mem_write_entry_with_outbox ::
    "third_party \<Rightarrow> uuid_draws \<Rightarrow> entry_write_input \<Rightarrow> (inner, write_result) repo_op" where
  "mem_write_entry_with_outbox D draws input s =
     (if (case wi_idempotency_key input of
            None \<Rightarrow> False
          | Some key \<Rightarrow> hm_get (im_idempotency_index s) (wi_entry_type input, key) \<noteq> None)
      then (Inl IdempotencyConflict, s)
      else
        let next_position =
          (case hm_get (im_chain_tips s) (wi_entry_type input) of
             None \<Rightarrow> 1
           | Some tip \<Rightarrow> tip_position tip + 1)
        in if next_position = 1 \<and> wi_previous_hash input = []
           then (Inl ChainIntegrityViolation, s)
           else if next_position > 1 \<and>
             (case hm_get (im_chain_tips s) (wi_entry_type input) of
                None \<Rightarrow> True
              | Some tip \<Rightarrow> tip_hash tip \<noteq> wi_previous_hash input)
           then (Inl ChainIntegrityViolation, s)
           else
             let entry_id = dr_entry_id draws;
                 entry = new_entry D entry_id input next_position;
                 outbox = new_outbox D draws input next_position;
                 ids = (case hm_get (im_ordered_by_type s) (wi_entry_type input) of
                          None \<Rightarrow> [] | Some ids \<Rightarrow> ids)
             in (Inr \<lparr>wr_entry = entry,
                      wr_outbox = (if wi_create_outbox input then Some outbox else None)\<rparr>,
                 s\<lparr>im_entries := hm_insert entry_id entry (im_entries s),
                   im_ordered_by_type :=
                     hm_insert (wi_entry_type input) (ids @ [entry_id]) (im_ordered_by_type s),
                   im_chain_tips := hm_insert (wi_entry_type input)
                     \<lparr>tip_entry_id = entry_id, tip_hash = le_entry_hash entry,
                      tip_hash_version = ENTRY_HASH_VERSION, tip_position = next_position,
                      tip_written_ts = le_written_ts entry\<rparr> (im_chain_tips s),
                   im_idempotency_index :=
                     (case wi_idempotency_key input of
                        None \<Rightarrow> im_idempotency_index s
                      | Some key \<Rightarrow>
                          hm_insert (le_entry_type entry, key) entry_id (im_idempotency_index s)),
                   im_outbox :=
                     (if wi_create_outbox input
                      then hm_insert (dr_outbox_id draws) outbox (im_outbox s)
                      else im_outbox s)\<rparr>))"

definition mem_get_entry :: "uuid \<Rightarrow> (inner, ledger_entry_record) repo_op" where
  "mem_get_entry entry_id s =
     (case hm_get (im_entries s) entry_id of None \<Rightarrow> Inl NotFound | Some e \<Rightarrow> Inr e, s)"

definition starts_with :: "string \<Rightarrow> string \<Rightarrow> bool" where
  "starts_with prefix s \<longleftrightarrow> take (length prefix) s = prefix"

definition retain_some ::
    "'b option \<Rightarrow> ('b \<Rightarrow> ledger_entry_record \<Rightarrow> bool) \<Rightarrow> ledger_entry_record list \<Rightarrow>
     ledger_entry_record list" where
  "retain_some flt P es = (case flt of None \<Rightarrow> es | Some x \<Rightarrow> filter (P x) es)"

definition apply_query_filters ::
    "third_party \<Rightarrow> entry_query \<Rightarrow> ledger_entry_record list \<Rightarrow> ledger_entry_record list" where
  "apply_query_filters D query entries =
     (let entries = retain_some (eq_entry_type_prefix query)
            (\<lambda>p e. starts_with p (le_entry_type e)) entries;
          entries = retain_some (eq_agent_id query) (\<lambda>a e. le_agent_id e = a) entries;
          entries = retain_some (eq_source_id query) (\<lambda>a e. le_source_id e = a) entries;
          entries = retain_some (eq_correlation_id query)
            (\<lambda>c e. le_correlation_id e = Some c) entries;
          entries = retain_some (eq_from_ts_ms query)
            (\<lambda>t e. timestamp_millis D (le_written_ts e) \<ge> t) entries
      in retain_some (eq_to_ts_ms query)
            (\<lambda>t e. timestamp_millis D (le_written_ts e) \<le> t) entries)"

definition mem_query_entries :: "third_party \<Rightarrow> entry_query \<Rightarrow> (inner, query_result) repo_op" where
  "mem_query_entries D query s =
     (let values = hm_values (im_seed s) (im_entries s);
          values = apply_query_filters D query values;
          values = sort_key (\<lambda>e. (timestamp_millis D (le_written_ts e), le_chain_position e)) values
      in (Inr \<lparr>qr_entries = take (eq_limit query) (drop (eq_offset query) values),
               qr_total_count = int (length values)\<rparr>, s))"

definition mem_get_chain_tip :: "string \<Rightarrow> (inner, chain_tip) repo_op" where
  "mem_get_chain_tip entry_type s =
     (case hm_get (im_chain_tips s) entry_type of None \<Rightarrow> Inl NotFound | Some tip \<Rightarrow> Inr tip, s)"

text \<open>The paging loop: push a matching entry, then stop if \<open>out.len() >= limit as usize\<close>.\<close>

fun page_scan :: "inner \<Rightarrow> i64 \<Rightarrow> nat \<Rightarrow> uuid list \<Rightarrow> ledger_entry_record list \<Rightarrow>
    ledger_entry_record list" where
  "page_scan s after lim [] out = out"
| "page_scan s after lim (i # ids) out =
     (case hm_get (im_entries s) i of
        None \<Rightarrow> page_scan s after lim ids out
      | Some entry \<Rightarrow>
          if le_chain_position entry > after
          then (if length (out @ [entry]) \<ge> lim then out @ [entry]
                else page_scan s after lim ids (out @ [entry]))
          else page_scan s after lim ids out)"

definition mem_get_entries_by_type_paged ::
    "string \<Rightarrow> i64 \<Rightarrow> i64 \<Rightarrow> (inner, ledger_entry_record list) repo_op" where
  "mem_get_entries_by_type_paged entry_type after_position limit s =
     (case hm_get (im_ordered_by_type s) entry_type of
        None \<Rightarrow> (Inr [], s)
      | Some ids \<Rightarrow> (Inr (page_scan s after_position (i64_as_usize limit) ids []), s))"

definition mem_get_entry_by_hash :: "string \<Rightarrow> string \<Rightarrow> (inner, ledger_entry_record) repo_op" where
  "mem_get_entry_by_hash entry_type entry_hash s =
     (case List.find (\<lambda>e. le_entry_type e = entry_type \<and> le_entry_hash e = entry_hash)
        (hm_values (im_seed s) (im_entries s)) of
        None \<Rightarrow> Inl NotFound
      | Some e \<Rightarrow> Inr e, s)"

definition mem_find_idempotent ::
    "string \<Rightarrow> string \<Rightarrow> (inner, ledger_entry_record option) repo_op" where
  "mem_find_idempotent entry_type idempotency_key s =
     (case hm_get (im_idempotency_index s) (entry_type, idempotency_key) of
        None \<Rightarrow> (Inr None, s)
      | Some entry_id \<Rightarrow> (Inr (hm_get (im_entries s) entry_id), s))"

definition mem_pending_outbox :: "(inner, outbox_record list) repo_op" where
  "mem_pending_outbox s =
     (Inr (filter (\<lambda>x. ob_status x = Pending) (hm_values (im_seed s) (im_outbox s))), s)"

definition mem_update_outbox ::
    "(outbox_record \<Rightarrow> outbox_record) \<Rightarrow> uuid \<Rightarrow> (inner, unit) repo_op" where
  "mem_update_outbox f outbox_id s =
     (case hm_get (im_outbox s) outbox_id of
        None \<Rightarrow> (Inl NotFound, s)
      | Some x \<Rightarrow> (Inr (), s\<lparr>im_outbox := hm_insert outbox_id (f x) (im_outbox s)\<rparr>))"

definition mem_mark_outbox_delivered :: "uuid \<Rightarrow> (inner, unit) repo_op" where
  "mem_mark_outbox_delivered = mem_update_outbox (\<lambda>x. x\<lparr>ob_status := Delivered\<rparr>)"

definition mem_increment_outbox_attempt :: "uuid \<Rightarrow> (inner, unit) repo_op" where
  "mem_increment_outbox_attempt =
     mem_update_outbox (\<lambda>x. x\<lparr>ob_attempt_count := ob_attempt_count x + 1\<rparr>)"

definition mem_mark_outbox_failed :: "uuid \<Rightarrow> (inner, unit) repo_op" where
  "mem_mark_outbox_failed = mem_update_outbox (\<lambda>x. x\<lparr>ob_status := Failed\<rparr>)"

definition mem_get_distinct_entry_types :: "(inner, string list) repo_op" where
  "mem_get_distinct_entry_types s = (Inr (sort (hm_keys (im_seed s) (im_ordered_by_type s))), s)"

definition in_memory :: "third_party \<Rightarrow> inner ledger_repository" where
  "in_memory D =
     \<lparr>repo_write_entry_with_outbox = mem_write_entry_with_outbox D,
      repo_get_entry = mem_get_entry,
      repo_query_entries = mem_query_entries D,
      repo_get_chain_tip = mem_get_chain_tip,
      repo_get_entries_by_type_paged = mem_get_entries_by_type_paged,
      repo_find_idempotent = mem_find_idempotent,
      repo_get_entry_by_hash = mem_get_entry_by_hash,
      repo_pending_outbox = mem_pending_outbox,
      repo_mark_outbox_delivered = mem_mark_outbox_delivered,
      repo_increment_outbox_attempt = mem_increment_outbox_attempt,
      repo_mark_outbox_failed = mem_mark_outbox_failed,
      repo_get_distinct_entry_types = mem_get_distinct_entry_types\<rparr>"

section \<open>Abstraction and invariants\<close>

text \<open>The chain of a type: the entries its id list names, in list order.\<close>

definition mem_chain :: "inner \<Rightarrow> ledger" where
  "mem_chain s t =
     (case hm_get (im_ordered_by_type s) t of
        None \<Rightarrow> []
      | Some ids \<Rightarrow> List.map_filter (hm_get (im_entries s)) ids)"

definition mem_outboxes :: "inner \<Rightarrow> outboxes" where
  "mem_outboxes s = hm_get (im_outbox s)"

text \<open>
  \<open>mem_store_inv\<close>: the indexes agree with the entries, whatever the entries contain
  beyond id, type and position. \<open>mem_inv\<close> adds that every chain is well formed.
\<close>

definition mem_index_inv :: "inner \<Rightarrow> bool" where
  "mem_index_inv s \<longleftrightarrow>
     seed_ok (im_seed s) \<and> hm_wf (im_entries s) \<and> hm_wf (im_ordered_by_type s) \<and>
     hm_wf (im_outbox s) \<and>
     (\<forall>t ids. hm_get (im_ordered_by_type s) t = Some ids \<longrightarrow> ids \<noteq> [] \<and>
        (\<forall>i \<in> set ids. \<exists>e. hm_get (im_entries s) i = Some e \<and> le_entry_id e = i \<and> le_entry_type e = t)) \<and>
     (\<forall>i e. hm_get (im_entries s) i = Some e \<longrightarrow>
        (\<exists>ids. hm_get (im_ordered_by_type s) (le_entry_type e) = Some ids \<and> i \<in> set ids)) \<and>
     (\<forall>i x. hm_get (im_outbox s) i = Some x \<longrightarrow> ob_outbox_id x = i)"

definition tip_matches :: "ledger_entry_record list \<Rightarrow> chain_tip option \<Rightarrow> bool" where
  "tip_matches es tip \<longleftrightarrow>
     (case tip of
        None \<Rightarrow> es = []
      | Some x \<Rightarrow> es \<noteq> [] \<and> tip_entry_id x = le_entry_id (last es)
          \<and> tip_position x = le_chain_position (last es))"

definition mem_store_inv :: "inner \<Rightarrow> bool" where
  "mem_store_inv s \<longleftrightarrow> mem_index_inv s \<and>
     (\<forall>t. ascending (mem_chain s t) \<and> tip_matches (mem_chain s t) (hm_get (im_chain_tips s) t))"

definition mem_inv :: "third_party \<Rightarrow> inner \<Rightarrow> bool" where
  "mem_inv D s \<longleftrightarrow> mem_index_inv s \<and> ledger_inv D (mem_chain s) \<and>
     (\<forall>t. hm_get (im_chain_tips s) t =
        (if mem_chain s t = [] then None else Some (entry_chain_tip (last (mem_chain s t))))) \<and>
     (\<forall>t k. hm_get (im_idempotency_index s) (t, k) =
        map_option le_entry_id (List.find (with_key k) (mem_chain s t)))"

end
