(* ===== verification/Rust_Strings.thy ===== *)
theory Rust_Strings
  imports Ledger_Prelude
begin

text \<open>
  The string operations of the Rust standard library that the configuration and the TLS
  code use, on UTF-8 byte strings: Unicode white space, \<open>trim\<close>,
  \<open>split_whitespace\<close>, \<open>split\<close> on a character, \<open>strip_prefix\<close> and \<open>find\<close>.
\<close>

definition byte_at :: "string \<Rightarrow> nat \<Rightarrow> nat" where
  "byte_at s i = (if i < length s then of_char (s ! i) else 0)"

text \<open>
  The number of bytes of the white-space character at the front of a string, 0 if there
  is none: U+0009 to U+000D, U+0020, U+0085, U+00A0, U+1680, U+2000 to U+200A, U+2028,
  U+2029, U+202F, U+205F and U+3000, in their UTF-8 encodings.
\<close>

definition ws_len :: "string \<Rightarrow> nat" where
  "ws_len s =
     (let a = byte_at s 0; b = byte_at s 1; c = byte_at s 2
      in if (9 \<le> a \<and> a \<le> 13) \<or> a = 0x20 then 1
         else if a = 0xC2 \<and> (b = 0x85 \<or> b = 0xA0) then 2
         else if (a = 0xE1 \<and> b = 0x9A \<and> c = 0x80)
           \<or> (a = 0xE2 \<and> b = 0x80 \<and> ((0x80 \<le> c \<and> c \<le> 0x8A) \<or> c = 0xA8 \<or> c = 0xA9 \<or> c = 0xAF))
           \<or> (a = 0xE2 \<and> b = 0x81 \<and> c = 0x9F) \<or> (a = 0xE3 \<and> b = 0x80 \<and> c = 0x80) then 3
         else 0)"

lemma byte_at_pos: "0 < byte_at s i \<Longrightarrow> i < length s"
  by (auto simp: byte_at_def split: if_splits)

lemma ws_len_pos: "0 < ws_len s \<Longrightarrow> s \<noteq> []"
  by (auto simp: ws_len_def byte_at_def Let_def split: if_splits)

function trim_start :: "string \<Rightarrow> string" where
  "trim_start s = (if ws_len s = 0 then s else trim_start (drop (ws_len s) s))"
  by pat_completeness auto
termination
proof (relation "measure length")
  fix s :: string assume "ws_len s \<noteq> 0"
  then show "(drop (ws_len s) s, s) \<in> measure length"
    using ws_len_pos [of s] by simp
qed simp

declare trim_start.simps [simp del]

text \<open>\<open>s.trim().is_empty()\<close>: nothing is left once leading white space is gone.\<close>

definition trim_is_empty :: "string \<Rightarrow> bool" where
  "trim_is_empty s \<longleftrightarrow> trim_start s = []"

text \<open>\<open>str::trim\<close>: a suffix that is all white space goes, after the leading white space.\<close>

fun trim_end :: "string \<Rightarrow> string" where
  "trim_end [] = []"
| "trim_end (c # cs) = (if trim_is_empty (c # cs) then [] else c # trim_end cs)"

definition trim :: "string \<Rightarrow> string" where
  "trim s = trim_end (trim_start s)"

text \<open>\<open>split_whitespace\<close>: the maximal non-empty runs of non-white-space characters.\<close>

function take_token :: "string \<Rightarrow> string \<times> string" where
  "take_token s =
     (if s = [] \<or> 0 < ws_len s then ([], s)
      else let (t, r) = take_token (tl s) in (hd s # t, r))"
  by pat_completeness auto
termination by (relation "measure length") auto

declare take_token.simps [simp del]

lemma take_token_length: "length (fst (take_token s)) + length (snd (take_token s)) = length s"
proof (induction s rule: take_token.induct)
  case (1 s)
  show ?case
  proof (cases "s = [] \<or> 0 < ws_len s")
    case True
    then show ?thesis by (subst (1 2) take_token.simps) simp
  next
    case False
    with "1.IH" have "length (fst (take_token (tl s))) + length (snd (take_token (tl s))) = length (tl s)"
      by simp
    with False show ?thesis
      by (subst (1 2) take_token.simps) (cases s; auto split: prod.splits)
  qed
qed

lemma trim_start_length: "length (trim_start s) \<le> length s"
proof (induction s rule: trim_start.induct)
  case (1 s)
  then show ?case
    by (subst trim_start.simps) (auto intro: le_trans)
qed

lemma trim_start_no_ws: "ws_len (trim_start s) = 0"
proof (induction s rule: trim_start.induct)
  case (1 s)
  then show ?case by (subst trim_start.simps) simp
qed

lemma trim_empty_iff: "trim s = [] \<longleftrightarrow> trim_is_empty s"
proof -
  have "trim_start (trim_start s) = trim_start s"
    by (subst trim_start.simps) (simp add: trim_start_no_ws)
  then show ?thesis
    by (cases "trim_start s") (auto simp: trim_def trim_is_empty_def)
qed

lemma take_token_shrinks:
  assumes "s \<noteq> []" and "ws_len s = 0"
  shows "length (snd (take_token s)) < length s"
proof -
  have "fst (take_token s) \<noteq> []"
    using assms by (subst take_token.simps) (simp split: prod.splits)
  with take_token_length [of s] show ?thesis
    by (cases "fst (take_token s)") auto
qed

function split_whitespace :: "string \<Rightarrow> string list" where
  "split_whitespace s =
     (let u = trim_start s
      in if u = [] then [] else fst (take_token u) # split_whitespace (snd (take_token u)))"
  by pat_completeness auto
termination
proof (relation "measure length")
  fix s u assume "u = trim_start s" "u \<noteq> []"
  then have "length (snd (take_token u)) < length u"
    by (simp add: take_token_shrinks trim_start_no_ws)
  with \<open>u = trim_start s\<close> trim_start_length [of s]
  show "(snd (take_token u), s) \<in> measure length" by simp
qed simp

declare split_whitespace.simps [simp del]

text \<open>\<open>str::split\<close> on one character: n separators give n + 1 pieces.\<close>

fun split_on :: "char \<Rightarrow> string \<Rightarrow> string list" where
  "split_on c [] = [[]]"
| "split_on c (x # xs) =
     (if x = c then [] # split_on c xs
      else case split_on c xs of [] \<Rightarrow> [[x]] | p # ps \<Rightarrow> (x # p) # ps)"

definition strip_prefix :: "string \<Rightarrow> string \<Rightarrow> string option" where
  "strip_prefix p s = (if take (length p) s = p then Some (drop (length p) s) else None)"

text \<open>What follows the first occurrence of a character.\<close>

fun after_char :: "char \<Rightarrow> string \<Rightarrow> string option" where
  "after_char c [] = None"
| "after_char c (x # xs) = (if x = c then Some xs else after_char c xs)"

lemma strip_prefix_append [simp]: "strip_prefix p (p @ s) = Some s"
  by (simp add: strip_prefix_def)

lemma strip_prefix_SomeD: "strip_prefix p s = Some r \<Longrightarrow> s = p @ r"
  by (auto simp: strip_prefix_def split: if_splits) (metis append_take_drop_id)

end
