(* ===== verification/Config.thy ===== *)
theory Config
  imports Rust_Strings
begin

text \<open>
  The configuration of \<open>src/config/mod.rs\<close>: \<open>AppConfig::from_env\<close> over an
  environment that maps variable names to values (absent when unset or not Unicode).
  Ports are 16-bit, sizes 64-bit, retry counts are cast with \<open>as u32\<close>, so they keep
  the low 32 bits of the parsed number.
\<close>

type_synonym environment = "string \<Rightarrow> string option"

datatype config_error = Missing string | InvalidInteger string

record app_config =
  cfg_grpc_port :: nat
  cfg_health_port :: nat
  cfg_metrics_port :: nat
  cfg_max_content_size_bytes :: nat
  cfg_db_connection_string :: string
  cfg_outbox_http_endpoint :: "string option"
  cfg_outbox_http_bearer_token :: "string option"
  cfg_outbox_http_timeout_seconds :: nat
  cfg_genesis_hash_input :: string
  cfg_pool_max_size :: nat
  cfg_chain_max_retries :: u32
  cfg_chain_halt_recovery_seconds :: nat
  cfg_outbox_max_retries :: u32
  cfg_verify_interval_seconds :: nat
  cfg_verify_max_entries_per_chain :: i64
  cfg_api_token :: "string option"
  cfg_shutdown_token :: "string option"

definition required :: "environment \<Rightarrow> string \<Rightarrow> config_error + string" where
  "required env name = (case env name of Some v \<Rightarrow> Inr v | None \<Rightarrow> Inl (Missing name))"

definition optional :: "environment \<Rightarrow> string \<Rightarrow> string option" where
  "optional env name =
     (case env name of
        None \<Rightarrow> None
      | Some value \<Rightarrow> if trim_is_empty value then None else Some value)"

definition parse_u16 :: "environment \<Rightarrow> string \<Rightarrow> nat \<Rightarrow> config_error + nat" where
  "parse_u16 env name default_value =
     (case env name of
        Some raw \<Rightarrow>
          (case parse_unsigned 16 raw of Some n \<Rightarrow> Inr n | None \<Rightarrow> Inl (InvalidInteger name))
      | None \<Rightarrow> Inr default_value)"

definition parse_usize :: "environment \<Rightarrow> string \<Rightarrow> nat \<Rightarrow> config_error + nat" where
  "parse_usize env name default_value =
     (case env name of
        Some raw \<Rightarrow>
          (case parse_unsigned 64 raw of Some n \<Rightarrow> Inr n | None \<Rightarrow> Inl (InvalidInteger name))
      | None \<Rightarrow> Inr default_value)"

definition parse_nonzero_u64 :: "environment \<Rightarrow> string \<Rightarrow> nat \<Rightarrow> config_error + nat" where
  "parse_nonzero_u64 env name default_value =
     (case (case env name of
              Some raw \<Rightarrow>
                (case parse_unsigned 64 raw of Some n \<Rightarrow> Inr n | None \<Rightarrow> Inl (InvalidInteger name))
            | None \<Rightarrow> Inr default_value) of
        Inl e \<Rightarrow> Inl e
      | Inr value \<Rightarrow> if value = 0 then Inl (InvalidInteger name) else Inr value)"

definition parse_positive_i64 :: "environment \<Rightarrow> string \<Rightarrow> i64 \<Rightarrow> config_error + i64" where
  "parse_positive_i64 env name default_value =
     (case (case env name of
              Some raw \<Rightarrow>
                (case parse_signed 64 raw of Some n \<Rightarrow> Inr n | None \<Rightarrow> Inl (InvalidInteger name))
            | None \<Rightarrow> Inr default_value) of
        Inl e \<Rightarrow> Inl e
      | Inr value \<Rightarrow> if value \<le> 0 then Inl (InvalidInteger name) else Inr value)"

definition parse_verify_interval :: "environment \<Rightarrow> config_error + nat" where
  "parse_verify_interval env =
     (case env ''ARE_LEDGER_VERIFY_INTERVAL_SECONDS'' of
        Some raw \<Rightarrow>
          (case parse_unsigned 64 raw of
             Some n \<Rightarrow> Inr n
           | None \<Rightarrow> Inl (InvalidInteger ''ARE_LEDGER_VERIFY_INTERVAL_SECONDS''))
      | None \<Rightarrow> Inr 300)"

text \<open>The \<open>?\<close> operator: stop at the first error.\<close>

definition bind_result :: "'e + 'a \<Rightarrow> ('a \<Rightarrow> 'e + 'b) \<Rightarrow> 'e + 'b" where
  "bind_result r f = (case r of Inl e \<Rightarrow> Inl e | Inr x \<Rightarrow> f x)"

lemma bind_result_simps [simp]:
  "bind_result (Inl e) f = Inl e" "bind_result (Inr x) f = f x"
  by (simp_all add: bind_result_def)

lemma bind_result_Inr: "bind_result r f = Inr y \<longleftrightarrow> (\<exists>x. r = Inr x \<and> f x = Inr y)"
  by (cases r) auto

definition from_env :: "environment \<Rightarrow> config_error + app_config" where
  "from_env env =
     bind_result (parse_u16 env ''ARE_LEDGER_GRPC_PORT'' 9092) (\<lambda>grpc_port.
     bind_result (parse_u16 env ''ARE_LEDGER_HEALTH_PORT'' 8080) (\<lambda>health_port.
     bind_result (parse_u16 env ''ARE_LEDGER_METRICS_PORT'' 8083) (\<lambda>metrics_port.
     bind_result (parse_usize env ''ARE_LEDGER_MAX_CONTENT_SIZE_BYTES'' 1048576) (\<lambda>max_content.
     bind_result (required env ''ARE_LEDGER_DB_CONNECTION_STRING'') (\<lambda>db.
     bind_result (parse_nonzero_u64 env ''ARE_LEDGER_OUTBOX_HTTP_TIMEOUT_SECONDS'' 10) (\<lambda>timeout.
     bind_result (parse_usize env ''ARE_LEDGER_POOL_MAX_SIZE'' 16) (\<lambda>pool.
     bind_result (parse_usize env ''ARE_LEDGER_CHAIN_MAX_RETRIES'' 10) (\<lambda>chain_retries.
     bind_result (parse_nonzero_u64 env ''ARE_LEDGER_CHAIN_HALT_RECOVERY_SECONDS'' 60) (\<lambda>recovery.
     bind_result (parse_usize env ''ARE_LEDGER_OUTBOX_MAX_RETRIES'' 10) (\<lambda>outbox_retries.
     bind_result (parse_verify_interval env) (\<lambda>interval.
     bind_result (parse_positive_i64 env ''ARE_LEDGER_VERIFY_MAX_ENTRIES_PER_CHAIN'' 10000) (\<lambda>window.
     Inr \<lparr>cfg_grpc_port = grpc_port,
          cfg_health_port = health_port,
          cfg_metrics_port = metrics_port,
          cfg_max_content_size_bytes = max_content,
          cfg_db_connection_string = db,
          cfg_outbox_http_endpoint = optional env ''ARE_LEDGER_OUTBOX_HTTP_ENDPOINT'',
          cfg_outbox_http_bearer_token = optional env ''ARE_LEDGER_OUTBOX_HTTP_BEARER_TOKEN'',
          cfg_outbox_http_timeout_seconds = timeout,
          cfg_genesis_hash_input =
            (case env ''ARE_LEDGER_GENESIS_HASH_INPUT'' of
               Some v \<Rightarrow> v | None \<Rightarrow> ''ARE_LEDGER_GENESIS''),
          cfg_pool_max_size = pool,
          cfg_chain_max_retries = word_of_nat chain_retries,
          cfg_chain_halt_recovery_seconds = recovery,
          cfg_outbox_max_retries = word_of_nat outbox_retries,
          cfg_verify_interval_seconds = interval,
          cfg_verify_max_entries_per_chain = window,
          cfg_api_token = env ''ARE_LEDGER_API_TOKEN'',
          cfg_shutdown_token = env ''ARE_LEDGER_SHUTDOWN_TOKEN''\<rparr>))))))))))))"

section \<open>What the parsers accept\<close>

lemma parse_u16_range: "parse_u16 env name d = Inr n \<Longrightarrow> d < 2 ^ 16 \<Longrightarrow> n < 2 ^ 16"
  by (auto simp: parse_u16_def dest: parse_unsigned_bound split: option.splits)

lemma parse_usize_range: "parse_usize env name d = Inr n \<Longrightarrow> d < 2 ^ 64 \<Longrightarrow> n < 2 ^ 64"
  by (auto simp: parse_usize_def dest: parse_unsigned_bound split: option.splits)

lemma parse_nonzero_u64_range:
  "parse_nonzero_u64 env name d = Inr n \<Longrightarrow> d < 2 ^ 64 \<Longrightarrow> 0 < n \<and> n < 2 ^ 64"
  by (auto simp: parse_nonzero_u64_def dest: parse_unsigned_bound split: option.splits if_splits sum.splits)

lemma parse_signed_bound: "parse_signed 64 s = Some i \<Longrightarrow> i < 2 ^ 63"
  by (auto simp: parse_signed_def split: option.splits if_splits)

lemma parse_positive_i64_range:
  "parse_positive_i64 env name d = Inr n \<Longrightarrow> d < 2 ^ 63 \<Longrightarrow> 0 < n \<and> n < 2 ^ 63"
  by (auto simp: parse_positive_i64_def dest: parse_signed_bound split: option.splits if_splits sum.splits)

lemma parse_verify_interval_range: "parse_verify_interval env = Inr n \<Longrightarrow> n < 2 ^ 64"
  by (auto simp: parse_verify_interval_def dest: parse_unsigned_bound split: option.splits)

lemma optional_not_blank: "optional env name = Some v \<Longrightarrow> \<not> trim_is_empty v"
  by (auto simp: optional_def split: option.splits if_splits)

lemma required_Inr: "required env name = Inr v \<longleftrightarrow> env name = Some v"
  by (auto simp: required_def split: option.splits)

lemma parse_usize_set: "parse_usize env name d = Inr n \<Longrightarrow> env name = Some raw \<Longrightarrow> parse_unsigned 64 raw = Some n"
  by (auto simp: parse_usize_def split: option.splits)

lemma from_env_Inr:
  assumes "from_env env = Inr cfg"
  shows "parse_u16 env ''ARE_LEDGER_GRPC_PORT'' 9092 = Inr (cfg_grpc_port cfg)"
    and "parse_u16 env ''ARE_LEDGER_HEALTH_PORT'' 8080 = Inr (cfg_health_port cfg)"
    and "parse_u16 env ''ARE_LEDGER_METRICS_PORT'' 8083 = Inr (cfg_metrics_port cfg)"
    and "parse_usize env ''ARE_LEDGER_MAX_CONTENT_SIZE_BYTES'' 1048576 = Inr (cfg_max_content_size_bytes cfg)"
    and "required env ''ARE_LEDGER_DB_CONNECTION_STRING'' = Inr (cfg_db_connection_string cfg)"
    and "parse_nonzero_u64 env ''ARE_LEDGER_OUTBOX_HTTP_TIMEOUT_SECONDS'' 10 = Inr (cfg_outbox_http_timeout_seconds cfg)"
    and "\<exists>n. parse_usize env ''ARE_LEDGER_CHAIN_MAX_RETRIES'' 10 = Inr n \<and> cfg_chain_max_retries cfg = word_of_nat n"
    and "parse_nonzero_u64 env ''ARE_LEDGER_CHAIN_HALT_RECOVERY_SECONDS'' 60 = Inr (cfg_chain_halt_recovery_seconds cfg)"
    and "\<exists>n. parse_usize env ''ARE_LEDGER_OUTBOX_MAX_RETRIES'' 10 = Inr n \<and> cfg_outbox_max_retries cfg = word_of_nat n"
    and "parse_positive_i64 env ''ARE_LEDGER_VERIFY_MAX_ENTRIES_PER_CHAIN'' 10000 = Inr (cfg_verify_max_entries_per_chain cfg)"
    and "cfg_outbox_http_endpoint cfg = optional env ''ARE_LEDGER_OUTBOX_HTTP_ENDPOINT''"
    and "cfg_api_token cfg = env ''ARE_LEDGER_API_TOKEN''"
  using assms unfolding from_env_def bind_result_Inr by auto

end
