(* ===== verification/Service.thy ===== *)
theory Service
  imports Repository Config
begin

text \<open>
  The service of \<open>src/service/mod.rs\<close>: writing with validation, halting, idempotency
  and retries; the verification paths; receipts; the outbox. Each operation takes the
  repository as a record of operations (the trait object \<open>R\<close>) and threads the service
  state: the repository state, the table of halted chains, the table of chain locks, the
  metrics, the sleeps taken and the publish calls made.

  Sources of nondeterminism are arguments: the clock readings and the random UUIDs of a
  write (\<open>write_env\<close>), the answer of the event sink to each publish call
  (\<open>publisher\<close>). Every repository call is one atomic step here.
\<close>

section \<open>Data\<close>

record write_entry_input =
  we_entry_type :: string
  we_agent_id :: string
  we_content :: "u8 list"
  we_content_type :: string
  we_source_id :: string
  we_correlation_id :: "string option"
  we_idempotency_key :: "string option"
  we_input_hash :: "string option"
  we_writer_signature :: "u8 list option"
  we_signer_key_reference :: "string option"
  we_attestation_report :: "u8 list option"

record write_entry_output =
  wo_entry_id :: uuid
  wo_entry_hash :: string
  wo_chain_position :: i64
  wo_written_ts_ms :: i64
  wo_hash_version :: string

record verify_entry_output =
  ve_entry_id :: uuid
  ve_hash_valid :: bool
  ve_chain_link_valid :: bool
  ve_failure_reason :: string

record verify_chain_output =
  vc_chain_valid :: bool
  vc_entries_checked :: i64
  vc_first_invalid_entry_id :: "uuid option"
  vc_failure_reason :: string

record proof_receipt_output =
  pr_entry_hash :: string
  pr_entry_type :: string
  pr_chain_position :: i64
  pr_written_ts_ms :: i64
  pr_entry_id :: uuid
  pr_input_hash :: string
  pr_writer_signature :: "u8 list"
  pr_signer_key_reference :: string
  pr_attestation_report :: "u8 list"
  pr_hash_version :: string

record verify_proof_output =
  vp_valid :: bool
  vp_entry_type :: string
  vp_agent_id :: string
  vp_written_ts_ms :: i64
  vp_chain_position :: i64
  vp_failure_reason :: string
  vp_source_id :: string
  vp_correlation_id :: string
  vp_content_type :: string
  vp_input_hash :: string
  vp_writer_signature :: "u8 list"
  vp_signer_key_reference :: string
  vp_attestation_report :: "u8 list"
  vp_hash_version :: string

record query_entries_input =
  qi_entry_type :: "string option"
  qi_agent_id :: "string option"
  qi_source_id :: "string option"
  qi_correlation_id :: "string option"
  qi_from_ts :: "i64 option"
  qi_to_ts :: "i64 option"
  qi_page_size :: int
  qi_page_token :: "string option"

datatype service_error =
    SvcNotFound
  | InvalidArgument string
  | AlreadyExists string
  | SvcUnavailable
  | Internal string

section \<open>Event publishers\<close>

text \<open>
  \<open>pub_publish P n record\<close> is the answer to the \<open>n\<close>-th publish call: the sink
  is another system and may answer each call differently.
\<close>

record publisher =
  pub_is_enabled :: bool
  pub_publish :: "nat \<Rightarrow> outbox_record \<Rightarrow> string + unit"

definition noop_event_publisher :: publisher where
  "noop_event_publisher =
     \<lparr>pub_is_enabled = False, pub_publish = (\<lambda>_ _. Inl ''event publisher is not configured'')\<rparr>"

record http_request =
  hr_url :: string
  hr_headers :: "(string \<times> string) list"
  hr_body :: string

text \<open>The HTTP client crate: URL parsing, sending (an error or a status), status classes.\<close>

record http_client =
  hc_parse_url :: "string \<Rightarrow> string + string"
  hc_build :: "nat \<Rightarrow> string option"
  hc_send :: "nat \<Rightarrow> http_request \<Rightarrow> string + nat"
  hc_error_for_status :: "nat \<Rightarrow> string option"

record http_event_publisher =
  hp_endpoint :: "string option"
  hp_bearer_token :: "string option"

definition http_publisher_new ::
    "http_client \<Rightarrow> string option \<Rightarrow> string option \<Rightarrow> nat \<Rightarrow> string + http_event_publisher" where
  "http_publisher_new H endpoint bearer_token timeout =
     (case (case endpoint of
              None \<Rightarrow> Inr None
            | Some value \<Rightarrow>
                (case hc_parse_url H (trim value) of
                   Inl err \<Rightarrow> Inl (''invalid outbox HTTP endpoint: '' @ err)
                 | Inr url \<Rightarrow> Inr (Some url))) of
        Inl err \<Rightarrow> Inl err
      | Inr url \<Rightarrow>
          (case hc_build H timeout of
             Some err \<Rightarrow> Inl (''failed to create outbox HTTP client: '' @ err)
           | None \<Rightarrow> Inr \<lparr>hp_endpoint = url, hp_bearer_token = bearer_token\<rparr>))"

definition http_publish_request ::
    "third_party \<Rightarrow> http_event_publisher \<Rightarrow> string \<Rightarrow> outbox_record \<Rightarrow> http_request" where
  "http_publish_request D h endpoint x =
     \<lparr>hr_url = endpoint,
      hr_headers =
        [(''content-type'', ''application/json''),
         (''Idempotency-Key'', uuid_to_string D (ob_outbox_id x)),
         (''X-Ledger-Entry-ID'', uuid_to_string D (ob_entry_id x))]
        @ (case hp_bearer_token h of
             None \<Rightarrow> []
           | Some token \<Rightarrow> [(''authorization'', ''Bearer '' @ token)]),
      hr_body = ob_payload x\<rparr>"

definition http_publish ::
    "third_party \<Rightarrow> http_client \<Rightarrow> http_event_publisher \<Rightarrow> nat \<Rightarrow> outbox_record \<Rightarrow> string + unit" where
  "http_publish D H h n x =
     (case hp_endpoint h of
        None \<Rightarrow> Inl ''event publisher is not configured''
      | Some endpoint \<Rightarrow>
          (case hc_send H n (http_publish_request D h endpoint x) of
             Inl err \<Rightarrow> Inl (''outbox HTTP request failed: '' @ err)
           | Inr status \<Rightarrow>
               (case hc_error_for_status H status of
                  Some err \<Rightarrow> Inl (''outbox HTTP endpoint rejected event: '' @ err)
                | None \<Rightarrow> Inr ())))"

definition http_publisher ::
    "third_party \<Rightarrow> http_client \<Rightarrow> http_event_publisher \<Rightarrow> publisher" where
  "http_publisher D H h =
     \<lparr>pub_is_enabled = (hp_endpoint h \<noteq> None), pub_publish = http_publish D H h\<rparr>"

section \<open>Service state\<close>

record metrics =
  m_write_total :: "string \<Rightarrow> nat"
  m_chain_verify_failure_total :: nat
  m_outbox_publish_failure_total :: nat
  m_chain_integrity_retries :: "nat list"
  m_chain_integrity_valid :: int

record 's service_state =
  ss_repo :: 's
  ss_chain_halted :: "string \<Rightarrow> instant option"
  ss_chain_locks :: "string list"
  ss_metrics :: metrics
  ss_sleeps :: "u64 list"
  ss_publish_log :: "(outbox_record \<times> bool) list"

definition metrics_init :: metrics where
  "metrics_init =
     \<lparr>m_write_total = (\<lambda>_. 0), m_chain_verify_failure_total = 0,
      m_outbox_publish_failure_total = 0, m_chain_integrity_retries = [],
      m_chain_integrity_valid = 0\<rparr>"

definition service_new :: "'s \<Rightarrow> 's service_state" where
  "service_new repo =
     \<lparr>ss_repo = repo, ss_chain_halted = (\<lambda>_. None), ss_chain_locks = [],
      ss_metrics = metrics_init, ss_sleeps = [], ss_publish_log = []\<rparr>"

text \<open>The service starts the outbox processor exactly when the publisher is enabled.\<close>

definition starts_outbox_processor :: "publisher \<Rightarrow> bool" where
  "starts_outbox_processor P = pub_is_enabled P"

definition inc_write :: "string \<Rightarrow> metrics \<Rightarrow> metrics" where
  "inc_write label m = m\<lparr>m_write_total := (m_write_total m)(label := m_write_total m label + 1)\<rparr>"

definition inc_chain_verify_failure :: "metrics \<Rightarrow> metrics" where
  "inc_chain_verify_failure m =
     m\<lparr>m_chain_verify_failure_total := m_chain_verify_failure_total m + 1\<rparr>"

definition on_repo ::
    "('s, 'a) repo_op \<Rightarrow> 's service_state \<Rightarrow> (repository_error + 'a) \<times> 's service_state" where
  "on_repo f st = (case f (ss_repo st) of (r, s') \<Rightarrow> (r, st\<lparr>ss_repo := s'\<rparr>))"

definition sleep :: "u64 \<Rightarrow> 's service_state \<Rightarrow> 's service_state" where
  "sleep ms st = st\<lparr>ss_sleeps := ss_sleeps st @ [ms]\<rparr>"

section \<open>Errors and idempotency\<close>

definition idempotency_conflict_message :: string where
  "idempotency_conflict_message =
     ''idempotency_key already used with different entry content or metadata''"

fun map_repo :: "repository_error \<Rightarrow> service_error" where
  "map_repo NotFound = SvcNotFound"
| "map_repo Unavailable = SvcUnavailable"
| "map_repo IdempotencyConflict = AlreadyExists idempotency_conflict_message"
| "map_repo ChainIntegrityViolation = Internal ''chain integrity violation''"

definition idempotent_request_matches :: "ledger_entry_record \<Rightarrow> write_entry_input \<Rightarrow> bool" where
  "idempotent_request_matches existing input \<longleftrightarrow>
     le_agent_id existing = we_agent_id input
     \<and> le_content existing = we_content input
     \<and> le_content_type existing = we_content_type input
     \<and> le_source_id existing = we_source_id input
     \<and> le_correlation_id existing = we_correlation_id input
     \<and> le_input_hash existing = we_input_hash input
     \<and> le_writer_signature existing = we_writer_signature input
     \<and> le_signer_key_reference existing = we_signer_key_reference input
     \<and> le_attestation_report existing = we_attestation_report input"

definition output_of_entry :: "third_party \<Rightarrow> ledger_entry_record \<Rightarrow> write_entry_output" where
  "output_of_entry D e =
     \<lparr>wo_entry_id = le_entry_id e,
      wo_entry_hash = le_entry_hash e,
      wo_chain_position = le_chain_position e,
      wo_written_ts_ms = timestamp_millis D (le_written_ts e),
      wo_hash_version = le_hash_version e\<rparr>"

section \<open>Writing\<close>

text \<open>
  What one write reads from its surroundings: the monotonic clock when it checks the halt
  table and when it halts a chain, and for each attempt the drawn UUIDs and \<open>Utc::now\<close>.
\<close>

record write_env =
  en_check_time :: instant
  en_halt_time :: instant
  en_draws :: "nat \<Rightarrow> uuid_draws"
  en_now :: "nat \<Rightarrow> datetime"

definition validate_write :: "app_config \<Rightarrow> write_entry_input \<Rightarrow> service_error option" where
  "validate_write cfg input =
     (if we_entry_type input = [] \<or> we_agent_id input = [] \<or> we_content_type input = []
         \<or> we_source_id input = []
      then Some (InvalidArgument ''entry_type, agent_id, content_type and source_id are required'')
      else if length (we_content input) > cfg_max_content_size_bytes cfg
      then Some (InvalidArgument (''content exceeds max '' @
             nat_to_string (cfg_max_content_size_bytes cfg) @ '' bytes''))
      else None)"

text \<open>
  The halt check. Instants are nanoseconds of the monotonic clock and \<open>elapsed\<close>
  saturates at zero. \<open>None\<close>: the write is refused. \<open>Some\<close>: it goes on, with the
  expired halt removed.
\<close>

definition check_halted ::
    "app_config \<Rightarrow> instant \<Rightarrow> string \<Rightarrow> 's service_state \<Rightarrow> 's service_state option" where
  "check_halted cfg now entry_type st =
     (case ss_chain_halted st entry_type of
        None \<Rightarrow> Some st
      | Some halted_at \<Rightarrow>
          if now - halted_at < cfg_chain_halt_recovery_seconds cfg * 1000000000 then None
          else Some (st\<lparr>ss_chain_halted := (ss_chain_halted st)(entry_type := None)\<rparr>))"

definition chain_lock :: "string \<Rightarrow> 's service_state \<Rightarrow> 's service_state" where
  "chain_lock entry_type st =
     (if entry_type \<in> set (ss_chain_locks st) then st
      else st\<lparr>ss_chain_locks := ss_chain_locks st @ [entry_type]\<rparr>)"

definition genesis_hash :: "third_party \<Rightarrow> app_config \<Rightarrow> string" where
  "genesis_hash D cfg = sha256_hex D (as_bytes (cfg_genesis_hash_input cfg))"

definition entry_write_input_of ::
    "publisher \<Rightarrow> write_entry_input \<Rightarrow> string \<Rightarrow> datetime \<Rightarrow> entry_write_input" where
  "entry_write_input_of P input previous_hash written_ts =
     \<lparr>wi_entry_type = we_entry_type input,
      wi_agent_id = we_agent_id input,
      wi_content = we_content input,
      wi_content_type = we_content_type input,
      wi_source_id = we_source_id input,
      wi_correlation_id = we_correlation_id input,
      wi_idempotency_key = we_idempotency_key input,
      wi_input_hash = we_input_hash input,
      wi_writer_signature = we_writer_signature input,
      wi_signer_key_reference = we_signer_key_reference input,
      wi_attestation_report = we_attestation_report input,
      wi_previous_hash = previous_hash,
      wi_written_ts = written_ts,
      wi_create_outbox = pub_is_enabled P\<rparr>"

text \<open>\<open>10 * 2u64.pow(attempt)\<close> milliseconds, wrapping as a release build does.\<close>

definition retry_backoff :: "nat \<Rightarrow> u64" where
  "retry_backoff attempt = 10 * 2 ^ attempt"

definition resolve_conflict ::
    "third_party \<Rightarrow> 's ledger_repository \<Rightarrow> write_entry_input \<Rightarrow> 's service_state \<Rightarrow>
     (service_error + write_entry_output) \<times> 's service_state" where
  "resolve_conflict D R input st =
     (case we_idempotency_key input of
        None \<Rightarrow> (Inl (AlreadyExists idempotency_conflict_message), st)
      | Some key \<Rightarrow>
          (case on_repo (repo_find_idempotent R (we_entry_type input) key) st of
             (Inl err, st') \<Rightarrow> (Inl (map_repo err), st')
           | (Inr None, st') \<Rightarrow> (Inl SvcUnavailable, st')
           | (Inr (Some existing), st') \<Rightarrow>
               if idempotent_request_matches existing input
               then (Inr (output_of_entry D existing), st')
               else (Inl (AlreadyExists idempotency_conflict_message), st')))"

text \<open>The retry loop, from attempt number \<open>attempt\<close> with \<open>remaining\<close> attempts left.\<close>

fun write_attempts ::
    "third_party \<Rightarrow> 's ledger_repository \<Rightarrow> publisher \<Rightarrow> app_config \<Rightarrow> write_env \<Rightarrow>
     write_entry_input \<Rightarrow> nat \<Rightarrow> nat \<Rightarrow> 's service_state \<Rightarrow>
     (service_error + write_entry_output) \<times> 's service_state" where
  "write_attempts D R P cfg env input attempt 0 st =
     (Inl (Internal ''chain integrity violation''), st)"
| "write_attempts D R P cfg env input attempt (Suc remaining) st =
     (case on_repo (repo_get_chain_tip R (we_entry_type input)) st of
        (tip, st1) \<Rightarrow>
          (case (case tip of
                   Inr t \<Rightarrow> Inr (tip_hash t)
                 | Inl NotFound \<Rightarrow> Inr (genesis_hash D cfg)
                 | Inl err \<Rightarrow> Inl (map_repo err)) of
             Inl err \<Rightarrow> (Inl err, st1)
           | Inr previous_hash \<Rightarrow>
               (case on_repo (repo_write_entry_with_outbox R (en_draws env attempt)
                       (entry_write_input_of P input previous_hash (en_now env attempt))) st1 of
                  (Inr result, st2) \<Rightarrow>
                    (Inr (output_of_entry D (wr_entry result)),
                     st2\<lparr>ss_metrics := (ss_metrics st2)
                       \<lparr>m_chain_integrity_retries :=
                          m_chain_integrity_retries (ss_metrics st2) @ [attempt]\<rparr>\<rparr>)
                | (Inl ChainIntegrityViolation, st2) \<Rightarrow>
                    if attempt + 1 < unat (cfg_chain_max_retries cfg)
                    then write_attempts D R P cfg env input (attempt + 1) remaining
                           (sleep (retry_backoff attempt) st2)
                    else (Inl (Internal ''chain integrity violation''),
                          st2\<lparr>ss_chain_halted :=
                            (ss_chain_halted st2)(we_entry_type input \<mapsto> en_halt_time env)\<rparr>)
                | (Inl IdempotencyConflict, st2) \<Rightarrow> resolve_conflict D R input st2
                | (Inl err, st2) \<Rightarrow> (Inl (map_repo err), st2))))"

definition append_under_lock ::
    "third_party \<Rightarrow> 's ledger_repository \<Rightarrow> publisher \<Rightarrow> app_config \<Rightarrow> write_env \<Rightarrow>
     write_entry_input \<Rightarrow> 's service_state \<Rightarrow>
     (service_error + write_entry_output) \<times> 's service_state" where
  "append_under_lock D R P cfg env input st =
     write_attempts D R P cfg env input 0 (unat (cfg_chain_max_retries cfg))
       (chain_lock (we_entry_type input) st)"

definition write_entry_impl ::
    "third_party \<Rightarrow> 's ledger_repository \<Rightarrow> publisher \<Rightarrow> app_config \<Rightarrow> write_env \<Rightarrow>
     write_entry_input \<Rightarrow> 's service_state \<Rightarrow>
     (service_error + write_entry_output) \<times> 's service_state" where
  "write_entry_impl D R P cfg env input st =
     (case validate_write cfg input of
        Some err \<Rightarrow> (Inl err, st)
      | None \<Rightarrow>
          (case check_halted cfg (en_check_time env) (we_entry_type input) st of
             None \<Rightarrow> (Inl SvcUnavailable, st)
           | Some st1 \<Rightarrow>
               (case we_idempotency_key input of
                  None \<Rightarrow> append_under_lock D R P cfg env input st1
                | Some key \<Rightarrow>
                    (case on_repo (repo_find_idempotent R (we_entry_type input) key) st1 of
                       (Inl err, st2) \<Rightarrow> (Inl (map_repo err), st2)
                     | (Inr (Some existing), st2) \<Rightarrow>
                         if \<not> idempotent_request_matches existing input
                         then (Inl (AlreadyExists idempotency_conflict_message), st2)
                         else (Inr (output_of_entry D existing), st2)
                     | (Inr None, st2) \<Rightarrow> append_under_lock D R P cfg env input st2))))"

definition write_label :: "service_error + write_entry_output \<Rightarrow> string" where
  "write_label out =
     (case out of
        Inr _ \<Rightarrow> ''ok''
      | Inl (InvalidArgument _) \<Rightarrow> ''invalid''
      | Inl _ \<Rightarrow> ''error'')"

definition write_entry ::
    "third_party \<Rightarrow> 's ledger_repository \<Rightarrow> publisher \<Rightarrow> app_config \<Rightarrow> write_env \<Rightarrow>
     write_entry_input \<Rightarrow> 's service_state \<Rightarrow>
     (service_error + write_entry_output) \<times> 's service_state" where
  "write_entry D R P cfg env input st =
     (case write_entry_impl D R P cfg env input st of
        (out, st') \<Rightarrow> (out, st'\<lparr>ss_metrics := inc_write (write_label out) (ss_metrics st')\<rparr>))"

section \<open>Reading\<close>

definition map_err_repo :: "(repository_error + 'a) \<times> 't \<Rightarrow> (service_error + 'a) \<times> 't" where
  "map_err_repo x = (case x of (Inl e, st) \<Rightarrow> (Inl (map_repo e), st) | (Inr y, st) \<Rightarrow> (Inr y, st))"

definition get_entry ::
    "'s ledger_repository \<Rightarrow> uuid \<Rightarrow> 's service_state \<Rightarrow>
     (service_error + ledger_entry_record) \<times> 's service_state" where
  "get_entry R entry_id st = map_err_repo (on_repo (repo_get_entry R entry_id) st)"

definition get_distinct_entry_types ::
    "'s ledger_repository \<Rightarrow> 's service_state \<Rightarrow> (service_error + string list) \<times> 's service_state" where
  "get_distinct_entry_types R st = map_err_repo (on_repo (repo_get_distinct_entry_types R) st)"

definition get_chain_tip ::
    "'s ledger_repository \<Rightarrow> string \<Rightarrow> 's service_state \<Rightarrow>
     (service_error + chain_tip) \<times> 's service_state" where
  "get_chain_tip R entry_type st = map_err_repo (on_repo (repo_get_chain_tip R entry_type) st)"

definition get_entry_by_hash ::
    "'s ledger_repository \<Rightarrow> string \<Rightarrow> string \<Rightarrow> 's service_state \<Rightarrow>
     (service_error + ledger_entry_record) \<times> 's service_state" where
  "get_entry_by_hash R entry_type entry_hash st =
     map_err_repo (on_repo (repo_get_entry_by_hash R entry_type entry_hash) st)"

definition effective_page_size :: "int \<Rightarrow> nat" where
  "effective_page_size n = (if n \<le> 0 then 100 else if n > 1000 then 1000 else nat n)"

definition page_offset :: "string option \<Rightarrow> nat" where
  "page_offset token =
     (case token of
        None \<Rightarrow> 0
      | Some raw \<Rightarrow> (case parse_unsigned 64 raw of None \<Rightarrow> 0 | Some n \<Rightarrow> n))"

definition query_entries ::
    "'s ledger_repository \<Rightarrow> query_entries_input \<Rightarrow> 's service_state \<Rightarrow>
     (service_error + (ledger_entry_record list \<times> string option \<times> i64)) \<times> 's service_state" where
  "query_entries R query st =
     (let size = effective_page_size (qi_page_size query);
          offset = page_offset (qi_page_token query)
      in case on_repo (repo_query_entries R
             \<lparr>eq_entry_type_prefix = qi_entry_type query,
              eq_agent_id = qi_agent_id query,
              eq_source_id = qi_source_id query,
              eq_correlation_id = qi_correlation_id query,
              eq_from_ts_ms = qi_from_ts query,
              eq_to_ts_ms = qi_to_ts query,
              eq_limit = size,
              eq_offset = offset\<rparr>) st of
           (Inl err, st') \<Rightarrow> (Inl (map_repo err), st')
         | (Inr result, st') \<Rightarrow>
             let page_entries = qr_entries result;
                 total = qr_total_count result;
                 next_offset = offset + length page_entries;
                 next_token = (if next_offset < i64_as_usize total
                               then Some (nat_to_string next_offset) else None)
             in (Inr (page_entries, next_token, total), st'))"

end
