(* ===== verification/Verification.thy ===== *)
theory Verification
  imports Service
begin

text \<open>
  The verification paths of \<open>src/service/mod.rs\<close>: one entry, a range of a chain read in
  batches of fifty, the recent window of a chain, and the receipts that \<open>issue_receipt\<close>
  hands out and \<open>verify_proof\<close> checks.

  The batch loop of \<open>verify_chain\<close> is a \<open>partial_function\<close> into \<open>option\<close>:
  against an arbitrary repository it may never end, and \<open>None\<close> is not returning. The
  theory \<open>Verification_Correct\<close> shows that it returns on every store.
\<close>

section \<open>One entry\<close>

definition verify_entry ::
    "third_party \<Rightarrow> 's ledger_repository \<Rightarrow> app_config \<Rightarrow> uuid \<Rightarrow> 's service_state \<Rightarrow>
     (service_error + verify_entry_output) \<times> 's service_state" where
  "verify_entry D R cfg entry_id st =
     (case on_repo (repo_get_entry R entry_id) st of
        (Inl err, st1) \<Rightarrow> (Inl (map_repo err), st1)
      | (Inr entry, st1) \<Rightarrow>
          let recomputed = recompute_hash D entry;
              hash_valid = (recomputed = Some (le_entry_hash entry))
          in if recomputed = None
             then (Inr \<lparr>ve_entry_id = entry_id, ve_hash_valid = False,
                        ve_chain_link_valid = False,
                        ve_failure_reason = ''unsupported_hash_version''\<rparr>, st1)
             else
               (case (if le_chain_position entry = 1
                      then (Inr (le_previous_hash entry = genesis_hash D cfg), st1)
                      else
                        (case on_repo (repo_get_entries_by_type_paged R (le_entry_type entry)
                                (le_chain_position entry - 2) 1) st1 of
                           (Inl err, st2) \<Rightarrow> (Inl (map_repo err), st2)
                         | (Inr predecessors, st2) \<Rightarrow>
                             (Inr (case predecessors of
                                     [] \<Rightarrow> False
                                   | prev # _ \<Rightarrow> le_entry_hash prev = le_previous_hash entry), st2))) of
                  (Inl err, st2) \<Rightarrow> (Inl err, st2)
                | (Inr chain_link_valid, st2) \<Rightarrow>
                    (Inr \<lparr>ve_entry_id = entry_id, ve_hash_valid = hash_valid,
                          ve_chain_link_valid = chain_link_valid,
                          ve_failure_reason =
                            (if hash_valid \<and> chain_link_valid then ''''
                             else if \<not> hash_valid then ''entry_hash_mismatch''
                             else ''chain_link_mismatch'')\<rparr>, st2)))"

section \<open>A range of a chain\<close>

definition chain_ok :: "i64 \<Rightarrow> verify_chain_output" where
  "chain_ok n = \<lparr>vc_chain_valid = True, vc_entries_checked = n,
                 vc_first_invalid_entry_id = None, vc_failure_reason = ''''\<rparr>"

definition chain_bad :: "i64 \<Rightarrow> uuid option \<Rightarrow> string \<Rightarrow> verify_chain_output" where
  "chain_bad n i reason = \<lparr>vc_chain_valid = False, vc_entries_checked = n,
                           vc_first_invalid_entry_id = i, vc_failure_reason = reason\<rparr>"

text \<open>
  One batch: an output when the \<open>for\<close> loop returns, with whether it counted a
  verification failure; otherwise the next \<open>prev_hash\<close>, \<open>after_position\<close> and
  \<open>entries_checked\<close>.
\<close>

fun verify_batch ::
    "third_party \<Rightarrow> i64 \<Rightarrow> string \<Rightarrow> i64 \<Rightarrow> i64 \<Rightarrow> ledger_entry_record list \<Rightarrow>
     (verify_chain_output \<times> bool) + (string \<times> i64 \<times> i64)" where
  "verify_batch D end_position prev_hash after_position entries_checked [] =
     Inr (prev_hash, after_position, entries_checked)"
| "verify_batch D end_position prev_hash after_position entries_checked (entry # rest) =
     (if le_chain_position entry > end_position then Inl (chain_ok entries_checked, False)
      else if le_previous_hash entry \<noteq> prev_hash
      then Inl (chain_bad (entries_checked + 1) (Some (le_entry_id entry)) ''chain_link_mismatch'', True)
      else if recompute_hash D entry \<noteq> Some (le_entry_hash entry)
      then Inl (chain_bad (entries_checked + 1) (Some (le_entry_id entry))
                  (if recompute_hash D entry = None then ''unsupported_hash_version''
                   else ''entry_hash_mismatch''), True)
      else verify_batch D end_position (le_entry_hash entry) (le_chain_position entry)
             (entries_checked + 1) rest)"

definition BATCH_SIZE :: i64 where
  "BATCH_SIZE = 50"

definition count_failure :: "bool \<Rightarrow> 's service_state \<Rightarrow> 's service_state" where
  "count_failure failed st =
     (if failed then st\<lparr>ss_metrics := inc_chain_verify_failure (ss_metrics st)\<rparr> else st)"

partial_function (option) verify_chain_loop ::
    "third_party \<Rightarrow> 's ledger_repository \<Rightarrow> string \<Rightarrow> i64 \<Rightarrow> string \<Rightarrow> i64 \<Rightarrow> i64 \<Rightarrow>
     's service_state \<Rightarrow> ((service_error + verify_chain_output) \<times> 's service_state) option" where
  "verify_chain_loop D R entry_type end_position prev_hash after_position entries_checked st =
     (case on_repo (repo_get_entries_by_type_paged R entry_type after_position BATCH_SIZE) st of
        (Inl err, st1) \<Rightarrow> Some (Inl (map_repo err), st1)
      | (Inr batch, st1) \<Rightarrow>
          if batch = [] then Some (Inr (chain_ok entries_checked), st1)
          else
            (case verify_batch D end_position prev_hash after_position entries_checked batch of
               Inl (out, failed) \<Rightarrow> Some (Inr out, count_failure failed st1)
             | Inr (prev_hash', after_position', entries_checked') \<Rightarrow>
                 if int (length batch) < BATCH_SIZE
                 then Some (Inr (chain_ok entries_checked'), st1)
                 else verify_chain_loop D R entry_type end_position prev_hash' after_position'
                        entries_checked' st1))"

text \<open>The position an optional boundary entry gives, or the default.\<close>

definition boundary_position ::
    "'s ledger_repository \<Rightarrow> string \<Rightarrow> string \<Rightarrow> i64 \<Rightarrow> uuid option \<Rightarrow> 's service_state \<Rightarrow>
     (service_error + i64) \<times> 's service_state" where
  "boundary_position R entry_type message default_position boundary st =
     (case boundary of
        None \<Rightarrow> (Inr default_position, st)
      | Some i \<Rightarrow>
          (case on_repo (repo_get_entry R i) st of
             (Inl err, st1) \<Rightarrow> (Inl (map_repo err), st1)
           | (Inr entry, st1) \<Rightarrow>
               if le_entry_type entry \<noteq> entry_type then (Inl (InvalidArgument message), st1)
               else (Inr (le_chain_position entry), st1)))"

definition I64_MAX :: i64 where
  "I64_MAX = 2 ^ 63 - 1"

definition verify_chain ::
    "third_party \<Rightarrow> 's ledger_repository \<Rightarrow> app_config \<Rightarrow> string \<Rightarrow> uuid option \<Rightarrow> uuid option \<Rightarrow>
     's service_state \<Rightarrow> ((service_error + verify_chain_output) \<times> 's service_state) option" where
  "verify_chain D R cfg entry_type start_entry_id end_entry_id st =
     (case boundary_position R entry_type ''start_entry_id does not belong to entry_type'' 1
             start_entry_id st of
        (Inl err, st1) \<Rightarrow> Some (Inl err, st1)
      | (Inr start_position, st1) \<Rightarrow>
          (case boundary_position R entry_type ''end_entry_id does not belong to entry_type'' I64_MAX
                  end_entry_id st1 of
             (Inl err, st2) \<Rightarrow> Some (Inl err, st2)
           | (Inr end_position, st2) \<Rightarrow>
               if start_position > end_position
               then Some (Inl (InvalidArgument ''start_entry_id must not follow end_entry_id''), st2)
               else if start_position = 1
               then verify_chain_loop D R entry_type end_position (genesis_hash D cfg) 0 0 st2
               else
                 (case on_repo (repo_get_entries_by_type_paged R entry_type (start_position - 2) 1) st2 of
                    (Inl err, st3) \<Rightarrow> Some (Inl (map_repo err), st3)
                  | (Inr [], st3) \<Rightarrow> Some (Inr (chain_bad 0 None ''predecessor_not_found''), st3)
                  | (Inr (prev # _), st3) \<Rightarrow>
                      verify_chain_loop D R entry_type end_position (le_entry_hash prev)
                        (start_position - 1) 0 st3)))"

section \<open>The recent window of a chain\<close>

definition verify_recent_chain ::
    "third_party \<Rightarrow> 's ledger_repository \<Rightarrow> app_config \<Rightarrow> string \<Rightarrow> i64 \<Rightarrow>
     's service_state \<Rightarrow> ((service_error + verify_chain_output) \<times> 's service_state) option" where
  "verify_recent_chain D R cfg entry_type max_entries st =
     (if max_entries \<le> 0 then Some (Inl (InvalidArgument ''max_entries must be positive''), st)
      else
        (case on_repo (repo_get_chain_tip R entry_type) st of
           (Inl NotFound, st1) \<Rightarrow> verify_chain D R cfg entry_type None None st1
         | (Inl err, st1) \<Rightarrow> Some (Inl (map_repo err), st1)
         | (Inr tip, st1) \<Rightarrow>
             let start_position = max (tip_position tip - max_entries + 1) 1
             in if start_position = 1
                then verify_chain D R cfg entry_type None (Some (tip_entry_id tip)) st1
                else
                  (case on_repo (repo_get_entries_by_type_paged R entry_type (start_position - 1) 1) st1 of
                     (Inl err, st2) \<Rightarrow> Some (Inl (map_repo err), st2)
                   | (Inr [], st2) \<Rightarrow> Some (Inr (chain_bad 0 None ''window_start_not_found''), st2)
                   | (Inr (entry # _), st2) \<Rightarrow>
                       verify_chain D R cfg entry_type (Some (le_entry_id entry))
                         (Some (tip_entry_id tip)) st2)))"

section \<open>Receipts\<close>

definition issue_receipt ::
    "third_party \<Rightarrow> 's ledger_repository \<Rightarrow> publisher \<Rightarrow> app_config \<Rightarrow> write_env \<Rightarrow>
     write_entry_input \<Rightarrow> 's service_state \<Rightarrow>
     (service_error + proof_receipt_output) \<times> 's service_state" where
  "issue_receipt D R P cfg env input st =
     (case write_entry D R P cfg env input st of
        (Inl err, st') \<Rightarrow> (Inl err, st')
      | (Inr write, st') \<Rightarrow>
          (Inr \<lparr>pr_entry_hash = wo_entry_hash write,
                pr_entry_type = we_entry_type input,
                pr_chain_position = wo_chain_position write,
                pr_written_ts_ms = wo_written_ts_ms write,
                pr_entry_id = wo_entry_id write,
                pr_input_hash = unwrap_or_default (we_input_hash input),
                pr_writer_signature = unwrap_or_default (we_writer_signature input),
                pr_signer_key_reference = unwrap_or_default (we_signer_key_reference input),
                pr_attestation_report = unwrap_or_default (we_attestation_report input),
                pr_hash_version = wo_hash_version write\<rparr>, st'))"

definition verify_proof ::
    "third_party \<Rightarrow> 's ledger_repository \<Rightarrow> string \<Rightarrow> string \<Rightarrow> 's service_state \<Rightarrow>
     (service_error + verify_proof_output) \<times> 's service_state" where
  "verify_proof D R entry_type entry_hash st =
     (case on_repo (repo_get_entry_by_hash R entry_type entry_hash) st of
        (Inl err, st') \<Rightarrow> (Inl (map_repo err), st')
      | (Inr entry, st') \<Rightarrow>
          let computed = recompute_hash D entry;
              hash_valid = (computed = Some (le_entry_hash entry))
          in (Inr \<lparr>vp_valid = hash_valid,
                   vp_entry_type = le_entry_type entry,
                   vp_agent_id = le_agent_id entry,
                   vp_written_ts_ms = timestamp_millis D (le_written_ts entry),
                   vp_chain_position = le_chain_position entry,
                   vp_failure_reason =
                     (if computed = None then ''unsupported_hash_version''
                      else if hash_valid then '''' else ''entry_hash_mismatch''),
                   vp_source_id = le_source_id entry,
                   vp_correlation_id = unwrap_or_default (le_correlation_id entry),
                   vp_content_type = le_content_type entry,
                   vp_input_hash = unwrap_or_default (le_input_hash entry),
                   vp_writer_signature = unwrap_or_default (le_writer_signature entry),
                   vp_signer_key_reference = unwrap_or_default (le_signer_key_reference entry),
                   vp_attestation_report = unwrap_or_default (le_attestation_report entry),
                   vp_hash_version = le_hash_version entry\<rparr>, st'))"

end
