(* ===== verification/Verification_Correct.thy ===== *)
theory Verification_Correct
  imports Verification Chains
begin

text \<open>
  What the verification paths decide. The reference is \<open>audit\<close>, one pass over a list of
  entries; the batched loop is shown equal to it on every store that satisfies the
  \<open>entry_store\<close> interface, tampered rows included, and to return always. \<open>audit\<close> is
  then characterised by links and hashes alone.
\<close>

section \<open>The reference audit\<close>

definition entry_fault :: "third_party \<Rightarrow> string \<Rightarrow> ledger_entry_record \<Rightarrow> string option" where
  "entry_fault D prev e =
     (if le_previous_hash e \<noteq> prev then Some ''chain_link_mismatch''
      else if recompute_hash D e = None then Some ''unsupported_hash_version''
      else if recompute_hash D e \<noteq> Some (le_entry_hash e) then Some ''entry_hash_mismatch''
      else None)"

fun audit ::
    "third_party \<Rightarrow> string \<Rightarrow> i64 \<Rightarrow> ledger_entry_record list \<Rightarrow> verify_chain_output \<times> bool" where
  "audit D prev n [] = (chain_ok n, False)"
| "audit D prev n (e # es) =
     (case entry_fault D prev e of
        Some reason \<Rightarrow> (chain_bad (n + 1) (Some (le_entry_id e)) reason, True)
      | None \<Rightarrow> audit D (le_entry_hash e) (n + 1) es)"

text \<open>A run of entries is intact when its links and its hashes hold.\<close>

definition intact :: "third_party \<Rightarrow> string \<Rightarrow> ledger_entry_record list \<Rightarrow> bool" where
  "intact D prev es \<longleftrightarrow> linked prev es \<and> (\<forall>e \<in> set es. hash_ok D e)"

lemma chain_ok_simps [simp]:
  "vc_chain_valid (chain_ok n)" "vc_entries_checked (chain_ok n) = n"
  "vc_first_invalid_entry_id (chain_ok n) = None" "vc_failure_reason (chain_ok n) = ''''"
  by (simp_all add: chain_ok_def)

lemma chain_bad_simps [simp]:
  "\<not> vc_chain_valid (chain_bad n i r)" "vc_entries_checked (chain_bad n i r) = n"
  "vc_first_invalid_entry_id (chain_bad n i r) = i" "vc_failure_reason (chain_bad n i r) = r"
  by (simp_all add: chain_bad_def)

lemma entry_fault_None: "entry_fault D prev e = None \<longleftrightarrow> le_previous_hash e = prev \<and> hash_ok D e"
  by (auto simp: entry_fault_def hash_ok_def)

lemma intact_simps [chain_simps]:
  "intact D prev []"
  "intact D prev (e # es) \<longleftrightarrow> entry_fault D prev e = None \<and> intact D (le_entry_hash e) es"
  "intact D prev (xs @ ys) \<longleftrightarrow> intact D prev xs \<and> intact D (tip_hash_of prev xs) ys"
  by (auto simp: intact_def entry_fault_None linked_append)

lemma audit_intact: "intact D prev es \<Longrightarrow> audit D prev n es = (chain_ok (n + int (length es)), False)"
  by (induction es arbitrary: prev n) (simp_all add: intact_simps)

lemma audit_fault:
  assumes "intact D prev xs" and "entry_fault D (tip_hash_of prev xs) e = Some reason"
  shows "audit D prev n (xs @ e # ys) =
    (chain_bad (n + int (length xs) + 1) (Some (le_entry_id e)) reason, True)"
  using assms by (induction xs arbitrary: prev n) (simp_all add: intact_simps tip_hash_of_simps)

lemma not_intact_split:
  assumes "\<not> intact D prev es"
  shows "\<exists>xs e ys reason. es = xs @ e # ys \<and> intact D prev xs
    \<and> entry_fault D (tip_hash_of prev xs) e = Some reason"
  using assms
proof (induction es arbitrary: prev)
  case (Cons e es)
  show ?case
  proof (cases "entry_fault D prev e")
    case None
    with Cons obtain xs e' ys reason where "es = xs @ e' # ys" "intact D (le_entry_hash e) xs"
      "entry_fault D (tip_hash_of (le_entry_hash e) xs) e' = Some reason"
      by (metis intact_simps(2))
    with None show ?thesis
      by (intro exI [of _ "e # xs"]) (auto simp: intact_simps tip_hash_of_simps)
  next
    case (Some reason)
    then show ?thesis
      by (intro exI [of _ "[]"] exI [of _ e] exI [of _ es] exI [of _ reason])
        (simp add: intact_simps tip_hash_of_simps)
  qed
qed (simp add: intact_simps)

lemma audit_valid_iff: "vc_chain_valid (fst (audit D prev n es)) \<longleftrightarrow> intact D prev es"
proof (cases "intact D prev es")
  case False
  then obtain xs e ys reason where "es = xs @ e # ys" "intact D prev xs"
    "entry_fault D (tip_hash_of prev xs) e = Some reason"
    using not_intact_split by blast
  with False show ?thesis by (simp add: audit_fault)
qed (simp add: audit_intact)

section \<open>One batch\<close>

definition until :: "i64 \<Rightarrow> ledger_entry_record list \<Rightarrow> ledger_entry_record list" where
  "until b es = filter (\<lambda>e. le_chain_position e \<le> b) es"

definition beyond :: "i64 \<Rightarrow> ledger_entry_record list \<Rightarrow> ledger_entry_record list" where
  "beyond a es = filter (\<lambda>e. le_chain_position e > a) es"

lemma until_simps [simp]: "until b [] = []" "until b (xs @ ys) = until b xs @ until b ys"
  by (simp_all add: until_def)

lemma verify_batch_audit:
  assumes "ascending (xs @ ys)"
  shows "case verify_batch D b prev a n xs of
      Inl (out, failed) \<Rightarrow> audit D prev n (until b (xs @ ys)) = (out, failed)
    | Inr (prev', a', n') \<Rightarrow> audit D prev n (until b (xs @ ys)) = audit D prev' n' (until b ys)
        \<and> (xs \<noteq> [] \<longrightarrow> a' = le_chain_position (last xs)) \<and> (xs = [] \<longrightarrow> a' = a)"
  using assms
proof (induction xs arbitrary: prev a n)
  case (Cons e xs)
  show ?case
  proof (cases "le_chain_position e > b")
    case True
    with Cons.prems have "until b (e # xs @ ys) = []"
      by (auto simp: until_def ascending_Cons filter_empty_conv dest: bspec)
    with True show ?thesis by (simp add: until_def)
  next
    case False
    then have u: "until b (e # zs) = e # until b zs" for zs by (simp add: until_def)
    have "ascending (xs @ ys)" using Cons.prems by (simp add: ascending_Cons)
    note IH = Cons.IH [OF this, where prev = "le_entry_hash e" and a = "le_chain_position e" and n = "n + 1"]
    show ?thesis
    proof (cases "entry_fault D prev e")
      case None
      then have "verify_batch D b prev a n (e # xs) =
          verify_batch D b (le_entry_hash e) (le_chain_position e) (n + 1) xs"
        using False by (simp add: entry_fault_None hash_ok_def)
      with IH None show ?thesis
        by (simp add: u split: sum.splits prod.splits)
    next
      case (Some reason)
      then have "verify_batch D b prev a n (e # xs) =
          Inl (chain_bad (n + 1) (Some (le_entry_id e)) reason, True)"
        using False by (auto simp: entry_fault_def split: if_splits)
      with Some show ?thesis by (simp add: u)
    qed
  qed
qed simp

text \<open>
  The index a start boundary names and the index after an end boundary: the whole chain
  when they are absent.
\<close>

fun starts_at :: "ledger_entry_record list \<Rightarrow> uuid option \<Rightarrow> nat \<Rightarrow> bool" where
  "starts_at es None i \<longleftrightarrow> i = 0"
| "starts_at es (Some u) i \<longleftrightarrow> i < length es \<and> le_entry_id (es ! i) = u"

fun ends_before :: "ledger_entry_record list \<Rightarrow> uuid option \<Rightarrow> nat \<Rightarrow> bool" where
  "ends_before es None j \<longleftrightarrow> j = length es"
| "ends_before es (Some u) j \<longleftrightarrow> 0 < j \<and> j \<le> length es \<and> le_entry_id (es ! (j - 1)) = u"

text \<open>The report on the entries with indices \<open>i\<close> to \<open>j - 1\<close> of a chain.\<close>

definition audit_range ::
    "third_party \<Rightarrow> string \<Rightarrow> ledger_entry_record list \<Rightarrow> nat \<Rightarrow> nat \<Rightarrow> verify_chain_output \<times> bool" where
  "audit_range D genesis es i j =
     audit D (tip_hash_of genesis (take i es)) 0 (take (j - i) (drop i es))"

lemma positions_ok_until:
  assumes "positions_ok es" and "j \<le> length es"
  shows "until (int j) (drop i es) = take (j - i) (drop i es)"
proof -
  have "until (int j) (take (j - i) (drop i es)) = take (j - i) (drop i es)"
    unfolding until_def using assms by (auto simp: filter_id_conv in_set_conv_nth positions_ok_nth)
  moreover have "until (int j) (drop (j - i) (drop i es)) = []"
    unfolding until_def using assms by (auto simp: filter_empty_conv in_set_conv_nth positions_ok_nth)
  ultimately have "until (int j) (take (j - i) (drop i es) @ drop (j - i) (drop i es)) =
      take (j - i) (drop i es)" by (simp only: until_simps append_Nil2)
  then show ?thesis by (simp only: append_take_drop_id)
qed

lemma positions_ok_until_max:
  assumes "positions_ok es" and "int (length es) \<le> b"
  shows "until b (drop i es) = drop i es"
  unfolding until_def using assms by (auto simp: filter_id_conv in_set_conv_nth positions_ok_nth)

text \<open>The report on one entry whose predecessor has hash \<open>prev\<close>, and on a receipt.\<close>

definition entry_report ::
    "third_party \<Rightarrow> string \<Rightarrow> ledger_entry_record \<Rightarrow> verify_entry_output" where
  "entry_report D prev e =
     \<lparr>ve_entry_id = le_entry_id e,
      ve_hash_valid = hash_ok D e,
      ve_chain_link_valid = (recompute_hash D e \<noteq> None \<and> le_previous_hash e = prev),
      ve_failure_reason =
        (if recompute_hash D e = None then ''unsupported_hash_version''
         else if \<not> hash_ok D e then ''entry_hash_mismatch''
         else if le_previous_hash e \<noteq> prev then ''chain_link_mismatch'' else '''')\<rparr>"

definition proof_report :: "third_party \<Rightarrow> ledger_entry_record \<Rightarrow> verify_proof_output" where
  "proof_report D e =
     \<lparr>vp_valid = hash_ok D e, vp_entry_type = le_entry_type e, vp_agent_id = le_agent_id e,
      vp_written_ts_ms = timestamp_millis D (le_written_ts e),
      vp_chain_position = le_chain_position e,
      vp_failure_reason =
        (if recompute_hash D e = None then ''unsupported_hash_version''
         else if hash_ok D e then '''' else ''entry_hash_mismatch''),
      vp_source_id = le_source_id e,
      vp_correlation_id = unwrap_or_default (le_correlation_id e),
      vp_content_type = le_content_type e,
      vp_input_hash = unwrap_or_default (le_input_hash e),
      vp_writer_signature = unwrap_or_default (le_writer_signature e),
      vp_signer_key_reference = unwrap_or_default (le_signer_key_reference e),
      vp_attestation_report = unwrap_or_default (le_attestation_report e),
      vp_hash_version = le_hash_version e\<rparr>"

section \<open>The batched loop\<close>

text \<open>A step that only reads: the ledger and everything outside the repository stay.\<close>

definition reads ::
    "('s \<Rightarrow> bool) \<Rightarrow> ('s \<Rightarrow> ledger) \<Rightarrow> 's service_state \<Rightarrow> 's service_state \<Rightarrow> bool" where
  "reads ok stored st st' \<longleftrightarrow> ok (ss_repo st') \<and> stored (ss_repo st') = stored (ss_repo st)
     \<and> st' = st\<lparr>ss_repo := ss_repo st'\<rparr>"

lemma on_repo_eq: "on_repo f st = (r, st') \<longleftrightarrow>
    f (ss_repo st) = (r, ss_repo st') \<and> st' = st\<lparr>ss_repo := ss_repo st'\<rparr>"
  by (auto simp: on_repo_def split: prod.splits)

lemma reads_refl: "ok (ss_repo st) \<Longrightarrow> reads ok stored st st"
  by (simp add: reads_def)

lemma reads_trans [trans]: "reads ok stored a b \<Longrightarrow> reads ok stored b c \<Longrightarrow> reads ok stored a c"
  by (auto simp: reads_def) (metis (no_types, lifting) service_state.surjective service_state.update_convs(1))

lemma reads_inv: "reads ok stored st st' \<Longrightarrow> ok (ss_repo st')"
  by (simp add: reads_def)

lemma reads_stored: "reads ok stored st st' \<Longrightarrow> stored (ss_repo st') = stored (ss_repo st)"
  by (simp add: reads_def)

text \<open>
  The outcome of a verification that should report \<open>A\<close>: the report (and the failure
  counted), or \<open>Unavailable\<close> where the store can be.
\<close>

definition reports ::
    "('s \<Rightarrow> bool) \<Rightarrow> ('s \<Rightarrow> ledger) \<Rightarrow> bool \<Rightarrow> verify_chain_output \<times> bool \<Rightarrow> 's service_state \<Rightarrow>
     (service_error + verify_chain_output) \<times> 's service_state \<Rightarrow> bool" where
  "reports ok stored reliable A st out \<longleftrightarrow>
     (\<exists>st0. reads ok stored st st0 \<and>
        ((out = (Inl SvcUnavailable, st0) \<and> \<not> reliable)
         \<or> out = (Inr (fst A), count_failure (snd A) st0)))"

lemma reports_reads:
  "reads ok stored st st1 \<Longrightarrow> reports ok stored reliable A st1 out \<Longrightarrow> reports ok stored reliable A st out"
  unfolding reports_def by (blast intro: reads_trans)

lemma reports_unavailable:
  "reads ok stored st st1 \<Longrightarrow> \<not> reliable \<Longrightarrow> reports ok stored reliable A st (Inl SvcUnavailable, st1)"
  unfolding reports_def by blast

lemma reports_output:
  "reads ok stored st st1 \<Longrightarrow> A = (out, failed)
   \<Longrightarrow> reports ok stored reliable A st (Inr out, count_failure failed st1)"
  unfolding reports_def by auto

lemma reports_ok:
  "reads ok stored st st1 \<Longrightarrow> reports ok stored reliable (out, False) st (Inr out, st1)"
  unfolding reports_def by (auto simp: count_failure_def)

text \<open>A verification changes nothing but the failure counter.\<close>

definition observes ::
    "('s \<Rightarrow> bool) \<Rightarrow> ('s \<Rightarrow> ledger) \<Rightarrow> 's service_state \<Rightarrow> 's service_state \<Rightarrow> bool" where
  "observes ok stored st st' \<longleftrightarrow> (\<exists>st0 failed. reads ok stored st st0 \<and> st' = count_failure failed st0)"

lemma reads_observes: "reads ok stored st st' \<Longrightarrow> observes ok stored st st'"
  unfolding observes_def count_failure_def by (metis (full_types))

lemma observes_reads: "reads ok stored st st1 \<Longrightarrow> observes ok stored st1 st' \<Longrightarrow> observes ok stored st st'"
  unfolding observes_def by (blast intro: reads_trans)

context entry_store
begin

abbreviation reads_only where
  "reads_only \<equiv> reads inv stored"

lemma on_repo_paged:
  assumes "inv (ss_repo st)" and "1 \<le> limit" and "limit < 2 ^ 63"
    and "on_repo (repo_get_entries_by_type_paged R t after limit) st = (r, st')"
  shows "reads_only st st'"
    and "answers reliable r (Inr (page (stored (ss_repo st) t) after (nat limit)))"
  using assms paged by (auto simp: on_repo_eq reads_def)

lemma on_repo_get_entry:
  assumes "inv (ss_repo st)" and "on_repo (repo_get_entry R i) st = (r, st')"
  shows "reads_only st st'"
    and "r = Inr e \<Longrightarrow> e \<in> set (stored (ss_repo st) (le_entry_type e)) \<and> le_entry_id e = i"
    and "r = Inl err \<Longrightarrow> (err = NotFound \<and> i \<notin> le_entry_id ` all_entries (stored (ss_repo st)))
      \<or> (err = Unavailable \<and> \<not> reliable)"
  using assms get_entry_law [of "ss_repo st" i r "ss_repo st'"] by (auto simp: on_repo_eq reads_def)

lemma verify_chain_loop_audit:
  assumes "inv (ss_repo st)"
  shows "\<exists>out. verify_chain_loop D R t b prev a n st = Some out
    \<and> reports inv stored reliable (audit D prev n (until b (beyond a (stored (ss_repo st) t)))) st out"
  using assms
proof (induction "length (beyond a (stored (ss_repo st) t))" arbitrary: prev a n st rule: less_induct)
  case less
  define es where "es = beyond a (stored (ss_repo st) t)"
  obtain r1 st1 where q: "on_repo (repo_get_entries_by_type_paged R t a BATCH_SIZE) st = (r1, st1)"
    by (cases "on_repo (repo_get_entries_by_type_paged R t a BATCH_SIZE) st")
  have rd: "reads_only st st1" and ans: "answers reliable r1 (Inr (take 50 es))"
    using on_repo_paged [OF less.prems _ _ q] by (simp_all add: BATCH_SIZE_def page_def es_def beyond_def)
  have asc: "ascending (stored (ss_repo st) t)" using less.prems by (rule stored_ascending)
  show ?case
  proof (cases "r1 = Inl Unavailable \<and> \<not> reliable")
    case True
    with q rd show ?thesis
      by (subst verify_chain_loop.simps) (simp add: reports_unavailable)
  next
    case False
    with ans have r1: "r1 = Inr (take 50 es)" by (auto simp: answers_def)
    have "ascending es" using asc by (simp add: es_def beyond_def ascending_filter)
    then have asc': "ascending (take 50 es @ drop 50 es)" by simp
    note batch = verify_batch_audit [OF asc', where D = D and b = b and prev = prev and a = a and n = n]
    consider (empty) "es = []"
      | (out) out failed where "es \<noteq> []" "verify_batch D b prev a n (take 50 es) = Inl (out, failed)"
      | (more) prev' a' n' where "es \<noteq> []" "verify_batch D b prev a n (take 50 es) = Inr (prev', a', n')"
      by (metis sumE prod_cases3 surj_pair)
    then show ?thesis
    proof cases
      case empty
      with q r1 rd show ?thesis
        by (subst verify_chain_loop.simps) (simp add: es_def [symmetric] until_def reports_ok)
    next
      case out
      with batch have "audit D prev n (until b es) = (out, failed)" by simp
      with out q r1 rd show ?thesis
        by (subst verify_chain_loop.simps) (simp add: es_def [symmetric] reports_output)
    next
      case more
      with batch have A: "audit D prev n (until b es) = audit D prev' n' (until b (drop 50 es))"
        and a': "a' = le_chain_position (last (take 50 es))" by simp_all
      show ?thesis
      proof (cases "length es < 50")
        case True
        with more q r1 rd A show ?thesis
          by (subst verify_chain_loop.simps)
            (simp add: es_def [symmetric] BATCH_SIZE_def until_def reports_ok)
      next
        case False
        have "filter (\<lambda>e. le_chain_position e > a) (stored (ss_repo st) t) = take 50 es @ drop 50 es"
          by (simp add: es_def beyond_def)
        from filter_after_page [OF asc this] more
        have rest: "beyond a' (stored (ss_repo st1) t) = drop 50 es"
          by (simp add: beyond_def a' reads_stored [OF rd])
        have "length (beyond a' (stored (ss_repo st1) t)) < length (beyond a (stored (ss_repo st) t))"
          using False by (simp add: rest es_def [symmetric])
        from less.hyps [OF this reads_inv [OF rd], of prev' n'] obtain out
          where "verify_chain_loop D R t b prev' a' n' st1 = Some out"
            and "reports inv stored reliable (audit D prev n (until b es)) st1 out"
          by (auto simp: rest A)
        with more q r1 False reports_reads [OF rd] show ?thesis
          by (subst verify_chain_loop.simps) (simp add: BATCH_SIZE_def es_def [symmetric])
      qed
    qed
  qed
qed

section \<open>Boundaries\<close>

lemma stored_id_unique:
  assumes "inv s" and "e \<in> set (stored s t)" and "e' \<in> set (stored s t')"
    and "le_entry_id e = le_entry_id e'"
  shows "e = e'"
  using stored_ids [OF assms(1)] assms(2-) by (auto simp: all_entries_def dest: inj_onD)

lemma boundary_cases:
  assumes "inv (ss_repo st)" and "boundary_position R t m d (Some i) st = (r, st1)"
  shows "reads_only st st1"
    and "(r = Inl SvcUnavailable \<and> \<not> reliable)
      \<or> (r = Inl SvcNotFound \<and> i \<notin> le_entry_id ` all_entries (stored (ss_repo st)))
      \<or> (\<exists>t' e. e \<in> set (stored (ss_repo st) t') \<and> le_entry_id e = i \<and>
           r = (if t' = t then Inr (le_chain_position e) else Inl (InvalidArgument m)))"
proof -
  obtain q st' where q: "on_repo (repo_get_entry R i) st = (q, st')"
    by (cases "on_repo (repo_get_entry R i) st")
  note law = on_repo_get_entry [OF assms(1) q]
  show "reads_only st st1"
    using law(1) q assms(2) by (auto simp: boundary_position_def split: sum.splits if_splits)
  show "(r = Inl SvcUnavailable \<and> \<not> reliable)
      \<or> (r = Inl SvcNotFound \<and> i \<notin> le_entry_id ` all_entries (stored (ss_repo st)))
      \<or> (\<exists>t' e. e \<in> set (stored (ss_repo st) t') \<and> le_entry_id e = i \<and>
           r = (if t' = t then Inr (le_chain_position e) else Inl (InvalidArgument m)))"
  proof (cases q)
    case (Inl err)
    with law(3) q assms(2) show ?thesis by (auto simp: boundary_position_def)
  next
    case (Inr e)
    with law(2) q assms(2) show ?thesis
      by (intro disjI2 exI [of _ "le_entry_type e"] exI [of _ e]) (auto simp: boundary_position_def)
  qed
qed

lemma boundary_at:
  assumes "inv (ss_repo st)" and "boundary_position R t m d (Some (le_entry_id e)) st = (r, st1)"
    and "e \<in> set (stored (ss_repo st) t)"
  shows "reads_only st st1"
    and "(r = Inl SvcUnavailable \<and> \<not> reliable) \<or> r = Inr (le_chain_position e)"
proof -
  show "reads_only st st1" using boundary_cases(1) [OF assms(1,2)] .
  have "le_entry_id e \<in> le_entry_id ` all_entries (stored (ss_repo st))"
    using assms(3) by (auto simp: all_entries_def)
  moreover have same: "t' = t \<and> e' = e" if "e' \<in> set (stored (ss_repo st) t')" "le_entry_id e' = le_entry_id e" for t' e'
  proof -
    have "e' = e" using stored_id_unique [OF assms(1) that(1) assms(3) that(2)] .
    with that(1) assms(3) show ?thesis using stored_type [OF assms(1)] by blast
  qed
  ultimately consider "r = Inl SvcUnavailable \<and> \<not> reliable"
    | t' e' where "e' \<in> set (stored (ss_repo st) t')" "le_entry_id e' = le_entry_id e"
      "r = (if t' = t then Inr (le_chain_position e') else Inl (InvalidArgument m))"
    using boundary_cases(2) [OF assms(1,2)] by blast
  then show "(r = Inl SvcUnavailable \<and> \<not> reliable) \<or> r = Inr (le_chain_position e)"
    by cases (use same in auto)
qed

section \<open>Ranges of a chain with contiguous positions\<close>

lemma verify_chain_None_None:
  assumes "inv (ss_repo st)"
  shows "\<exists>out. verify_chain D R cfg t None None st = Some out \<and> reports inv stored reliable
    (audit D (genesis_hash D cfg) 0 (until I64_MAX (beyond 0 (stored (ss_repo st) t)))) st out"
  using verify_chain_loop_audit [OF assms, of D t I64_MAX "genesis_hash D cfg" 0 0]
  by (simp add: verify_chain_def boundary_position_def I64_MAX_def)

lemma verify_chain_from:
  assumes inv: "inv (ss_repo st)" and pos: "positions_ok (stored (ss_repo st) t)"
    and i: "i < length (stored (ss_repo st) t)"
    and start: "boundary_position R t ''start_entry_id does not belong to entry_type'' 1 s_id st
      = (Inr (int i + 1), st1)" "reads_only st st1"
    and fin: "boundary_position R t ''end_entry_id does not belong to entry_type'' I64_MAX e_id st1
      = (Inr b, st2)" "reads_only st1 st2" and "int i + 1 \<le> b"
  shows "\<exists>out. verify_chain D R cfg t s_id e_id st = Some out \<and> reports inv stored reliable
    (audit D (tip_hash_of (genesis_hash D cfg) (take i (stored (ss_repo st) t))) 0
       (until b (drop i (stored (ss_repo st) t)))) st out"
proof -
  let ?es = "stored (ss_repo st) t"
  have rd: "reads_only st st2" using start(2) fin(2) by (rule reads_trans)
  have es: "stored (ss_repo st2) t = ?es" by (simp add: reads_stored [OF rd])
  show ?thesis
  proof (cases "i = 0")
    case True
    have "beyond 0 ?es = ?es"
      using positions_ok_filter [OF pos, of 0] by (simp add: beyond_def)
    with verify_chain_loop_audit [OF reads_inv [OF rd], of D t b "genesis_hash D cfg" 0 0] es True
    obtain out where "verify_chain_loop D R t b (genesis_hash D cfg) 0 0 st2 = Some out"
      "reports inv stored reliable (audit D (genesis_hash D cfg) 0 (until b ?es)) st2 out" by auto
    with start fin assms(8) True reports_reads [OF rd] show ?thesis
      by (simp add: verify_chain_def tip_hash_of_simps)
  next
    case False
    then obtain k where k: "i = Suc k" by (cases i) auto
    obtain q st3 where q: "on_repo (repo_get_entries_by_type_paged R t (int k) 1) st2 = (q, st3)"
      by (cases "on_repo (repo_get_entries_by_type_paged R t (int k) 1) st2")
    have rd3: "reads_only st st3" and ans: "answers reliable q (Inr [?es ! k])"
      using on_repo_paged [OF reads_inv [OF rd] _ _ q] i k reads_trans [OF rd]
      by (auto simp: es page_def positions_ok_filter [OF pos] take_Suc hd_drop_conv_nth)
    have es3: "stored (ss_repo st3) t = ?es" by (simp add: reads_stored [OF rd3])
    have prev: "tip_hash_of g (take (Suc k) ?es) = le_entry_hash (?es ! k)" for g
      using i k by (simp add: tip_hash_of_def take_Suc_conv_app_nth)
    have "beyond (int i) ?es = drop i ?es" by (simp add: beyond_def positions_ok_filter [OF pos])
    with verify_chain_loop_audit [OF reads_inv [OF rd3], of D t b "le_entry_hash (?es ! k)" "int i" 0] es3
    obtain out where "verify_chain_loop D R t b (le_entry_hash (?es ! k)) (int i) 0 st3 = Some out"
      "reports inv stored reliable (audit D (le_entry_hash (?es ! k)) 0 (until b (drop i ?es))) st3 out"
      by auto
    moreover from this(2) have "reports inv stored reliable
        (audit D (le_entry_hash (?es ! k)) 0 (until b (drop i ?es))) st out"
      by (rule reports_reads [OF rd3])
    ultimately show ?thesis
      using start fin assms(8) k q ans rd3
      by (cases "q = Inl Unavailable") (simp_all add: verify_chain_def prev answers_def reports_unavailable)
  qed
qed

lemma start_boundary:
  assumes inv: "inv (ss_repo st)" and pos: "positions_ok (stored (ss_repo st) t)"
    and "starts_at (stored (ss_repo st) t) s_id i" and "boundary_position R t m 1 s_id st = (r, st1)"
  shows "reads_only st st1" and "(r = Inl SvcUnavailable \<and> \<not> reliable) \<or> r = Inr (int i + 1)"
proof -
  let ?es = "stored (ss_repo st) t"
  have "reads_only st st1 \<and> ((r = Inl SvcUnavailable \<and> \<not> reliable) \<or> r = Inr (int i + 1))"
  proof (cases s_id)
    case None
    with assms show ?thesis by (auto simp: boundary_position_def reads_refl)
  next
    case (Some u)
    with assms have i: "i < length ?es" and u: "s_id = Some (le_entry_id (?es ! i))" by auto
    from boundary_at [OF inv assms(4) [unfolded u] nth_mem [OF i]] show ?thesis
      by (simp add: positions_ok_nth [OF pos i])
  qed
  then show "reads_only st st1" and "(r = Inl SvcUnavailable \<and> \<not> reliable) \<or> r = Inr (int i + 1)"
    by auto
qed

lemma end_boundary:
  assumes inv: "inv (ss_repo st)" and pos: "positions_ok (stored (ss_repo st) t)"
    and "ends_before (stored (ss_repo st) t) e_id j" and "boundary_position R t m I64_MAX e_id st = (r, st1)"
  shows "reads_only st st1"
    and "(r = Inl SvcUnavailable \<and> \<not> reliable) \<or> r = Inr (if e_id = None then I64_MAX else int j)"
proof -
  let ?es = "stored (ss_repo st) t"
  have "reads_only st st1 \<and> ((r = Inl SvcUnavailable \<and> \<not> reliable)
      \<or> r = Inr (if e_id = None then I64_MAX else int j))"
  proof (cases e_id)
    case None
    with assms show ?thesis by (auto simp: boundary_position_def reads_refl)
  next
    case (Some u)
    with assms have j: "j - 1 < length ?es" "0 < j" and u: "e_id = Some (le_entry_id (?es ! (j - 1)))" by auto
    have "le_chain_position (?es ! (j - 1)) = int j"
      using positions_ok_nth [OF pos j(1)] j(2) by (simp add: of_nat_diff)
    with boundary_at [OF inv assms(4) [unfolded u] nth_mem [OF j(1)]] u show ?thesis by simp
  qed
  then show "reads_only st st1"
    and "(r = Inl SvcUnavailable \<and> \<not> reliable) \<or> r = Inr (if e_id = None then I64_MAX else int j)"
    by auto
qed

theorem verify_chain_range:
  assumes inv: "inv (ss_repo st)" and es: "stored (ss_repo st) t = es" and pos: "positions_ok es"
    and len: "int (length es) \<le> I64_MAX"
    and i: "starts_at es s_id i" and j: "ends_before es e_id j" and ij: "i < j \<or> es = []"
  shows "\<exists>out. verify_chain D R cfg t s_id e_id st = Some out
    \<and> reports inv stored reliable (audit_range D (genesis_hash D cfg) es i j) st out"
proof (cases "es = []")
  case True
  then have none: "s_id = None" "e_id = None"
    using i j by (cases s_id; cases e_id; simp)+
  from verify_chain_None_None [OF inv, of D cfg t] es True show ?thesis
    by (simp add: none audit_range_def beyond_def tip_hash_of_simps)
next
  case False
  with ij have ij: "i < j" by simp
  have j_len: "j \<le> length es" using j by (cases e_id) auto
  obtain r1 st1 where b1: "boundary_position R t ''start_entry_id does not belong to entry_type'' 1 s_id st
      = (r1, st1)" by fastforce
  note B1 = start_boundary [OF inv pos [folded es] i [folded es] b1]
  have inv1: "inv (ss_repo st1)" and es1: "stored (ss_repo st1) t = es"
    using reads_inv [OF B1(1)] reads_stored [OF B1(1)] es by auto
  obtain r2 st2 where b2: "boundary_position R t ''end_entry_id does not belong to entry_type'' I64_MAX e_id st1
      = (r2, st2)" by fastforce
  note B2 = end_boundary [OF inv1 pos [folded es1] j [folded es1] b2]
  let ?b = "if e_id = None then I64_MAX else int j"
  have until: "until ?b (drop i es) = take (j - i) (drop i es)"
    using j len positions_ok_until [OF pos j_len, of i] positions_ok_until_max [OF pos len, of i]
    by (cases e_id) simp_all
  consider "r1 = Inl SvcUnavailable" "\<not> reliable" | "r1 = Inr (int i + 1)" "r2 = Inl SvcUnavailable" "\<not> reliable"
    | "r1 = Inr (int i + 1)" "r2 = Inr ?b"
    using B1(2) B2(2) by blast
  then show ?thesis
  proof cases
    case 1
    with b1 B1(1) show ?thesis by (simp add: verify_chain_def reports_unavailable)
  next
    case 2
    with b1 b2 reads_trans [OF B1(1) B2(1)] show ?thesis
      by (simp add: verify_chain_def reports_unavailable)
  next
    case 3
    have "i < length (stored (ss_repo st) t)" and "int i + 1 \<le> ?b" using ij j_len len es by auto
    from verify_chain_from [OF inv pos [folded es] this(1) b1 [unfolded 3(1)] B1(1) b2 [unfolded 3(2)] B2(1) this(2)]
    show ?thesis by (simp only: es until audit_range_def)
  qed
qed

section \<open>The recent window, one entry, a receipt\<close>

theorem verify_recent_chain_window:
  assumes inv: "inv (ss_repo st)" and es: "stored (ss_repo st) t = es" and pos: "positions_ok es"
    and len: "int (length es) \<le> I64_MAX" and n: "0 < n"
    and k_def: "k = length es - nat n"
  shows "\<exists>out. verify_recent_chain D R cfg t n st = Some out \<and> reports inv stored reliable
    (audit_range D (genesis_hash D cfg) es k (length es)) st out"
proof -
  obtain r1 st1 where q1: "on_repo (repo_get_chain_tip R t) st = (r1, st1)" by fastforce
  have rd: "reads_only st st1" and law: "case r1 of
      Inr tip \<Rightarrow> es \<noteq> [] \<and> tip_entry_id tip = le_entry_id (last es)
        \<and> tip_position tip = le_chain_position (last es)
    | Inl err \<Rightarrow> (err = NotFound \<and> es = []) \<or> (err = Unavailable \<and> \<not> reliable)"
    using tip_law [OF inv, of t] q1 es by (auto simp: on_repo_eq reads_def)
  have inv1: "inv (ss_repo st1)" and es1: "stored (ss_repo st1) t = es"
    using reads_inv [OF rd] reads_stored [OF rd] es by auto
  have range: "\<exists>out. verify_chain D R cfg t s_id e_id st1 = Some out
      \<and> reports inv stored reliable (audit_range D (genesis_hash D cfg) es i j) st out"
    if "starts_at es s_id i" "ends_before es e_id j" "i < j \<or> es = []" for s_id e_id i j
    using verify_chain_range [OF inv1 es1 pos len that] reports_reads [OF rd] by blast
  consider "r1 = Inl NotFound" "es = []" | "r1 = Inl Unavailable" "\<not> reliable"
    | tip where "r1 = Inr tip" "es \<noteq> []" "tip_entry_id tip = le_entry_id (last es)"
      "tip_position tip = int (length es)"
    using law positions_ok_last [OF pos] by (auto split: sum.splits)
  then show ?thesis
  proof cases
    case 1
    with range [where s_id = None and e_id = None and i = 0 and j = 0] n q1 k_def show ?thesis
      by (auto simp: verify_recent_chain_def)
  next
    case 2
    with q1 n rd show ?thesis by (simp add: verify_recent_chain_def reports_unavailable)
  next
    case 3
    have e: "ends_before es (Some (tip_entry_id tip)) (length es)"
      using 3 by (simp add: last_conv_nth Suc_leI)
    show ?thesis
    proof (cases "k = 0")
      case True
      with n have "max (int (length es) - n + 1) 1 = 1" by (simp add: k_def)
      with 3 True range [where s_id = None and i = 0, OF _ e] n q1 show ?thesis
        by (fastforce simp: verify_recent_chain_def)
    next
      case False
      then have k: "max (int (length es) - n + 1) 1 = int k + 1" "k < length es" using n 3(2) by (auto simp: k_def)
      obtain r2 st2 where q2: "on_repo (repo_get_entries_by_type_paged R t (int k) 1) st1 = (r2, st2)" by fastforce
      have rd2: "reads_only st1 st2" and ans: "answers reliable r2 (Inr [es ! k])"
        using on_repo_paged [OF inv1 _ _ q2] k(2)
        by (auto simp: es1 page_def positions_ok_filter [OF pos] take_Suc hd_drop_conv_nth)
      have "stored (ss_repo st2) t = es" using reads_stored [OF rd2] es1 by simp
      from verify_chain_range [OF reads_inv [OF rd2] this pos len _ e, where i = k
          and s_id = "Some (le_entry_id (es ! k))" and D = D and cfg = cfg] k(2)
      obtain out where out: "verify_chain D R cfg t (Some (le_entry_id (es ! k))) (Some (tip_entry_id tip)) st2 = Some out"
        "reports inv stored reliable (audit_range D (genesis_hash D cfg) es k (length es)) st2 out" by auto
      have rd3: "reads_only st st2" using rd rd2 by (rule reads_trans)
      note reports_reads [OF rd3 out(2)]
      with 3 q1 q2 k(1) n ans out(1) False rd3 show ?thesis
        by (cases "r2 = Inl Unavailable")
          (simp_all add: verify_recent_chain_def answers_def reports_unavailable Let_def)
    qed
  qed
qed

theorem verify_entry_at:
  assumes inv: "inv (ss_repo st)" and es: "stored (ss_repo st) t = es" and pos: "positions_ok es"
    and i: "i < length es" and out: "verify_entry D R cfg (le_entry_id (es ! i)) st = (r, st')"
  shows "reads_only st st' \<and> ((r = Inl SvcUnavailable \<and> \<not> reliable) \<or>
    r = Inr (entry_report D (tip_hash_of (genesis_hash D cfg) (take i es)) (es ! i)))"
proof -
  let ?e = "es ! i"
  have mem: "?e \<in> set (stored (ss_repo st) t)" using i es by simp
  obtain r1 st1 where q1: "on_repo (repo_get_entry R (le_entry_id ?e)) st = (r1, st1)" by fastforce
  note G = on_repo_get_entry [OF inv q1]
  have r1: "(r1 = Inl Unavailable \<and> \<not> reliable) \<or> r1 = Inr ?e"
  proof (cases r1)
    case (Inl err)
    with G(3) mem show ?thesis by (auto simp: all_entries_def)
  next
    case (Inr e)
    with G(2) stored_id_unique [OF inv _ mem] show ?thesis by auto
  qed
  have type: "le_entry_type ?e = t" using stored_type [OF inv mem] .
  have es1: "stored (ss_repo st1) t = es" using reads_stored [OF G(1)] es by simp
  show ?thesis
  proof (cases i)
    case 0
    with r1 q1 G(1) out positions_ok_nth [OF pos i] show ?thesis
      by (auto simp: verify_entry_def entry_report_def hash_ok_def tip_hash_of_simps Let_def split: if_splits)
  next
    case (Suc k)
    obtain r2 st2 where q2: "on_repo (repo_get_entries_by_type_paged R t (int k) 1) st1 = (r2, st2)" by fastforce
    have rd2: "reads_only st1 st2" and ans: "answers reliable r2 (Inr [es ! k])"
      using on_repo_paged [OF reads_inv [OF G(1)] _ _ q2] i Suc
      by (auto simp: es1 page_def positions_ok_filter [OF pos] take_Suc hd_drop_conv_nth)
    have prev: "tip_hash_of g (take i es) = le_entry_hash (es ! k)" for g
      using i Suc by (simp add: tip_hash_of_def take_Suc_conv_app_nth)
    have p: "le_chain_position ?e = int k + 2" using positions_ok_nth [OF pos i] Suc by simp
    show ?thesis
    proof (cases "r1 = Inl Unavailable \<or> recompute_hash D ?e = None")
      case True
      with r1 q1 G(1) out show ?thesis by (auto simp: verify_entry_def entry_report_def hash_ok_def Let_def)
    next
      case False
      with r1 q1 q2 out ans type p reads_trans [OF G(1) rd2] show ?thesis
        by (auto simp: verify_entry_def entry_report_def hash_ok_def prev answers_def Let_def)
    qed
  qed
qed

lemma verify_proof_found:
  assumes inv: "inv (ss_repo st)" and out: "verify_proof D R t h st = (r, st')"
  shows "reads_only st st'"
    and "(r = Inl SvcUnavailable \<and> \<not> reliable)
      \<or> (r = Inl SvcNotFound \<and> h \<notin> le_entry_hash ` set (stored (ss_repo st) t))
      \<or> (\<exists>e \<in> set (stored (ss_repo st) t). le_entry_hash e = h \<and> r = Inr (proof_report D e))"
proof -
  obtain r1 st1 where q: "on_repo (repo_get_entry_by_hash R t h) st = (r1, st1)" by fastforce
  have law: "reads_only st st1" "case r1 of Inr e \<Rightarrow> e \<in> set (stored (ss_repo st) t) \<and> le_entry_hash e = h
      | Inl err \<Rightarrow> (err = NotFound \<and> h \<notin> le_entry_hash ` set (stored (ss_repo st) t)) \<or> (err = Unavailable \<and> \<not> reliable)"
    using by_hash_law [OF inv, of t h] q by (auto simp: on_repo_eq reads_def)
  with q out show "reads_only st st'"
    by (auto simp: verify_proof_def Let_def split: sum.splits)
  from law(2) q out show "(r = Inl SvcUnavailable \<and> \<not> reliable)
      \<or> (r = Inl SvcNotFound \<and> h \<notin> le_entry_hash ` set (stored (ss_repo st) t))
      \<or> (\<exists>e \<in> set (stored (ss_repo st) t). le_entry_hash e = h \<and> r = Inr (proof_report D e))"
    by (auto simp: verify_proof_def proof_report_def hash_ok_def Let_def split: sum.splits)
qed

section \<open>Every verification returns and only reads\<close>

lemma boundary_reads:
  assumes "inv (ss_repo st)" and "boundary_position R t m d b st = (r, st1)"
  shows "reads_only st st1"
  using assms boundary_cases(1) by (cases b) (auto simp: boundary_position_def reads_refl)

lemma verify_chain_loop_returns:
  assumes "inv (ss_repo st)"
  shows "\<exists>r st'. verify_chain_loop D R t b prev a n st = Some (r, st') \<and> observes inv stored st st'"
  using verify_chain_loop_audit [OF assms, of D t b prev a n] unfolding reports_def observes_def
  by (metis (no_types, lifting) count_failure_def)

theorem verify_chain_returns:
  assumes inv: "inv (ss_repo st)"
  shows "\<exists>r st'. verify_chain D R cfg t s_id e_id st = Some (r, st') \<and> observes inv stored st st'"
proof -
  obtain r1 st1 where b1: "boundary_position R t ''start_entry_id does not belong to entry_type'' 1 s_id st
      = (r1, st1)" by fastforce
  note rd1 = boundary_reads [OF inv b1]
  obtain r2 st2 where b2: "boundary_position R t ''end_entry_id does not belong to entry_type'' I64_MAX e_id st1
      = (r2, st2)" by fastforce
  note rd2 = reads_trans [OF rd1 boundary_reads [OF reads_inv [OF rd1] b2]]
  have loop: "\<exists>r st'. verify_chain_loop D R t b prev a n st0 = Some (r, st') \<and> observes inv stored st st'"
    if "reads_only st st0" for b prev a n st0
    using verify_chain_loop_returns [OF reads_inv [OF that], of D t b prev a n] observes_reads [OF that] by blast
  obtain q st3 where q: "on_repo (repo_get_entries_by_type_paged R t (the (case r1 of Inr p \<Rightarrow> Some p | _ \<Rightarrow> None) - 2) 1) st2 = (q, st3)"
    by fastforce
  note rd3 = reads_trans [OF rd2 on_repo_paged(1) [OF reads_inv [OF rd2] _ _ q]]
  show ?thesis
    using b1 b2 q rd1 rd2 rd3 loop [OF rd2] loop [OF rd3]
    by (cases r1; cases r2; cases q; cases "projr q")
      (auto simp: verify_chain_def intro: reads_observes)
qed

theorem verify_recent_chain_returns:
  assumes inv: "inv (ss_repo st)"
  shows "\<exists>r st'. verify_recent_chain D R cfg t n st = Some (r, st') \<and> observes inv stored st st'"
proof -
  obtain r1 st1 where q1: "on_repo (repo_get_chain_tip R t) st = (r1, st1)" by fastforce
  have rd1: "reads_only st st1" using tip_law [OF inv, of t] q1 by (auto simp: on_repo_eq reads_def)
  obtain r2 st2 where q2: "on_repo (repo_get_entries_by_type_paged R t (max (tip_position (projr r1) - n + 1) 1 - 1) 1) st1
      = (r2, st2)" by fastforce
  note rd2 = reads_trans [OF rd1 on_repo_paged(1) [OF reads_inv [OF rd1] _ _ q2]]
  have chain: "\<exists>r st'. verify_chain D R cfg t s_id e_id st0 = Some (r, st') \<and> observes inv stored st st'"
    if "reads_only st st0" for s_id e_id st0
    using verify_chain_returns [OF reads_inv [OF that]] observes_reads [OF that] by blast
  have self: "observes inv stored st st" by (rule reads_observes, rule reads_refl, rule inv)
  show ?thesis
  proof (cases r1)
    case (Inl err)
    with q1 chain [OF rd1] reads_observes [OF rd1] self show ?thesis
      by (cases err) (auto simp: verify_recent_chain_def)
  next
    case (Inr tip)
    with q1 q2 chain [OF rd1] chain [OF rd2] reads_observes [OF rd2] self
    show ?thesis
      by (cases r2; cases "projr r2") (auto simp: verify_recent_chain_def Let_def)
  qed
qed

lemma verify_entry_reads:
  assumes inv: "inv (ss_repo st)" and out: "verify_entry D R cfg i st = (r, st')"
  shows "reads_only st st'"
proof -
  obtain r1 st1 where q1: "on_repo (repo_get_entry R i) st = (r1, st1)" by fastforce
  note rd1 = on_repo_get_entry(1) [OF inv q1]
  let ?e = "projr r1"
  obtain r2 st2 where q2: "on_repo (repo_get_entries_by_type_paged R (le_entry_type ?e) (le_chain_position ?e - 2) 1) st1
      = (r2, st2)" by fastforce
  note rd2 = reads_trans [OF rd1 on_repo_paged(1) [OF reads_inv [OF rd1] _ _ q2]]
  show ?thesis
    using out q1 q2 rd1 rd2
    by (cases r1; cases r2) (auto simp: verify_entry_def Let_def split: if_splits)
qed

end

end
