(* ===== verification/Write_Correct.thy ===== *)
theory Write_Correct
  imports Verification_Correct
begin

text \<open>
  The write path against a \<open>ledger_store\<close>: every outcome of \<open>write_entry\<close> with what
  it did to the ledger and the outbox, the conditions under which a write succeeds, and
  that every chain stays intact from the genesis hash. The retry loop, the halt table and
  the write counter are characterised for arbitrary repositories.
\<close>

section \<open>Outcomes\<close>

text \<open>The repository input of the attempt that follows the tip of the chain.\<close>

definition write_input_at ::
    "third_party \<Rightarrow> publisher \<Rightarrow> app_config \<Rightarrow> write_env \<Rightarrow> write_entry_input \<Rightarrow> ledger \<Rightarrow> nat \<Rightarrow>
     entry_write_input" where
  "write_input_at D P cfg env input L k = entry_write_input_of P input
     (tip_hash_of (genesis_hash D cfg) (L (we_entry_type input))) (en_now env k)"

definition appended ::
    "third_party \<Rightarrow> publisher \<Rightarrow> app_config \<Rightarrow> write_env \<Rightarrow> write_entry_input \<Rightarrow> nat \<Rightarrow>
     ledger \<Rightarrow> outboxes \<Rightarrow> ledger \<Rightarrow> outboxes \<Rightarrow> bool" where
  "appended D P cfg env input k L ob L' ob' \<longleftrightarrow>
     L' = append_entry D L (en_draws env k) (write_input_at D P cfg env input L k)
     \<and> ob' = append_outbox D L ob (en_draws env k) (write_input_at D P cfg env input L k)
     \<and> \<not> key_used (we_idempotency_key input) (L (we_entry_type input))"

text \<open>An earlier entry of the chain holds the idempotency key of the request.\<close>

definition earlier :: "write_entry_input \<Rightarrow> ledger \<Rightarrow> ledger_entry_record \<Rightarrow> bool" where
  "earlier input L e \<longleftrightarrow> e \<in> set (L (we_entry_type input))
     \<and> we_idempotency_key input \<noteq> None \<and> le_idempotency_key e = we_idempotency_key input"

definition replayed ::
    "write_entry_input \<Rightarrow> ledger \<Rightarrow> outboxes \<Rightarrow> ledger \<Rightarrow> outboxes \<Rightarrow> ledger_entry_record \<Rightarrow> bool" where
  "replayed input L ob L' ob' e \<longleftrightarrow>
     L' = L \<and> ob' = ob \<and> earlier input L e \<and> idempotent_request_matches e input"

text \<open>What each result of a write says about the ledger.\<close>

definition attempt_outcome ::
    "third_party \<Rightarrow> publisher \<Rightarrow> app_config \<Rightarrow> write_env \<Rightarrow> write_entry_input \<Rightarrow> bool \<Rightarrow> nat \<Rightarrow>
     ledger \<Rightarrow> outboxes \<Rightarrow> service_error + write_entry_output \<Rightarrow> ledger \<Rightarrow> outboxes \<Rightarrow> bool" where
  "attempt_outcome D P cfg env input reliable k L ob r L' ob' \<longleftrightarrow>
     (case r of
        Inr out \<Rightarrow>
          (appended D P cfg env input k L ob L' ob' \<and>
             out = output_of_entry D (next_entry D L (en_draws env k) (write_input_at D P cfg env input L k)))
          \<or> (\<exists>e. replayed input L ob L' ob' e \<and> out = output_of_entry D e)
      | Inl (AlreadyExists _) \<Rightarrow>
          L' = L \<and> ob' = ob \<and> (\<exists>e. earlier input L e \<and> \<not> idempotent_request_matches e input)
      | Inl SvcUnavailable \<Rightarrow>
          \<not> reliable \<and> ((L' = L \<and> ob' = ob) \<or> appended D P cfg env input k L ob L' ob')
      | Inl _ \<Rightarrow> False)"

definition write_outcome ::
    "third_party \<Rightarrow> publisher \<Rightarrow> app_config \<Rightarrow> write_env \<Rightarrow> write_entry_input \<Rightarrow> bool \<Rightarrow> bool \<Rightarrow>
     ledger \<Rightarrow> outboxes \<Rightarrow> service_error + write_entry_output \<Rightarrow> ledger \<Rightarrow> outboxes \<Rightarrow> bool" where
  "write_outcome D P cfg env input reliable halted L ob r L' ob' \<longleftrightarrow>
     (L' = L \<and> ob' = ob \<and>
        ((\<exists>m. r = Inl (InvalidArgument m) \<and> validate_write cfg input = Some (InvalidArgument m))
         \<or> (r = Inl SvcUnavailable \<and> halted)
         \<or> (\<exists>m. r = Inl (Internal m) \<and> cfg_chain_max_retries cfg = 0)))
     \<or> (validate_write cfg input = None \<and> \<not> halted \<and>
        attempt_outcome D P cfg env input reliable 0 L ob r L' ob')"

text \<open>The surroundings of a write as a store with resolution \<open>clip\<close> keeps them.\<close>

definition clip_env :: "(datetime \<Rightarrow> datetime) \<Rightarrow> write_env \<Rightarrow> write_env" where
  "clip_env clip env = env\<lparr>en_now := (\<lambda>k. clip (en_now env k))\<rparr>"

definition all_storable ::
    "(entry_write_input \<Rightarrow> bool) \<Rightarrow> third_party \<Rightarrow> publisher \<Rightarrow> app_config \<Rightarrow> write_env \<Rightarrow>
     write_entry_input \<Rightarrow> ledger \<Rightarrow> bool" where
  "all_storable storable D P cfg env input L \<longleftrightarrow>
     (\<forall>k. storable (write_input_at D P cfg env input L k))"

definition all_fresh :: "write_env \<Rightarrow> ledger \<Rightarrow> outboxes \<Rightarrow> bool" where
  "all_fresh env L ob \<longleftrightarrow> (\<forall>k. fresh_draws L ob (en_draws env k))"

definition is_halted :: "app_config \<Rightarrow> instant \<Rightarrow> string \<Rightarrow> 's service_state \<Rightarrow> bool" where
  "is_halted cfg now t st \<longleftrightarrow> check_halted cfg now t st = None"

section \<open>Helper facts\<close>

lemma write_input_at_simps [simp]:
  "wi_entry_type (write_input_at D P cfg env input L k) = we_entry_type input"
  "wi_idempotency_key (write_input_at D P cfg env input L k) = we_idempotency_key input"
  "wi_previous_hash (write_input_at D P cfg env input L k) =
     tip_hash_of (genesis_hash D cfg) (L (we_entry_type input))"
  by (simp_all add: write_input_at_def entry_write_input_of_def)

lemma clip_env_simps [simp]:
  "clip_env (\<lambda>ts. ts) env = env" "en_draws (clip_env clip env) = en_draws env"
  "en_check_time (clip_env clip env) = en_check_time env" "en_halt_time (clip_env clip env) = en_halt_time env"
  by (simp_all add: clip_env_def)

lemma clip_input_simps [simp]:
  "wi_entry_type (clip_input clip w) = wi_entry_type w" "wi_create_outbox (clip_input clip w) = wi_create_outbox w"
  "wi_idempotency_key (clip_input clip w) = wi_idempotency_key w"
  "wi_previous_hash (clip_input clip w) = wi_previous_hash w" "clip_input (\<lambda>ts. ts) w = w"
  by (simp_all add: clip_input_def)

lemma clip_write_input_at:
  "clip_input clip (write_input_at D P cfg env input L k) = write_input_at D P cfg (clip_env clip env) input L k"
  by (simp add: clip_input_def write_input_at_def entry_write_input_of_def clip_env_def)

lemma write_input_at_now [simp]: "wi_written_ts (write_input_at D P cfg env input L k) = en_now env k"
  by (simp add: write_input_at_def entry_write_input_of_def)

lemma output_of_clipped:
  assumes "timestamp_millis D (clip (wi_written_ts w)) = timestamp_millis D (wi_written_ts w)"
  shows "output_of_entry D ((next_entry D L d (clip_input clip w))\<lparr>le_written_ts := wi_written_ts w\<rparr>)
    = output_of_entry D (next_entry D L d (clip_input clip w))"
  using assms by (simp add: output_of_entry_def next_entry_def new_entry_def clip_input_def)

lemma link_ok_tip_hash: "g \<noteq> [] \<Longrightarrow> link_ok (tip_hash_of g es) es"
  by (simp add: link_ok_def tip_hash_of_def)

lemma validate_write_error: "validate_write cfg input = Some err \<Longrightarrow> \<exists>m. err = InvalidArgument m"
  by (auto simp: validate_write_def split: if_splits)

lemma check_halted_state:
  "check_halted cfg now t st = Some st' \<Longrightarrow> ss_repo st' = ss_repo st"
  by (auto simp: check_halted_def split: option.splits if_splits)

lemma chain_lock_state [simp]:
  "ss_repo (chain_lock t st) = ss_repo st" "ss_chain_halted (chain_lock t st) = ss_chain_halted st"
  "ss_metrics (chain_lock t st) = ss_metrics st" "ss_sleeps (chain_lock t st) = ss_sleeps st"
  by (simp_all add: chain_lock_def)

lemma find_with_keyD:
  "List.find (with_key key) es = Some e \<Longrightarrow> e \<in> set es \<and> le_idempotency_key e = Some key"
  by (auto simp: find_Some_iff with_key_def)

lemma key_used_found: "key_used (Some key) es \<Longrightarrow> \<exists>e. List.find (with_key key) es = Some e"
  using find_None_iff [of "with_key key" es] by (auto simp: key_used_def list_ex_iff)

lemma attempt_replayed:
  "earlier input L e \<Longrightarrow> idempotent_request_matches e input
   \<Longrightarrow> attempt_outcome D P cfg env input reliable k L ob (Inr (output_of_entry D e)) L ob"
  unfolding attempt_outcome_def sum.case replayed_def by blast

lemma attempt_conflict:
  "earlier input L e \<Longrightarrow> \<not> idempotent_request_matches e input
   \<Longrightarrow> attempt_outcome D P cfg env input reliable k L ob (Inl (AlreadyExists m)) L ob"
  unfolding attempt_outcome_def sum.case service_error.case by blast

lemma attempt_unavailable:
  "\<not> reliable \<Longrightarrow> attempt_outcome D P cfg env input reliable k L ob (Inl SvcUnavailable) L ob"
  by (simp add: attempt_outcome_def)

section \<open>Consequences of an outcome\<close>

definition rooted :: "third_party \<Rightarrow> app_config \<Rightarrow> ledger \<Rightarrow> bool" where
  "rooted D cfg L \<longleftrightarrow> (\<forall>t. intact D (genesis_hash D cfg) (L t))"

text \<open>At most one entry is added, at the end of the chain of the request.\<close>

definition append_only :: "string \<Rightarrow> ledger \<Rightarrow> ledger \<Rightarrow> bool" where
  "append_only t L L' \<longleftrightarrow> (\<forall>t'. t' \<noteq> t \<longrightarrow> L' t' = L t') \<and> (L' t = L t \<or> (\<exists>e. L' t = L t @ [e]))"

lemma outcome_unchanged_or_appended:
  assumes "write_outcome D P cfg env input reliable halted L ob r L' ob'"
  shows "(L' = L \<and> ob' = ob) \<or> appended D P cfg env input 0 L ob L' ob'"
  using assms unfolding write_outcome_def attempt_outcome_def replayed_def
  by (auto split: sum.splits service_error.splits)

lemma outcome_append_only:
  assumes "write_outcome D P cfg env input reliable halted L ob r L' ob'"
  shows "append_only (we_entry_type input) L L'"
  using outcome_unchanged_or_appended [OF assms]
  by (auto simp: append_only_def appended_def append_entry_apply)

lemma outcome_rooted:
  assumes "write_outcome D P cfg env input reliable halted L ob r L' ob'" and "rooted D cfg L"
  shows "rooted D cfg L'"
  using outcome_unchanged_or_appended [OF assms(1)] assms(2)
  by (auto simp: rooted_def appended_def append_entry_apply intact_simps entry_fault_None)

lemma earlier_key_used: "earlier input L e \<Longrightarrow> key_used (we_idempotency_key input) (L (we_entry_type input))"
  by (auto simp: earlier_def key_used_def list_ex_iff with_key_def)

lemma outcome_success:
  assumes "write_outcome D P cfg env input True halted L ob r L' ob'" and "validate_write cfg input = None"
    and "\<not> halted" and "cfg_chain_max_retries cfg \<noteq> 0"
    and "\<not> key_used (we_idempotency_key input) (L (we_entry_type input))"
  shows "appended D P cfg env input 0 L ob L' ob' \<and> r = Inr (output_of_entry D
    (next_entry D L (en_draws env 0) (write_input_at D P cfg env input L 0)))"
  using assms earlier_key_used unfolding write_outcome_def attempt_outcome_def replayed_def
  by (auto split: sum.splits service_error.splits)

lemma idempotent_matches_new: "idempotent_request_matches (next_entry D L d (write_input_at D P cfg env input L k)) input"
  by (simp add: idempotent_request_matches_def next_entry_def write_input_at_def entry_write_input_of_def)

text \<open>A successful write with a key leaves the answer to its repetition in the ledger.\<close>

lemma outcome_recorded:
  assumes "write_outcome D P cfg env input reliable halted L ob (Inr out) L' ob'"
    and "we_idempotency_key input \<noteq> None"
  shows "\<exists>e. earlier input L' e \<and> idempotent_request_matches e input \<and> out = output_of_entry D e"
proof -
  let ?e = "next_entry D L (en_draws env 0) (write_input_at D P cfg env input L 0)"
  have "earlier input L' ?e" if "appended D P cfg env input 0 L ob L' ob'"
    using that assms(2) by (auto simp: appended_def earlier_def append_entry_apply Let_def)
  then show ?thesis
    using assms(1) idempotent_matches_new [of D L "en_draws env 0" P cfg env input 0]
    unfolding write_outcome_def attempt_outcome_def replayed_def by auto
qed

lemma outcome_repeated:
  assumes "write_outcome D P cfg env input True halted L ob r L' ob'" and inv: "ledger_inv D L"
    and "earlier input L e" and "idempotent_request_matches e input"
    and "validate_write cfg input = None" and "\<not> halted" and "cfg_chain_max_retries cfg \<noteq> 0"
  shows "r = Inr (output_of_entry D e) \<and> L' = L \<and> ob' = ob"
proof -
  have unique: "e' = e" if "earlier input L e'" for e'
    using that assms(3) inv unfolding earlier_def ledger_inv_def by metis
  have "\<not> appended D P cfg env input 0 L ob L' ob'"
    using earlier_key_used [OF assms(3)] by (auto simp: appended_def Let_def)
  moreover have "\<nexists>e'. earlier input L e' \<and> \<not> idempotent_request_matches e' input"
    using unique assms(4) by blast
  moreover have "e' = e" if "replayed input L ob L' ob' e'" for e'
    using that unique by (simp add: replayed_def)
  moreover have "attempt_outcome D P cfg env input True 0 L ob r L' ob'"
    using assms(1,5-) by (auto simp: write_outcome_def)
  ultimately show ?thesis
    by (fastforce simp: attempt_outcome_def replayed_def split: sum.splits service_error.splits)
qed

lemma outcome_rejected:
  assumes "write_outcome D P cfg env input True halted L ob r L' ob'" and inv: "ledger_inv D L"
    and "earlier input L e" and "\<not> idempotent_request_matches e input"
    and "validate_write cfg input = None" and "\<not> halted" and "cfg_chain_max_retries cfg \<noteq> 0"
  shows "(\<exists>m. r = Inl (AlreadyExists m)) \<and> L' = L \<and> ob' = ob"
proof -
  have unique: "e' = e" if "earlier input L e'" for e'
    using that assms(3) inv unfolding earlier_def ledger_inv_def by metis
  have "\<not> appended D P cfg env input 0 L ob L' ob'"
    using earlier_key_used [OF assms(3)] by (auto simp: appended_def)
  moreover have "\<not> replayed input L ob L' ob' e'" for e'
    using unique assms(4) by (auto simp: replayed_def)
  moreover have "attempt_outcome D P cfg env input True 0 L ob r L' ob'"
    using assms(1,5-) by (auto simp: write_outcome_def)
  ultimately show ?thesis
    by (auto simp: attempt_outcome_def split: sum.splits service_error.splits)
qed

text \<open>On a reliable store a request that gets past the checks is refused only for its key.\<close>

definition conflicting :: "write_entry_input \<Rightarrow> ledger \<Rightarrow> bool" where
  "conflicting input L \<longleftrightarrow>
     list_ex (\<lambda>e. we_idempotency_key input \<noteq> None \<and> le_idempotency_key e = we_idempotency_key input
       \<and> \<not> idempotent_request_matches e input) (L (we_entry_type input))"

lemma conflicting_iff: "conflicting input L \<longleftrightarrow> (\<exists>e. earlier input L e \<and> \<not> idempotent_request_matches e input)"
  by (auto simp: conflicting_def earlier_def list_ex_iff)

lemma outcome_accepted_iff:
  assumes W: "write_outcome D P cfg env input True halted L ob r L' ob'" and inv: "ledger_inv D L"
    and go: "validate_write cfg input = None" "\<not> halted" "cfg_chain_max_retries cfg \<noteq> 0"
  shows "if conflicting input L then (\<exists>m. r = Inl (AlreadyExists m)) \<and> L' = L \<and> ob' = ob else \<exists>out. r = Inr out"
proof (cases "conflicting input L")
  case True
  then obtain e where "earlier input L e" "\<not> idempotent_request_matches e input" by (auto simp: conflicting_iff)
  from outcome_rejected [OF W inv this go] True show ?thesis by simp
next
  case False
  moreover have "attempt_outcome D P cfg env input True 0 L ob r L' ob'"
    using W go by (auto simp: write_outcome_def)
  ultimately show ?thesis
    by (auto simp: attempt_outcome_def conflicting_iff split: sum.splits service_error.splits)
qed

section \<open>One write\<close>

context ledger_store
begin

lemma on_repo_tip:
  assumes "inv (ss_repo st)" and "on_repo (repo_get_chain_tip R t) st = (r, st')"
  shows "inv (ss_repo st')" and "stored (ss_repo st') = stored (ss_repo st)"
    and "outbox (ss_repo st') = outbox (ss_repo st)"
    and "answers reliable r (if stored (ss_repo st) t = [] then Inl NotFound
      else Inr (entry_chain_tip (last (stored (ss_repo st) t))))"
  using assms tip_law [of "ss_repo st" t r "ss_repo st'"] tip_exact [of "ss_repo st" t r "ss_repo st'"]
  by (auto simp: on_repo_eq)

lemma on_repo_find:
  assumes "inv (ss_repo st)" and "on_repo (repo_find_idempotent R t key) st = (r, st')"
  shows "inv (ss_repo st')" and "stored (ss_repo st') = stored (ss_repo st)"
    and "outbox (ss_repo st') = outbox (ss_repo st)"
    and "answers reliable r (Inr (List.find (with_key key) (stored (ss_repo st) t)))"
  using assms idempotent_law [of "ss_repo st" t key r "ss_repo st'"] by (auto simp: on_repo_eq)

lemma on_repo_write:
  assumes "inv (ss_repo st)" and "fresh_draws (stored (ss_repo st)) (outbox (ss_repo st)) d" and "storable w"
    and "on_repo (repo_write_entry_with_outbox R d w) st = (r, st')"
  shows "inv (ss_repo st')" and "write_spec D clip reliable d w (stored (ss_repo st)) (outbox (ss_repo st)) r
    (stored (ss_repo st')) (outbox (ss_repo st'))"
  using assms write_law [of "ss_repo st" d w r "ss_repo st'"] by (auto simp: on_repo_eq)

lemma resolve_conflict_outcome:
  assumes inv: "inv (ss_repo st)" and key: "key_used (we_idempotency_key input) (stored (ss_repo st) (we_entry_type input))"
    and out: "resolve_conflict D R input st = (r, st')"
  shows "inv (ss_repo st')"
    and "attempt_outcome D P cfg (clip_env clip env) input reliable k (stored (ss_repo st)) (outbox (ss_repo st)) r
      (stored (ss_repo st')) (outbox (ss_repo st'))"
proof -
  from key obtain key where k: "we_idempotency_key input = Some key" by (auto simp: key_used_def)
  with key obtain e where e: "List.find (with_key key) (stored (ss_repo st) (we_entry_type input)) = Some e"
    using key_used_found by metis
  obtain q st1 where q: "on_repo (repo_find_idempotent R (we_entry_type input) key) st = (q, st1)" by fastforce
  note F = on_repo_find [OF inv q]
  have E: "earlier input (stored (ss_repo st)) e"
    using find_with_keyD [OF e] k by (simp add: earlier_def)
  show "inv (ss_repo st')"
    using F(1) out k q by (auto simp: resolve_conflict_def split: sum.splits option.splits if_splits)
  show "attempt_outcome D P cfg (clip_env clip env) input reliable k (stored (ss_repo st)) (outbox (ss_repo st)) r
      (stored (ss_repo st')) (outbox (ss_repo st'))"
    using F(2-) out k q e E
    by (auto simp: resolve_conflict_def answers_def attempt_replayed attempt_conflict
        attempt_unavailable split: if_splits)
qed

lemma write_attempts_outcome:
  assumes inv: "inv (ss_repo st)" and fresh: "all_fresh env (stored (ss_repo st)) (outbox (ss_repo st))"
    and keep: "all_storable storable D P cfg env input (stored (ss_repo st))"
    and g: "genesis_hash D cfg \<noteq> []"
    and out: "write_attempts D R P cfg env input k (Suc n) st = (r, st')"
  shows "inv (ss_repo st') \<and> attempt_outcome D P cfg (clip_env clip env) input reliable k
    (stored (ss_repo st)) (outbox (ss_repo st)) r (stored (ss_repo st')) (outbox (ss_repo st'))"
proof -
  let ?L = "stored (ss_repo st)" and ?ob = "outbox (ss_repo st)"
  let ?es = "?L (we_entry_type input)" and ?w = "write_input_at D P cfg env input ?L k"
  obtain q1 st1 where q1: "on_repo (repo_get_chain_tip R (we_entry_type input)) st = (q1, st1)" by fastforce
  note T = on_repo_tip [OF inv q1]
  show ?thesis
  proof (cases "q1 = Inl Unavailable")
    case True
    with T out q1 show ?thesis
      by (auto simp: answers_def attempt_unavailable split: if_splits)
  next
    case False
    with T(4) have prev: "(case q1 of Inr t \<Rightarrow> Inr (tip_hash t) | Inl NotFound \<Rightarrow> Inr (genesis_hash D cfg)
        | Inl err \<Rightarrow> Inl (map_repo err)) = Inr (wi_previous_hash ?w)"
      by (auto simp: answers_def tip_hash_of_def entry_chain_tip_def split: if_splits)
    obtain q2 st2 where q2: "on_repo (repo_write_entry_with_outbox R (en_draws env k) ?w) st1 = (q2, st2)" by fastforce
    have new: "fresh_draws (stored (ss_repo st1)) (outbox (ss_repo st1)) (en_draws env k)"
      using fresh T(2,3) by (simp add: all_fresh_def)
    have wok: "storable ?w" using keep by (simp add: all_storable_def)
    note W = on_repo_write [OF T(1) new wok q2, unfolded T(2,3)]
    have w: "entry_write_input_of P input (wi_previous_hash ?w) (en_now env k) = ?w"
      by (simp add: write_input_at_def entry_write_input_of_def)
    note step = out [unfolded write_attempts.simps q1 prod.case prev sum.case w q2]
    show ?thesis
    proof (cases q2)
      case (Inr res)
      with W(2) have "appended D P cfg (clip_env clip env) input k ?L ?ob (stored (ss_repo st2)) (outbox (ss_repo st2))"
        and "output_of_entry D (wr_entry res) = output_of_entry D
          (next_entry D ?L (en_draws env k) (write_input_at D P cfg (clip_env clip env) input ?L k))"
        using output_of_clipped [where clip = clip, OF storable_millis [OF wok], of ?L "en_draws env k"]
        by (simp_all add: write_spec_def Let_def appended_def clip_write_input_at)
      with step Inr W(1) show ?thesis by (auto simp: attempt_outcome_def)
    next
      case (Inl err)
      show ?thesis
      proof (cases err)
        case IdempotencyConflict
        with W(2) Inl have same: "stored (ss_repo st2) = ?L" "outbox (ss_repo st2) = ?ob"
          and key: "key_used (we_idempotency_key input) (stored (ss_repo st2) (we_entry_type input))"
          by (auto simp: write_spec_def Let_def)
        have "resolve_conflict D R input st2 = (r, st')" using step Inl IdempotencyConflict by simp
        from resolve_conflict_outcome [OF W(1) key this] show ?thesis unfolding same by blast
      next
        case ChainIntegrityViolation
        with W(2) Inl link_ok_tip_hash [OF g, of ?es] show ?thesis by (simp add: write_spec_def Let_def)
      next
        case NotFound
        with W(2) Inl show ?thesis by (simp add: write_spec_def Let_def)
      next
        case Unavailable
        with step Inl have "r = Inl SvcUnavailable" "st' = st2" by auto
        with W Inl Unavailable show ?thesis
          by (auto simp: attempt_outcome_def write_spec_def Let_def appended_def clip_write_input_at)
      qed
    qed
  qed
qed

lemma append_under_lock_outcome:
  assumes inv: "inv (ss_repo st)" and fresh: "all_fresh env (stored (ss_repo st)) (outbox (ss_repo st))"
    and keep: "all_storable storable D P cfg env input (stored (ss_repo st))"
    and g: "genesis_hash D cfg \<noteq> []"
    and v: "validate_write cfg input = None" and h: "\<not> halted"
    and out: "append_under_lock D R P cfg env input st = (r, st')"
  shows "inv (ss_repo st') \<and> write_outcome D P cfg (clip_env clip env) input reliable halted
    (stored (ss_repo st)) (outbox (ss_repo st)) r (stored (ss_repo st')) (outbox (ss_repo st'))"
proof (cases "unat (cfg_chain_max_retries cfg)")
  case 0
  with out inv show ?thesis
    by (auto simp: append_under_lock_def write_outcome_def unat_eq_0)
next
  case (Suc n)
  with write_attempts_outcome [of "chain_lock (we_entry_type input) st" env P cfg input 0 n r st'] assms
  show ?thesis by (auto simp: append_under_lock_def write_outcome_def)
qed

lemma write_entry_impl_outcome:
  assumes inv: "inv (ss_repo st)" and fresh: "all_fresh env (stored (ss_repo st)) (outbox (ss_repo st))"
    and keep: "all_storable storable D P cfg env input (stored (ss_repo st))"
    and g: "genesis_hash D cfg \<noteq> []"
    and out: "write_entry_impl D R P cfg env input st = (r, st')"
  shows "inv (ss_repo st') \<and> write_outcome D P cfg (clip_env clip env) input reliable
    (is_halted cfg (en_check_time env) (we_entry_type input) st)
    (stored (ss_repo st)) (outbox (ss_repo st)) r (stored (ss_repo st')) (outbox (ss_repo st'))"
proof -
  let ?h = "is_halted cfg (en_check_time env) (we_entry_type input) st"
  consider (invalid) err where "validate_write cfg input = Some err"
    | (halt) "validate_write cfg input = None" "check_halted cfg (en_check_time env) (we_entry_type input) st = None"
    | (go) st1 where "validate_write cfg input = None"
        "check_halted cfg (en_check_time env) (we_entry_type input) st = Some st1"
    by (meson not_None_eq)
  then show ?thesis
  proof cases
    case invalid
    with validate_write_error [OF this] out inv show ?thesis
      by (auto simp: write_entry_impl_def write_outcome_def)
  next
    case halt
    with out inv show ?thesis by (auto simp: write_entry_impl_def write_outcome_def is_halted_def)
  next
    case go
    note s1 = check_halted_state [OF go(2)]
    have nh: "\<not> ?h" using go(2) by (simp add: is_halted_def)
    show ?thesis
    proof (cases "we_idempotency_key input")
      case None
      with go out have "append_under_lock D R P cfg env input st1 = (r, st')" by (simp add: write_entry_impl_def)
      with append_under_lock_outcome [of st1, OF _ _ _ g go(1) nh this] inv fresh keep show ?thesis by (simp add: s1)
    next
      case (Some key)
      have inv1: "inv (ss_repo st1)" using inv s1 by simp
      obtain q st2 where q: "on_repo (repo_find_idempotent R (we_entry_type input) key) st1 = (q, st2)" by fastforce
      note F = on_repo_find [OF inv1 q, unfolded s1]
      consider "q = Inl Unavailable" "\<not> reliable" | "q = Inr None"
        | e where "q = Inr (Some e)" "List.find (with_key key) (stored (ss_repo st) (we_entry_type input)) = Some e"
        using F(4) by (cases "List.find (with_key key) (stored (ss_repo st) (we_entry_type input))")
          (auto simp: answers_def)
      then show ?thesis
      proof cases
        case 1
        with out go Some q F nh show ?thesis
          by (auto simp: write_entry_impl_def write_outcome_def attempt_unavailable)
      next
        case 2
        with out go Some q have "append_under_lock D R P cfg env input st2 = (r, st')"
          by (simp add: write_entry_impl_def)
        with append_under_lock_outcome [OF F(1) _ _ g go(1) nh this] fresh keep show ?thesis by (simp add: F(2,3))
      next
        case 3
        have "earlier input (stored (ss_repo st)) e"
          using find_with_keyD [OF 3(2)] Some by (simp add: earlier_def)
        with out go Some q 3 F nh show ?thesis
          by (auto simp: write_entry_impl_def write_outcome_def attempt_replayed attempt_conflict split: if_splits)
      qed
    qed
  qed
qed

theorem write_entry_outcome:
  assumes "inv (ss_repo st)" and "all_fresh env (stored (ss_repo st)) (outbox (ss_repo st))"
    and "all_storable storable D P cfg env input (stored (ss_repo st))"
    and "genesis_hash D cfg \<noteq> []"
    and "write_entry D R P cfg env input st = (r, st')"
  shows "inv (ss_repo st') \<and> write_outcome D P cfg (clip_env clip env) input reliable
    (is_halted cfg (en_check_time env) (we_entry_type input) st)
    (stored (ss_repo st)) (outbox (ss_repo st)) r (stored (ss_repo st')) (outbox (ss_repo st'))"
  using write_entry_impl_outcome [OF assms(1-4)] assms(5)
  by (auto simp: write_entry_def split: prod.splits)

end

section \<open>Retries and halting, for any repository\<close>

text \<open>
  What a write may do outside the repository: sleep an exponential series shorter than the
  retry limit, and halt its own chain, which it does only when it reports the violation.
\<close>

definition write_frame ::
    "app_config \<Rightarrow> write_env \<Rightarrow> string \<Rightarrow> nat \<Rightarrow> nat \<Rightarrow> service_error + write_entry_output \<Rightarrow>
     's service_state \<Rightarrow> 's service_state \<Rightarrow> bool" where
  "write_frame cfg env t a n r st st' \<longleftrightarrow>
     (\<exists>k. k \<le> n - 1 \<and> ss_sleeps st' = ss_sleeps st @ map retry_backoff [a..<a + k])
     \<and> m_write_total (ss_metrics st') = m_write_total (ss_metrics st)
     \<and> ss_publish_log st' = ss_publish_log st
     \<and> (ss_chain_halted st' = ss_chain_halted st
        \<or> ss_chain_halted st' = (ss_chain_halted st)(t \<mapsto> en_halt_time env)
          \<and> r = Inl (Internal ''chain integrity violation''))"

lemma on_repo_frame:
  assumes "on_repo f st = (q, st')"
  shows "ss_sleeps st' = ss_sleeps st" "ss_metrics st' = ss_metrics st"
    "ss_publish_log st' = ss_publish_log st" "ss_chain_halted st' = ss_chain_halted st"
    "ss_chain_locks st' = ss_chain_locks st"
  using assms by (auto simp: on_repo_def split: prod.splits)

lemma resolve_conflict_frame:
  assumes "resolve_conflict D R input st = (r, st')"
  shows "ss_sleeps st' = ss_sleeps st \<and> ss_metrics st' = ss_metrics st
    \<and> ss_publish_log st' = ss_publish_log st \<and> ss_chain_halted st' = ss_chain_halted st"
  using assms
  by (auto simp: resolve_conflict_def dest: on_repo_frame
      split: option.splits prod.splits sum.splits if_splits)

lemma write_frame_same:
  assumes "ss_sleeps st' = ss_sleeps st" and "m_write_total (ss_metrics st') = m_write_total (ss_metrics st)"
    and "ss_publish_log st' = ss_publish_log st" and "ss_chain_halted st' = ss_chain_halted st"
  shows "write_frame cfg env t a n r st st'"
  unfolding write_frame_def using assms by (auto intro: exI [of _ 0])

lemma write_frame_retry:
  assumes "write_frame cfg env t (Suc a) n r (sleep (retry_backoff a) st2) st'" and "0 < n"
    and "ss_sleeps st2 = ss_sleeps st" and "ss_metrics st2 = ss_metrics st"
    and "ss_publish_log st2 = ss_publish_log st" and "ss_chain_halted st2 = ss_chain_halted st"
  shows "write_frame cfg env t a (Suc n) r st st'"
proof -
  from assms(1) obtain k where k: "k \<le> n - 1" "ss_sleeps st' =
      ss_sleeps st @ retry_backoff a # map retry_backoff [Suc a..<Suc a + k]"
    unfolding write_frame_def sleep_def using assms(3) by auto
  then have "ss_sleeps st' = ss_sleeps st @ map retry_backoff [a..<a + Suc k]"
    by (simp add: upt_conv_Cons del: upt_Suc)
  moreover have "Suc k \<le> Suc n - 1" using k(1) assms(2) by simp
  ultimately show ?thesis
    using assms unfolding write_frame_def sleep_def by (auto simp del: upt_Suc)
qed

lemma write_attempts_frame:
  assumes "write_attempts D R P cfg env input a n st = (r, st')"
    and "a + n = unat (cfg_chain_max_retries cfg)"
  shows "write_frame cfg env (we_entry_type input) a n r st st'"
  using assms
proof (induction n arbitrary: a st)
  case 0
  then show ?case by (simp add: write_frame_same)
next
  case (Suc n)
  obtain q1 st1 where q1: "on_repo (repo_get_chain_tip R (we_entry_type input)) st = (q1, st1)" by fastforce
  note F1 = on_repo_frame [OF q1]
  let ?prev = "case q1 of Inr t \<Rightarrow> Inr (tip_hash t) | Inl NotFound \<Rightarrow> Inr (genesis_hash D cfg)
    | Inl err \<Rightarrow> Inl (map_repo err)"
  show ?case
  proof (cases ?prev)
    case (Inl err)
    with Suc.prems(1) q1 F1 show ?thesis by (auto intro!: write_frame_same)
  next
    case (Inr prev)
    obtain q2 st2 where q2: "on_repo (repo_write_entry_with_outbox R (en_draws env a)
        (entry_write_input_of P input prev (en_now env a))) st1 = (q2, st2)" by fastforce
    note F2 = on_repo_frame [OF q2, unfolded F1]
    note step = Suc.prems(1) [unfolded write_attempts.simps q1 prod.case Inr sum.case q2]
    show ?thesis
    proof (cases "q2 = Inl ChainIntegrityViolation")
      case True
      show ?thesis
      proof (cases n)
        case 0
        with step True F2 Suc.prems(2) show ?thesis
          by (auto simp: write_frame_def intro: exI [of _ 0])
      next
        case (Suc m)
        with step True Suc.prems(2) have "write_attempts D R P cfg env input (Suc a) n
            (sleep (retry_backoff a) st2) = (r, st')" by simp
        from write_frame_retry [OF Suc.IH [OF this]] Suc.prems(2) F2 Suc show ?thesis by simp
      qed
    next
      case False
      with step F2 show ?thesis
        by (auto intro!: write_frame_same dest: resolve_conflict_frame
            split: sum.splits repository_error.splits)
    qed
  qed
qed

text \<open>Only the repository never accepting an append makes a write use all its retries.\<close>

definition always_conflicts :: "'s ledger_repository \<Rightarrow> string \<Rightarrow> bool" where
  "always_conflicts R t \<longleftrightarrow>
     (\<forall>s. \<exists>tip. repo_get_chain_tip R t s = (Inr tip, s))
     \<and> (\<forall>d w s. wi_entry_type w = t \<longrightarrow>
          repo_write_entry_with_outbox R d w s = (Inl ChainIntegrityViolation, s))"

lemma entry_write_input_of_type [simp]:
  "wi_entry_type (entry_write_input_of P input prev ts) = we_entry_type input"
  by (simp add: entry_write_input_of_def)

lemma write_attempts_exhausted:
  assumes "always_conflicts R (we_entry_type input)" and "a + Suc n = unat (cfg_chain_max_retries cfg)"
  shows "write_attempts D R P cfg env input a (Suc n) st =
    (Inl (Internal ''chain integrity violation''),
     st\<lparr>ss_sleeps := ss_sleeps st @ map retry_backoff [a..<a + n],
        ss_chain_halted := (ss_chain_halted st)(we_entry_type input \<mapsto> en_halt_time env)\<rparr>)"
  using assms(2)
proof (induction n arbitrary: a st)
  case 0
  obtain tip where "repo_get_chain_tip R (we_entry_type input) (ss_repo st) = (Inr tip, ss_repo st)"
    using assms(1) unfolding always_conflicts_def by blast
  with assms(1) 0 show ?case by (simp add: always_conflicts_def on_repo_def fun_upd_def)
next
  case (Suc n)
  obtain tip where "repo_get_chain_tip R (we_entry_type input) (ss_repo st) = (Inr tip, ss_repo st)"
    using assms(1) unfolding always_conflicts_def by blast
  with assms(1) Suc.prems have "write_attempts D R P cfg env input a (Suc (Suc n)) st =
      write_attempts D R P cfg env input (Suc a) (Suc n) (sleep (retry_backoff a) st)"
    by (simp add: always_conflicts_def on_repo_def)
  also have "\<dots> = (Inl (Internal ''chain integrity violation''), (sleep (retry_backoff a) st)
      \<lparr>ss_sleeps := ss_sleeps (sleep (retry_backoff a) st) @ map retry_backoff [Suc a..<Suc a + n],
       ss_chain_halted := (ss_chain_halted (sleep (retry_backoff a) st))
         (we_entry_type input \<mapsto> en_halt_time env)\<rparr>)"
    using Suc.prems by (intro Suc.IH) simp
  finally show ?case by (simp add: sleep_def upt_conv_Cons fun_upd_def del: upt_Suc)
qed

lemma unat_word_of_nat_u64: "m < 2 ^ 64 \<Longrightarrow> unat (word_of_nat m :: u64) = m"
  by (simp add: unsigned_of_nat take_bit_nat_eq_self)

lemma retry_backoff_exact:
  assumes "a \<le> 60" shows "unat (retry_backoff a) = 10 * 2 ^ a"
proof -
  have "(2 :: nat) ^ a \<le> 2 ^ 60" using assms by (rule power_increasing) simp
  then have "10 * 2 ^ a < (2 :: nat) ^ 64" by simp
  from unat_word_of_nat_u64 [OF this] show ?thesis by (simp add: retry_backoff_def)
qed

section \<open>What any write may do outside the repository\<close>

lemma check_halted_frame:
  assumes "check_halted cfg now t st = Some st'"
  shows "ss_sleeps st' = ss_sleeps st" "ss_metrics st' = ss_metrics st" "ss_repo st' = ss_repo st"
    "ss_publish_log st' = ss_publish_log st" "t' \<noteq> t \<Longrightarrow> ss_chain_halted st' t' = ss_chain_halted st t'"
  using assms by (auto simp: check_halted_def split: option.splits if_splits)

text \<open>
  Sleeps form the exponential series of at most the configured retries less one, the write
  counters and the publish log stay, and only the halt entry of the chain may change.
\<close>

definition impl_frame :: "app_config \<Rightarrow> string \<Rightarrow> 's service_state \<Rightarrow> 's service_state \<Rightarrow> bool" where
  "impl_frame cfg t st st' \<longleftrightarrow>
     (\<exists>k. k \<le> unat (cfg_chain_max_retries cfg) - 1 \<and>
        ss_sleeps st' = ss_sleeps st @ map retry_backoff [0..<k])
     \<and> m_write_total (ss_metrics st') = m_write_total (ss_metrics st)
     \<and> ss_publish_log st' = ss_publish_log st
     \<and> (\<forall>t'. t' \<noteq> t \<longrightarrow> ss_chain_halted st' t' = ss_chain_halted st t')"

lemma append_under_lock_frame:
  assumes "append_under_lock D R P cfg env input st = (r, st')"
  shows "impl_frame cfg (we_entry_type input) st st'"
proof -
  have "ss_publish_log (chain_lock t st) = ss_publish_log st" for t by (simp add: chain_lock_def)
  then show ?thesis
    using write_attempts_frame [OF assms [unfolded append_under_lock_def]]
    by (auto simp: impl_frame_def write_frame_def)
qed

lemma impl_frame_same:
  assumes "ss_sleeps st1 = ss_sleeps st" and "ss_metrics st1 = ss_metrics st"
    and "ss_publish_log st1 = ss_publish_log st"
    and "\<And>t'. t' \<noteq> t \<Longrightarrow> ss_chain_halted st1 t' = ss_chain_halted st t'"
  shows "impl_frame cfg t st st1" and "impl_frame cfg t st1 st' \<Longrightarrow> impl_frame cfg t st st'"
  using assms by (auto simp: impl_frame_def intro: exI [of _ 0])

lemma write_entry_impl_frame:
  assumes "write_entry_impl D R P cfg env input st = (r, st')"
  shows "impl_frame cfg (we_entry_type input) st st'"
proof -
  let ?t = "we_entry_type input"
  have refl: "impl_frame cfg ?t st st" by (rule impl_frame_same) simp_all
  show ?thesis
  proof (cases "validate_write cfg input")
    case (Some err)
    with assms refl show ?thesis by (simp add: write_entry_impl_def)
  next
    case None
    show ?thesis
    proof (cases "check_halted cfg (en_check_time env) ?t st")
      case (Some st1)
      note F1 = check_halted_frame [OF Some]
      note go1 = impl_frame_same [OF F1(1,2,4,5)]
      show ?thesis
      proof (cases "we_idempotency_key input")
        case None
        with assms Some \<open>validate_write cfg input = None\<close> show ?thesis
          by (auto simp: write_entry_impl_def intro: go1(2) append_under_lock_frame)
      next
        case (Some key)
        obtain q st2 where q: "on_repo (repo_find_idempotent R ?t key) st1 = (q, st2)" by fastforce
        note F2 = on_repo_frame [OF q]
        have go2: "impl_frame cfg ?t st st2"
          by (rule impl_frame_same) (simp_all add: F1 F2)
        have go3: "impl_frame cfg ?t st2 st3 \<Longrightarrow> impl_frame cfg ?t st st3" for st3
          by (rule impl_frame_same(2) [where ?st1.0 = st2]) (simp_all add: F1 F2)
        from go2 assms Some q \<open>validate_write cfg input = None\<close>
          \<open>check_halted cfg (en_check_time env) ?t st = Some st1\<close> show ?thesis
          by (auto simp: write_entry_impl_def intro: go3 append_under_lock_frame
              split: sum.splits option.splits if_splits)
      qed
    qed (use assms refl \<open>validate_write cfg input = None\<close> in \<open>simp add: write_entry_impl_def\<close>)
  qed
qed

text \<open>A write that succeeds halts nothing.\<close>

lemma write_attempts_keeps_halts:
  "write_attempts D R P cfg env input a n st = (Inr out, st') \<Longrightarrow> a + n = unat (cfg_chain_max_retries cfg)
   \<Longrightarrow> ss_chain_halted st' = ss_chain_halted st"
  using write_attempts_frame [of D R P cfg env input a n st "Inr out" st'] by (auto simp: write_frame_def)

lemma write_entry_keeps_unhalted:
  assumes "write_entry D R P cfg env input st = (Inr out, st')" and "ss_chain_halted st t = None"
  shows "ss_chain_halted st' t = None"
proof -
  have lock: "append_under_lock D R P cfg env input st1 = (Inr out, st2) \<Longrightarrow>
      ss_chain_halted st2 = ss_chain_halted st1" for st1 st2
    using write_attempts_keeps_halts [of D R P cfg env input 0] by (fastforce simp: append_under_lock_def)
  from assms(1) obtain st0 where impl: "write_entry_impl D R P cfg env input st = (Inr out, st0)"
    and same: "ss_chain_halted st' = ss_chain_halted st0"
    by (auto simp: write_entry_def split: prod.splits)
  obtain st1 where c: "check_halted cfg (en_check_time env) (we_entry_type input) st = Some st1"
    using impl by (cases "check_halted cfg (en_check_time env) (we_entry_type input) st")
      (auto simp: write_entry_impl_def split: option.splits)
  have "ss_chain_halted st1 t = None"
    using c assms(2) by (auto simp: check_halted_def split: option.splits if_splits)
  moreover have "ss_chain_halted st0 = ss_chain_halted st1"
    using impl c
    by (auto simp: write_entry_impl_def dest!: lock on_repo_frame(4)
        split: option.splits prod.splits sum.splits if_splits)
  ultimately show ?thesis using same by simp
qed

end
