(* ===== verification/Query.thy ===== *)
theory Query
  imports Write_Correct
begin

text \<open>
  Pagination: what one call of \<open>query_entries\<close> returns over the \<open>query_store\<close>
  interface, and that a client that follows the page tokens reads every matching entry
  exactly once and in order.
\<close>

definition query_of :: "query_entries_input \<Rightarrow> entry_query" where
  "query_of q =
     \<lparr>eq_entry_type_prefix = qi_entry_type q, eq_agent_id = qi_agent_id q,
      eq_source_id = qi_source_id q, eq_correlation_id = qi_correlation_id q,
      eq_from_ts_ms = qi_from_ts q, eq_to_ts_ms = qi_to_ts q,
      eq_limit = effective_page_size (qi_page_size q), eq_offset = page_offset (qi_page_token q)\<rparr>"

text \<open>The page and the next token a view of the matching entries gives.\<close>

definition page_of :: "query_entries_input \<Rightarrow> ledger_entry_record list \<Rightarrow> ledger_entry_record list" where
  "page_of q xs = take (effective_page_size (qi_page_size q)) (drop (page_offset (qi_page_token q)) xs)"

definition next_token_of :: "query_entries_input \<Rightarrow> ledger_entry_record list \<Rightarrow> string option" where
  "next_token_of q xs =
     (let n = page_offset (qi_page_token q) + length (page_of q xs)
      in if n < length xs then Some (nat_to_string n) else None)"

text \<open>A client that asks for pages until there is no next token, at most \<open>fuel\<close> times.\<close>

fun all_pages ::
    "'s ledger_repository \<Rightarrow> query_entries_input \<Rightarrow> nat \<Rightarrow> 's service_state \<Rightarrow>
     (service_error + ledger_entry_record list) option" where
  "all_pages R q 0 st = None"
| "all_pages R q (Suc fuel) st =
     (case query_entries R q st of
        (Inl e, st') \<Rightarrow> Some (Inl e)
      | (Inr (es, None, _), st') \<Rightarrow> Some (Inr es)
      | (Inr (es, Some token, _), st') \<Rightarrow>
          (case all_pages R (q\<lparr>qi_page_token := Some token\<rparr>) fuel st' of
             None \<Rightarrow> None
           | Some (Inl e) \<Rightarrow> Some (Inl e)
           | Some (Inr rest) \<Rightarrow> Some (Inr (es @ rest))))"

lemma effective_page_size_bounds: "1 \<le> effective_page_size n \<and> effective_page_size n \<le> 1000"
  by (auto simp: effective_page_size_def)

lemma page_offset_token: "n < 2 ^ 64 \<Longrightarrow> page_offset (Some (nat_to_string n)) = n"
  by (simp add: page_offset_def parse_unsigned_nat_to_string)

lemma page_offset_bound: "page_offset token < 2 ^ 64"
  by (auto simp: page_offset_def dest: parse_unsigned_bound split: option.splits)

context query_store
begin

lemma view_token: "view s (query_of (q\<lparr>qi_page_token := t\<rparr>)) = view s (query_of q)"
  using view_filters [where s = s and q = "query_of q" and l = "eq_limit (query_of (q\<lparr>qi_page_token := t\<rparr>))"
      and k = "eq_offset (query_of (q\<lparr>qi_page_token := t\<rparr>))"]
  by (simp add: query_of_def)

lemma query_entries_page:
  assumes "inv (ss_repo st)" and "int (length (view (ss_repo st) (query_of q))) < 2 ^ 63"
    and "query_entries R q st = (r, st')"
  shows "inv (ss_repo st')" and "view (ss_repo st') = view (ss_repo st)"
    and "(r = Inl SvcUnavailable \<and> \<not> reliable) \<or>
      r = Inr (page_of q (view (ss_repo st) (query_of q)), next_token_of q (view (ss_repo st) (query_of q)),
        int (length (view (ss_repo st) (query_of q))))"
proof -
  obtain x s' where q: "repo_query_entries R (query_of q) (ss_repo st) = (x, s')" by fastforce
  note law = query_law [OF assms(1) q]
  note run = assms(3) [unfolded query_entries_def Let_def query_of_def [symmetric] on_repo_def q prod.case]
  have lim: "eq_limit (query_of q) = effective_page_size (qi_page_size q)"
    "eq_offset (query_of q) = page_offset (qi_page_token q)" by (simp_all add: query_of_def)
  have usize: "i64_as_usize (int (length (view (ss_repo st) (query_of q)))) = length (view (ss_repo st) (query_of q))"
    using assms(2) by (simp add: i64_as_usize_pos)
  show "inv (ss_repo st')" "view (ss_repo st') = view (ss_repo st)"
    using run law by (auto split: sum.splits)
  show "(r = Inl SvcUnavailable \<and> \<not> reliable) \<or>
      r = Inr (page_of q (view (ss_repo st) (query_of q)), next_token_of q (view (ss_repo st) (query_of q)),
        int (length (view (ss_repo st) (query_of q))))"
    using run law usize
    by (auto simp: answers_def page_of_def next_token_of_def lim Let_def)
qed

theorem all_pages_view:
  assumes "inv (ss_repo st)" and rel: reliable and len: "int (length (view (ss_repo st) (query_of q))) < 2 ^ 63"
    and "length (view (ss_repo st) (query_of q)) - page_offset (qi_page_token q) < fuel"
  shows "all_pages R q fuel st = Some (Inr (drop (page_offset (qi_page_token q)) (view (ss_repo st) (query_of q))))"
  using assms
proof (induction fuel arbitrary: q st)
  case (Suc fuel)
  let ?xs = "view (ss_repo st) (query_of q)" and ?off = "page_offset (qi_page_token q)"
  let ?n = "?off + length (page_of q ?xs)"
  obtain r st' where run: "query_entries R q st = (r, st')" by fastforce
  note Q = query_entries_page [OF Suc.prems(1,3) run]
  have r: "r = Inr (page_of q ?xs, next_token_of q ?xs, int (length ?xs))" using Q(3) rel by simp
  show ?case
  proof (cases "?n < length ?xs")
    case False
    then have "page_of q ?xs = drop ?off ?xs" by (auto simp: page_of_def min_def split: if_splits)
    with False run r show ?thesis by (simp add: next_token_of_def)
  next
    case True
    then have page: "length (page_of q ?xs) = effective_page_size (qi_page_size q)"
      by (auto simp: page_of_def min_def split: if_splits)
    let ?q = "q\<lparr>qi_page_token := Some (nat_to_string ?n)\<rparr>"
    have n: "?n < 2 ^ 64" using True Suc.prems(3) by simp
    have same: "view (ss_repo st') (query_of ?q) = ?xs" by (simp add: view_token Q(2))
    have off: "page_offset (qi_page_token ?q) = ?n" using page_offset_token [OF n] by simp
    have "length ?xs - ?n < fuel"
      using Suc.prems(4) True page effective_page_size_bounds [of "qi_page_size q"] by linarith
    then have "all_pages R ?q fuel st' = Some (Inr (drop ?n ?xs))"
      using Suc.IH [OF Q(1) rel, of ?q] Suc.prems(3) by (simp add: same page_offset_token [OF n])
    moreover have "page_of q ?xs @ drop ?n ?xs = drop ?off ?xs"
      using append_take_drop_id [of "effective_page_size (qi_page_size q)" "drop ?off ?xs"]
      unfolding page by (simp add: page_of_def add.commute)
    ultimately show ?thesis using run r True by (simp add: next_token_of_def)
  qed
qed simp

end

end
