(* ===== verification/Outbox.thy ===== *)
theory Outbox
  imports Verification_Correct
begin

text \<open>
  The outbox processor of \<open>src/service/mod.rs\<close>: \<open>publish_one\<close> and one pass of the loop
  that \<open>start_outbox_processor\<close> spawns. The loop never ends, so the processor is the
  iteration of \<open>outbox_iteration\<close>. The second half shows, over the \<open>outbox_store\<close>
  interface, what a pass does to every event and that every event is settled after a
  bounded number of passes.

  Attempt counts are non-negative (they start at 0 and only grow), as the cast
  \<open>next_attempt.min(10) as u32\<close> needs.
\<close>

section \<open>Publishing\<close>

definition log_publish :: "outbox_record \<Rightarrow> bool \<Rightarrow> 's service_state \<Rightarrow> 's service_state" where
  "log_publish x ok st = st\<lparr>ss_publish_log := ss_publish_log st @ [(x, ok)]\<rparr>"

definition publish_backoff :: "int \<Rightarrow> u64" where
  "publish_backoff next_attempt = 500 * 2 ^ nat (min next_attempt 10)"

definition publish_one ::
    "publisher \<Rightarrow> 's ledger_repository \<Rightarrow> u32 \<Rightarrow> outbox_record \<Rightarrow> 's service_state \<Rightarrow>
     (service_error + unit) \<times> 's service_state" where
  "publish_one P R max_retries x st =
     (case pub_publish P (length (ss_publish_log st)) x of
        Inr _ \<Rightarrow>
          (case on_repo (repo_mark_outbox_delivered R (ob_outbox_id x)) (log_publish x True st) of
             (Inl err, st1) \<Rightarrow> (Inl (map_repo err), st1)
           | (Inr _, st1) \<Rightarrow> (Inr (), st1))
      | Inl err \<Rightarrow>
          (case on_repo (repo_increment_outbox_attempt R (ob_outbox_id x)) (log_publish x False st) of
             (_, st1) \<Rightarrow>
               let next_attempt = ob_attempt_count x + 1
               in if next_attempt \<ge> sint max_retries
                  then (case on_repo (repo_mark_outbox_failed R (ob_outbox_id x)) st1 of
                          (_, st2) \<Rightarrow> (Inl (Internal err), st2))
                  else (Inl (Internal err), sleep (publish_backoff next_attempt) st1)))"

definition inc_publish_failure :: "'s service_state \<Rightarrow> 's service_state" where
  "inc_publish_failure st = st\<lparr>ss_metrics := (ss_metrics st)
     \<lparr>m_outbox_publish_failure_total := m_outbox_publish_failure_total (ss_metrics st) + 1\<rparr>\<rparr>"

definition process_record ::
    "publisher \<Rightarrow> 's ledger_repository \<Rightarrow> u32 \<Rightarrow> outbox_record \<Rightarrow> 's service_state \<Rightarrow> 's service_state" where
  "process_record P R max_retries x st =
     (case publish_one P R max_retries x st of
        (Inl _, st1) \<Rightarrow> inc_publish_failure st1
      | (Inr _, st1) \<Rightarrow> st1)"

definition outbox_iteration ::
    "publisher \<Rightarrow> 's ledger_repository \<Rightarrow> app_config \<Rightarrow> 's service_state \<Rightarrow> 's service_state" where
  "outbox_iteration P R cfg st =
     (case on_repo (repo_pending_outbox R) st of
        (Inl _, st1) \<Rightarrow> sleep 500 st1
      | (Inr pending, st1) \<Rightarrow>
          sleep 500 (fold (process_record P R (cfg_outbox_max_retries cfg)) pending st1))"

section \<open>What a pass promises\<close>

text \<open>The record after a publish call with the given answer.\<close>

definition next_record :: "u32 \<Rightarrow> bool \<Rightarrow> outbox_record \<Rightarrow> outbox_record" where
  "next_record max_retries ok x =
     (if ok then x\<lparr>ob_status := Delivered\<rparr>
      else if ob_attempt_count x + 1 \<ge> sint max_retries
      then x\<lparr>ob_attempt_count := ob_attempt_count x + 1, ob_status := Failed\<rparr>
      else x\<lparr>ob_attempt_count := ob_attempt_count x + 1\<rparr>)"

fun publish_outcomes :: "publisher \<Rightarrow> nat \<Rightarrow> outbox_record list \<Rightarrow> (outbox_record \<times> bool) list" where
  "publish_outcomes P n [] = []"
| "publish_outcomes P n (x # xs) = (x, \<not> isl (pub_publish P n x)) # publish_outcomes P (Suc n) xs"

fun settle :: "u32 \<Rightarrow> outboxes \<Rightarrow> (outbox_record \<times> bool) list \<Rightarrow> outboxes" where
  "settle max_retries ob [] = ob"
| "settle max_retries ob ((x, ok) # xs) =
     settle max_retries (ob(ob_outbox_id x \<mapsto> next_record max_retries ok x)) xs"

lemma next_record_id [simp]: "ob_outbox_id (next_record m ok x) = ob_outbox_id x"
  by (simp add: next_record_def)

lemma map_fst_outcomes [simp]: "map fst (publish_outcomes P n xs) = xs"
  by (induction xs arbitrary: n) auto

lemma settle_other: "i \<notin> ob_outbox_id ` fst ` set xs \<Longrightarrow> settle m ob xs i = ob i"
  by (induction m ob xs rule: settle.induct) auto

lemma settle_member:
  "distinct (map (ob_outbox_id \<circ> fst) xs) \<Longrightarrow> (x, ok) \<in> set xs
   \<Longrightarrow> settle m ob xs (ob_outbox_id x) = Some (next_record m ok x)"
  by (induction m ob xs rule: settle.induct) (auto simp: settle_other image_image)

text \<open>An event is marked delivered only after a publish call for it succeeded.\<close>

definition delivered_logged :: "outboxes \<Rightarrow> (outbox_record \<times> bool) list \<Rightarrow> bool" where
  "delivered_logged ob log \<longleftrightarrow> (\<forall>i x. ob i = Some x \<longrightarrow> ob_status x = Delivered \<longrightarrow>
     (\<exists>y. (y, True) \<in> set log \<and> ob_outbox_id y = i))"

lemma delivered_logged_update:
  assumes "delivered_logged ob log" and "ob_status y = Delivered \<Longrightarrow> ok"
  shows "delivered_logged (ob(ob_outbox_id x \<mapsto> y)) (log @ [(x, ok)])"
  using assms by (auto simp: delivered_logged_def)

text \<open>
  The books of a processor that is alone on a repository that does not fail: an event has
  been accepted once if it is delivered and otherwise never, its counter is the number of
  refused calls, and it was given up only at the limit. No other event was ever published.
\<close>

definition calls_for :: "(outbox_record \<times> bool) list \<Rightarrow> bool \<Rightarrow> uuid \<Rightarrow> nat" where
  "calls_for log ok i = length (filter (\<lambda>(y, b). ob_outbox_id y = i \<and> b = ok) log)"

definition accounted :: "u32 \<Rightarrow> outboxes \<Rightarrow> (outbox_record \<times> bool) list \<Rightarrow> bool" where
  "accounted max_retries ob log \<longleftrightarrow> (\<forall>i.
     case ob i of
       None \<Rightarrow> calls_for log True i = 0 \<and> calls_for log False i = 0
     | Some x \<Rightarrow> calls_for log True i = (if ob_status x = Delivered then 1 else 0)
         \<and> int (calls_for log False i) = ob_attempt_count x
         \<and> (ob_status x = Failed \<longrightarrow> sint max_retries \<le> ob_attempt_count x))"

lemma calls_for_simps [simp]:
  "calls_for [] ok i = 0"
  "calls_for (log @ [(y, b)]) ok i = calls_for log ok i + (if ob_outbox_id y = i \<and> b = ok then 1 else 0)"
  by (simp_all add: calls_for_def)

lemma accounted_call:
  assumes "accounted m ob log" and "ob (ob_outbox_id x) = Some x" and "ob_status x = Pending"
  shows "accounted m (ob(ob_outbox_id x \<mapsto> next_record m ok x)) (log @ [(x, ok)])"
  unfolding accounted_def
proof
  fix i
  show "case (ob(ob_outbox_id x \<mapsto> next_record m ok x)) i of
      None \<Rightarrow> calls_for (log @ [(x, ok)]) True i = 0 \<and> calls_for (log @ [(x, ok)]) False i = 0
    | Some y \<Rightarrow> calls_for (log @ [(x, ok)]) True i = (if ob_status y = Delivered then 1 else 0)
        \<and> int (calls_for (log @ [(x, ok)]) False i) = ob_attempt_count y
        \<and> (ob_status y = Failed \<longrightarrow> sint m \<le> ob_attempt_count y)"
    using assms(1) [unfolded accounted_def, rule_format, of i] assms(2,3)
    by (cases "i = ob_outbox_id x") (auto simp: next_record_def split: option.splits)
qed

lemma accounted_settle:
  assumes "accounted m ob log" and "distinct (map (ob_outbox_id \<circ> fst) xs)"
    and "\<And>x ok. (x, ok) \<in> set xs \<Longrightarrow> ob (ob_outbox_id x) = Some x \<and> ob_status x = Pending"
  shows "accounted m (settle m ob xs) (log @ xs)"
  using assms
proof (induction xs arbitrary: ob log)
  case (Cons p xs)
  obtain x ok where p: "p = (x, ok)" by fastforce
  let ?ob = "ob(ob_outbox_id x \<mapsto> next_record m ok x)"
  have first: "accounted m ?ob (log @ [(x, ok)])"
    using accounted_call [OF Cons.prems(1)] Cons.prems(3) [of x ok] by (simp add: p)
  have "ob_outbox_id y \<noteq> ob_outbox_id x" if "(y, b) \<in> set xs" for y b
    using Cons.prems(2) image_eqI [OF refl that, of "\<lambda>a. ob_outbox_id (fst a)"] by (simp add: p comp_def) metis
  then have rest: "?ob (ob_outbox_id y) = Some y \<and> ob_status y = Pending" if "(y, b) \<in> set xs" for y b
    using Cons.prems(3) [of y b] that by simp
  have "distinct (map (ob_outbox_id \<circ> fst) xs)" using Cons.prems(2) by (simp add: comp_def)
  then have "accounted m (settle m ?ob xs) ((log @ [(x, ok)]) @ xs)" by (rule Cons.IH [OF first]) (rule rest)
  then show ?case by (simp add: p)
qed simp

lemma accounted_new:
  assumes "accounted m ob log" and "ob i = None" and "ob_status y = Pending" and "ob_attempt_count y = 0"
  shows "accounted m (ob(i \<mapsto> y)) log"
  unfolding accounted_def
proof
  fix j
  show "case (ob(i \<mapsto> y)) j of
      None \<Rightarrow> calls_for log True j = 0 \<and> calls_for log False j = 0
    | Some y \<Rightarrow> calls_for log True j = (if ob_status y = Delivered then 1 else 0)
        \<and> int (calls_for log False j) = ob_attempt_count y \<and> (ob_status y = Failed \<longrightarrow> sint m \<le> ob_attempt_count y)"
    using assms(1) [unfolded accounted_def, rule_format, of j] assms(2-) by (cases "j = i") auto
qed

context outbox_store
begin

lemma process_record_spec:
  assumes inv: "inv (ss_repo st)" and rel: reliable
    and x: "outbox (ss_repo st) (ob_outbox_id x) = Some x" "ob_status x = Pending"
    and ok: "ok = (\<not> isl (pub_publish P (length (ss_publish_log st)) x))"
  shows "inv (ss_repo (process_record P R m x st))"
    and "stored (ss_repo (process_record P R m x st)) = stored (ss_repo st)"
    and "outbox (ss_repo (process_record P R m x st)) =
      (outbox (ss_repo st))(ob_outbox_id x \<mapsto> next_record m ok x)"
    and "ss_publish_log (process_record P R m x st) = ss_publish_log st @ [(x, ok)]"
proof -
  let ?st' = "process_record P R m x st" and ?i = "ob_outbox_id x"
  have "inv (ss_repo ?st') \<and> stored (ss_repo ?st') = stored (ss_repo st)
    \<and> outbox (ss_repo ?st') = (outbox (ss_repo st))(?i \<mapsto> next_record m ok x)
    \<and> ss_publish_log ?st' = ss_publish_log st @ [(x, ok)]"
  proof (cases "pub_publish P (length (ss_publish_log st)) x")
    case (Inr u)
    obtain r s' where q: "repo_mark_outbox_delivered R ?i (ss_repo st) = (r, s')" by fastforce
    from delivered_law [OF inv x q] rel Inr ok show ?thesis
      by (auto simp: process_record_def publish_one_def on_repo_def log_publish_def q next_record_def)
  next
    case (Inl err)
    obtain r s' where q: "repo_increment_outbox_attempt R ?i (ss_repo st) = (r, s')" by fastforce
    let ?y = "x\<lparr>ob_attempt_count := ob_attempt_count x + 1\<rparr>"
    from increment_law [OF inv x(1) q] rel have A: "inv s'" "stored s' = stored (ss_repo st)"
      "outbox s' = (outbox (ss_repo st))(?i \<mapsto> ?y)" by auto
    then have y: "outbox s' ?i = Some ?y" by simp
    obtain r2 s2 where q2: "repo_mark_outbox_failed R ?i s' = (r2, s2)" by fastforce
    from failed_law [OF A(1) y q2] rel A Inl ok show ?thesis
      by (auto simp: process_record_def publish_one_def on_repo_def log_publish_def q q2 next_record_def
          inc_publish_failure_def sleep_def)
  qed
  then show "inv (ss_repo ?st')" "stored (ss_repo ?st') = stored (ss_repo st)"
    "outbox (ss_repo ?st') = (outbox (ss_repo st))(?i \<mapsto> next_record m ok x)"
    "ss_publish_log ?st' = ss_publish_log st @ [(x, ok)]" by auto
qed

lemma process_records_spec:
  assumes "inv (ss_repo st)" and rel: reliable and "distinct (map ob_outbox_id xs)"
    and "\<forall>x \<in> set xs. outbox (ss_repo st) (ob_outbox_id x) = Some x \<and> ob_status x = Pending"
    and "st' = fold (process_record P R m) xs st"
  shows "inv (ss_repo st') \<and> stored (ss_repo st') = stored (ss_repo st)
    \<and> outbox (ss_repo st') = settle m (outbox (ss_repo st)) (publish_outcomes P (length (ss_publish_log st)) xs)
    \<and> ss_publish_log st' = ss_publish_log st @ publish_outcomes P (length (ss_publish_log st)) xs"
  using assms
proof (induction xs arbitrary: st)
  case (Cons x xs)
  let ?st1 = "process_record P R m x st"
  note S = process_record_spec [OF Cons.prems(1) rel _ _ refl, of x P m]
  have x: "outbox (ss_repo st) (ob_outbox_id x) = Some x" "ob_status x = Pending" using Cons.prems(4) by auto
  note S = S [OF x]
  have "ob_outbox_id y \<noteq> ob_outbox_id x" if "y \<in> set xs" for y
    using Cons.prems(3) imageI [OF that, of ob_outbox_id] by auto
  then have "\<forall>y \<in> set xs. outbox (ss_repo ?st1) (ob_outbox_id y) = Some y \<and> ob_status y = Pending"
    using Cons.prems(4) unfolding S(3) by simp
  from Cons.IH [OF S(1) rel _ this] Cons.prems(3,5) show ?case by (simp add: S(2-4) fun_upd_def)
qed simp

theorem outbox_iteration_spec:
  assumes inv: "inv (ss_repo st)" and rel: reliable and out: "st' = outbox_iteration P R cfg st"
  shows "\<exists>xs. distinct (map ob_outbox_id xs)
    \<and> set xs = {x \<in> ran (outbox (ss_repo st)). ob_status x = Pending}
    \<and> inv (ss_repo st') \<and> stored (ss_repo st') = stored (ss_repo st)
    \<and> outbox (ss_repo st') = settle (cfg_outbox_max_retries cfg) (outbox (ss_repo st))
        (publish_outcomes P (length (ss_publish_log st)) xs)
    \<and> ss_publish_log st' = ss_publish_log st @ publish_outcomes P (length (ss_publish_log st)) xs"
proof -
  obtain r s1 where q: "repo_pending_outbox R (ss_repo st) = (r, s1)" by fastforce
  from pending_law [OF inv q] rel obtain xs where L: "r = Inr xs" "inv s1" "stored s1 = stored (ss_repo st)"
    "outbox s1 = outbox (ss_repo st)" "distinct (map ob_outbox_id xs)"
    "set xs = {x \<in> ran (outbox (ss_repo st)). ob_status x = Pending}" by (cases r) auto
  let ?st1 = "st\<lparr>ss_repo := s1\<rparr>"
  have "\<forall>x \<in> set xs. outbox (ss_repo ?st1) (ob_outbox_id x) = Some x \<and> ob_status x = Pending"
    using L(4,6) outbox_key [OF inv] by (auto simp: ran_def)
  moreover have "inv (ss_repo ?st1)" using L(2) by simp
  ultimately have "inv (ss_repo (fold (process_record P R (cfg_outbox_max_retries cfg)) xs ?st1))
    \<and> stored (ss_repo (fold (process_record P R (cfg_outbox_max_retries cfg)) xs ?st1)) = stored (ss_repo st)
    \<and> outbox (ss_repo (fold (process_record P R (cfg_outbox_max_retries cfg)) xs ?st1)) =
        settle (cfg_outbox_max_retries cfg) (outbox (ss_repo st)) (publish_outcomes P (length (ss_publish_log st)) xs)
    \<and> ss_publish_log (fold (process_record P R (cfg_outbox_max_retries cfg)) xs ?st1) =
        ss_publish_log st @ publish_outcomes P (length (ss_publish_log st)) xs"
    using process_records_spec [OF _ rel L(5), of ?st1 _ P "cfg_outbox_max_retries cfg"] L(3,4) by simp
  then show ?thesis
    using L(5,6) by (intro exI [of _ xs]) (simp add: out outbox_iteration_def on_repo_def q L(1) sleep_def)
qed

lemma outbox_iteration_accounted:
  assumes inv: "inv (ss_repo st)" and rel: reliable and "st' = outbox_iteration P R cfg st"
    and "accounted (cfg_outbox_max_retries cfg) (outbox (ss_repo st)) (ss_publish_log st)"
  shows "accounted (cfg_outbox_max_retries cfg) (outbox (ss_repo st')) (ss_publish_log st')"
proof -
  from outbox_iteration_spec [OF assms(1-3)] obtain xs where xs: "distinct (map ob_outbox_id xs)"
      "set xs = {x \<in> ran (outbox (ss_repo st)). ob_status x = Pending}"
    and res: "outbox (ss_repo st') = settle (cfg_outbox_max_retries cfg) (outbox (ss_repo st))
        (publish_outcomes P (length (ss_publish_log st)) xs)"
      "ss_publish_log st' = ss_publish_log st @ publish_outcomes P (length (ss_publish_log st)) xs" by blast
  let ?out = "publish_outcomes P (length (ss_publish_log st)) xs"
  have "x \<in> set xs" if "(x, ok) \<in> set ?out" for x ok
    using that map_fst_outcomes [of P "length (ss_publish_log st)" xs] by (metis fst_conv image_eqI set_map)
  then have "outbox (ss_repo st) (ob_outbox_id x) = Some x \<and> ob_status x = Pending" if "(x, ok) \<in> set ?out" for x ok
    using that xs(2) outbox_key [OF inv] by (fastforce simp: ran_def)
  moreover have "distinct (map (ob_outbox_id \<circ> fst) ?out)" using xs(1) by (simp flip: map_map)
  ultimately show ?thesis unfolding res by (metis accounted_settle [OF assms(4)])
qed

section \<open>A pass over a repository that may fail\<close>

lemma process_record_safe:
  assumes inv: "inv (ss_repo st)"
    and x: "outbox (ss_repo st) (ob_outbox_id x) = Some x" "ob_status x = Pending"
  shows "\<exists>ok y. inv (ss_repo (process_record P R m x st))
    \<and> stored (ss_repo (process_record P R m x st)) = stored (ss_repo st)
    \<and> outbox (ss_repo (process_record P R m x st)) = (outbox (ss_repo st))(ob_outbox_id x \<mapsto> y)
    \<and> ss_publish_log (process_record P R m x st) = ss_publish_log st @ [(x, ok)]
    \<and> (ob_status y = Delivered \<longrightarrow> ok)"
proof (cases "pub_publish P (length (ss_publish_log st)) x")
  case (Inr u)
  obtain r s' where q: "repo_mark_outbox_delivered R (ob_outbox_id x) (ss_repo st) = (r, s')" by fastforce
  have same: "(outbox (ss_repo st))(ob_outbox_id x \<mapsto> x) = outbox (ss_repo st)" using x(1) by (simp add: fun_upd_idem)
  from delivered_law [OF inv x q] obtain y where "inv s'" "stored s' = stored (ss_repo st)"
    "outbox s' = (outbox (ss_repo st))(ob_outbox_id x \<mapsto> y)" using same by metis
  with Inr show ?thesis
    by (intro exI [of _ True] exI [of _ y])
      (auto simp: process_record_def publish_one_def on_repo_def log_publish_def inc_publish_failure_def q
        split: sum.splits)
next
  case (Inl err)
  obtain r s' where q: "repo_increment_outbox_attempt R (ob_outbox_id x) (ss_repo st) = (r, s')" by fastforce
  have same: "(outbox (ss_repo st))(ob_outbox_id x \<mapsto> x) = outbox (ss_repo st)" using x(1) by (simp add: fun_upd_idem)
  from increment_law [OF inv x(1) q] obtain y where y: "inv s'" "stored s' = stored (ss_repo st)"
    "outbox s' = (outbox (ss_repo st))(ob_outbox_id x \<mapsto> y)" "ob_status y = Pending"
    using same x(2) by (metis outbox_record.select_convs(5) outbox_record.surjective outbox_record.update_convs(6))
  obtain r2 s2 where q2: "repo_mark_outbox_failed R (ob_outbox_id x) s' = (r2, s2)" by fastforce
  have y1: "outbox s' (ob_outbox_id x) = Some y" using y(3) by simp
  from failed_law [OF y(1) y1 q2] obtain z where "inv s2" "stored s2 = stored s'"
    "outbox s2 = (outbox s')(ob_outbox_id x \<mapsto> z)" "ob_status z \<noteq> Delivered"
    using y(3,4) by fastforce
  with Inl y show ?thesis
    by (intro exI [of _ False] exI [of _ "if sint m \<le> ob_attempt_count x + 1 then z else y"])
      (auto simp: process_record_def publish_one_def on_repo_def log_publish_def inc_publish_failure_def
        sleep_def Let_def q q2)
qed

lemma process_records_safe:
  assumes "inv (ss_repo st)" and "distinct (map ob_outbox_id xs)"
    and "\<forall>x \<in> set xs. outbox (ss_repo st) (ob_outbox_id x) = Some x \<and> ob_status x = Pending"
    and "st' = fold (process_record P R m) xs st"
  shows "inv (ss_repo st') \<and> stored (ss_repo st') = stored (ss_repo st)
    \<and> (delivered_logged (outbox (ss_repo st)) (ss_publish_log st)
        \<longrightarrow> delivered_logged (outbox (ss_repo st')) (ss_publish_log st'))"
  using assms
proof (induction xs arbitrary: st)
  case (Cons x xs)
  let ?st1 = "process_record P R m x st"
  have x: "outbox (ss_repo st) (ob_outbox_id x) = Some x" "ob_status x = Pending" using Cons.prems(3) by auto
  from process_record_safe [OF Cons.prems(1) x, of P m] obtain ok y where S: "inv (ss_repo ?st1)"
    "stored (ss_repo ?st1) = stored (ss_repo st)"
    "outbox (ss_repo ?st1) = (outbox (ss_repo st))(ob_outbox_id x \<mapsto> y)"
    "ss_publish_log ?st1 = ss_publish_log st @ [(x, ok)]" "ob_status y = Delivered \<longrightarrow> ok" by blast
  have "ob_outbox_id z \<noteq> ob_outbox_id x" if "z \<in> set xs" for z
    using Cons.prems(2) imageI [OF that, of ob_outbox_id] by auto
  then have "\<forall>z \<in> set xs. outbox (ss_repo ?st1) (ob_outbox_id z) = Some z \<and> ob_status z = Pending"
    using Cons.prems(3) unfolding S(3) by simp
  from Cons.IH [OF S(1) _ this] Cons.prems(2,4) S(5) delivered_logged_update [of "outbox (ss_repo st)" _ y ok x]
  show ?case by (simp add: S(2-4) fun_upd_def)
qed simp

theorem outbox_iteration_safe:
  assumes inv: "inv (ss_repo st)" and out: "st' = outbox_iteration P R cfg st"
  shows "inv (ss_repo st') \<and> stored (ss_repo st') = stored (ss_repo st)
    \<and> (delivered_logged (outbox (ss_repo st)) (ss_publish_log st)
        \<longrightarrow> delivered_logged (outbox (ss_repo st')) (ss_publish_log st'))"
proof -
  obtain r s1 where q: "repo_pending_outbox R (ss_repo st) = (r, s1)" by fastforce
  note L = pending_law [OF inv q]
  show ?thesis
  proof (cases r)
    case (Inl err)
    with L show ?thesis by (simp add: out outbox_iteration_def on_repo_def q sleep_def)
  next
    case (Inr xs)
    with L outbox_key [OF inv] have "\<forall>x \<in> set xs. outbox (ss_repo (st\<lparr>ss_repo := s1\<rparr>)) (ob_outbox_id x) = Some x
        \<and> ob_status x = Pending" by (auto simp: ran_def)
    from process_records_safe [OF _ _ this, of _ P "cfg_outbox_max_retries cfg"] L Inr
    show ?thesis by (simp add: out outbox_iteration_def on_repo_def q sleep_def)
  qed
qed

section \<open>One event through the passes\<close>

lemma outbox_iteration_record:
  assumes inv: "inv (ss_repo st)" and rel: reliable and out: "st' = outbox_iteration P R cfg st"
  shows "outbox (ss_repo st) i = None \<Longrightarrow> outbox (ss_repo st') i = None"
    and "outbox (ss_repo st) i = Some x \<Longrightarrow> ob_status x \<noteq> Pending \<Longrightarrow> outbox (ss_repo st') i = Some x"
    and "outbox (ss_repo st) i = Some x \<Longrightarrow> ob_status x = Pending \<Longrightarrow>
      \<exists>ok. outbox (ss_repo st') i = Some (next_record (cfg_outbox_max_retries cfg) ok x)
        \<and> (x, ok) \<in> set (drop (length (ss_publish_log st)) (ss_publish_log st'))"
proof -
  from outbox_iteration_spec [OF inv rel out] obtain xs where xs: "distinct (map ob_outbox_id xs)"
      "set xs = {x \<in> ran (outbox (ss_repo st)). ob_status x = Pending}"
    and ob: "outbox (ss_repo st') = settle (cfg_outbox_max_retries cfg) (outbox (ss_repo st))
      (publish_outcomes P (length (ss_publish_log st)) xs)"
    and log: "ss_publish_log st' = ss_publish_log st @ publish_outcomes P (length (ss_publish_log st)) xs"
    by blast
  have mem: "x \<in> set xs \<longleftrightarrow> outbox (ss_repo st) (ob_outbox_id x) = Some x \<and> ob_status x = Pending" for x
    using xs(2) outbox_key [OF inv] by (auto simp: ran_def)
  let ?out = "publish_outcomes P (length (ss_publish_log st)) xs"
  have fsts: "fst ` set ?out = set xs" by (metis map_fst_outcomes set_map)
  have stay: "outbox (ss_repo st') i = outbox (ss_repo st) i" if "i \<notin> ob_outbox_id ` set xs"
    using settle_other [of i ?out] that unfolding ob fsts by simp
  have pend: "\<exists>y. outbox (ss_repo st) i = Some y \<and> ob_status y = Pending" if "i \<in> ob_outbox_id ` set xs"
    using that by (auto simp: mem)
  show "outbox (ss_repo st') i = None" if "outbox (ss_repo st) i = None"
    using stay pend that by auto
  show "outbox (ss_repo st') i = Some x" if "outbox (ss_repo st) i = Some x" "ob_status x \<noteq> Pending"
    using stay pend that by auto
  show "\<exists>ok. outbox (ss_repo st') i = Some (next_record (cfg_outbox_max_retries cfg) ok x)
      \<and> (x, ok) \<in> set (drop (length (ss_publish_log st)) (ss_publish_log st'))"
    if "outbox (ss_repo st) i = Some x" "ob_status x = Pending"
  proof -
    have i: "i = ob_outbox_id x" using outbox_key [OF inv that(1)] by simp
    with that mem have "x \<in> fst ` set ?out" unfolding fsts by simp
    then obtain ok where ok: "(x, ok) \<in> set ?out" by auto
    have "distinct (map (ob_outbox_id \<circ> fst) ?out)" using xs(1) by (simp flip: map_map)
    from settle_member [OF this ok] ok show ?thesis unfolding i ob log by auto
  qed
qed

lemma outbox_iterations_inv:
  assumes "inv (ss_repo st)" and reliable
  shows "inv (ss_repo ((outbox_iteration P R cfg ^^ n) st))
    \<and> stored (ss_repo ((outbox_iteration P R cfg ^^ n) st)) = stored (ss_repo st)"
  using assms outbox_iteration_spec [OF _ assms(2) refl] by (induction n) fastforce+

lemma outbox_iterations_settled:
  assumes "inv (ss_repo st)" and "reliable" and "outbox (ss_repo st) i = Some x" and "ob_status x \<noteq> Pending"
  shows "outbox (ss_repo ((outbox_iteration P R cfg ^^ n) st)) i = Some x"
proof (induction n)
  case (Suc n)
  from outbox_iteration_record(2) [OF _ assms(2) refl Suc assms(4), where P = P and cfg = cfg]
    outbox_iterations_inv [OF assms(1,2), where P = P and cfg = cfg and n = n] show ?case by simp
qed (use assms in simp)

theorem outbox_settles:
  assumes "inv (ss_repo st)" and reliable and "outbox (ss_repo st) i = Some x"
    and "0 < n" and "sint (cfg_outbox_max_retries cfg) \<le> ob_attempt_count x + int n"
  shows "\<exists>y. outbox (ss_repo ((outbox_iteration P R cfg ^^ n) st)) i = Some y \<and> ob_status y \<noteq> Pending"
  using assms
proof (induction n arbitrary: st x)
  case (Suc n)
  let ?st1 = "outbox_iteration P R cfg st"
  note inv1 = outbox_iterations_inv [OF Suc.prems(1,2), where P = P and cfg = cfg and n = 1, simplified]
  show ?case
  proof (cases "ob_status x = Pending")
    case False
    with outbox_iterations_settled [OF Suc.prems(1-3)] show ?thesis by blast
  next
    case True
    from outbox_iteration_record(3) [OF Suc.prems(1,2) refl Suc.prems(3) True, where P = P and cfg = cfg]
    obtain ok where y: "outbox (ss_repo ?st1) i = Some (next_record (cfg_outbox_max_retries cfg) ok x)" by blast
    let ?y = "next_record (cfg_outbox_max_retries cfg) ok x"
    show ?thesis
    proof (cases "ob_status ?y = Pending")
      case False
      with outbox_iterations_settled [OF _ Suc.prems(2) y, where P = P and cfg = cfg and n = n] inv1 show ?thesis
        unfolding funpow_Suc_right o_apply by blast
    next
      case True
      then have "ob_attempt_count ?y = ob_attempt_count x + 1" "ob_attempt_count x + 1 < sint (cfg_outbox_max_retries cfg)"
        by (auto simp: next_record_def split: if_splits)
      with Suc.IH [OF _ Suc.prems(2) y] inv1 Suc.prems(5) show ?thesis
        unfolding funpow_Suc_right o_apply by auto
    qed
  qed
qed simp

end

end
