(* ===== verification/Verifier.thy ===== *)
theory Verifier
  imports Verification_Correct
begin

text \<open>
  The background verifier of \<open>src/verifier.rs\<close>: \<open>run_verification\<close> over every chain and
  one pass of the loop \<open>spawn_background_verifier\<close> runs. The shared status is a field of
  the verifier's state beside the service state; the clock readings of a pass are
  arguments.
\<close>

record chain_result =
  cr_entry_type :: string
  cr_valid :: bool
  cr_entries_checked :: i64
  cr_failure_reason :: string

record verification_status =
  vn_all_valid :: bool
  vn_chains_checked :: nat
  vn_last_run :: datetime
  vn_duration_ms :: u64
  vn_chain_results :: "chain_result list"

fun service_error_text :: "service_error \<Rightarrow> string" where
  "service_error_text SvcNotFound = ''not found''"
| "service_error_text (InvalidArgument m) = ''invalid argument: '' @ m"
| "service_error_text (AlreadyExists m) = ''already exists: '' @ m"
| "service_error_text SvcUnavailable = ''unavailable''"
| "service_error_text (Internal m) = ''internal: '' @ m"

definition chain_result_of :: "string \<Rightarrow> service_error + verify_chain_output \<Rightarrow> chain_result" where
  "chain_result_of entry_type r =
     (case r of
        Inr output \<Rightarrow>
          \<lparr>cr_entry_type = entry_type, cr_valid = vc_chain_valid output,
           cr_entries_checked = vc_entries_checked output,
           cr_failure_reason = vc_failure_reason output\<rparr>
      | Inl e \<Rightarrow>
          \<lparr>cr_entry_type = entry_type, cr_valid = False, cr_entries_checked = 0,
           cr_failure_reason = service_error_text e\<rparr>)"

text \<open>The loop over the chain names; \<open>None\<close> if a verification does not return.\<close>

fun verify_types ::
    "third_party \<Rightarrow> 's ledger_repository \<Rightarrow> app_config \<Rightarrow> i64 \<Rightarrow> string list \<Rightarrow> 's service_state \<Rightarrow>
     (chain_result list \<times> 's service_state) option" where
  "verify_types D R cfg max_entries [] st = Some ([], st)"
| "verify_types D R cfg max_entries (entry_type # types) st =
     (case verify_recent_chain D R cfg entry_type max_entries st of
        None \<Rightarrow> None
      | Some (r, st1) \<Rightarrow>
          (case verify_types D R cfg max_entries types st1 of
             None \<Rightarrow> None
           | Some (results, st2) \<Rightarrow> Some (chain_result_of entry_type r # results, st2)))"

definition run_verification ::
    "third_party \<Rightarrow> 's ledger_repository \<Rightarrow> app_config \<Rightarrow> i64 \<Rightarrow> 's service_state \<Rightarrow>
     (chain_result list \<times> 's service_state) option" where
  "run_verification D R cfg max_entries st =
     (case get_distinct_entry_types R st of
        (Inl e, st1) \<Rightarrow> Some ([], st1)
      | (Inr entry_types, st1) \<Rightarrow> verify_types D R cfg max_entries entry_types st1)"

record 's verifier_state =
  vr_service :: "'s service_state"
  vr_status :: "verification_status option"

definition set_integrity_gauge :: "int \<Rightarrow> 's service_state \<Rightarrow> 's service_state" where
  "set_integrity_gauge v st = st\<lparr>ss_metrics := (ss_metrics st)\<lparr>m_chain_integrity_valid := v\<rparr>\<rparr>"

text \<open>
  One pass, with \<open>now\<close> the reading of \<open>Utc::now\<close> and \<open>elapsed\<close> the measured duration;
  the pass ends with \<open>sleep(interval)\<close>, in milliseconds.
\<close>

definition verifier_pass ::
    "third_party \<Rightarrow> 's ledger_repository \<Rightarrow> app_config \<Rightarrow> datetime \<Rightarrow> u64 \<Rightarrow> 's verifier_state \<Rightarrow>
     's verifier_state option" where
  "verifier_pass D R cfg now elapsed vst =
     (case run_verification D R cfg (cfg_verify_max_entries_per_chain cfg) (vr_service vst) of
        None \<Rightarrow> None
      | Some (chain_results, st) \<Rightarrow>
          let all_valid = list_all cr_valid chain_results;
              verification =
                \<lparr>vn_all_valid = all_valid, vn_chains_checked = length chain_results,
                 vn_last_run = now, vn_duration_ms = elapsed, vn_chain_results = chain_results\<rparr>
          in Some
               \<lparr>vr_service = sleep (word_of_nat (1000 * cfg_verify_interval_seconds cfg))
                  (set_integrity_gauge (if all_valid then 1 else 0) st),
                vr_status = Some verification\<rparr>)"

section \<open>A pass returns and only reads\<close>

context entry_store
begin

lemma verify_types_returns:
  assumes "inv (ss_repo st)"
  shows "\<exists>rs st'. verify_types D R cfg n ts st = Some (rs, st') \<and> inv (ss_repo st')
    \<and> stored (ss_repo st') = stored (ss_repo st) \<and> map cr_entry_type rs = ts"
  using assms
proof (induction ts arbitrary: st)
  case (Cons t ts)
  from verify_recent_chain_returns [OF Cons.prems, of D cfg t n] obtain r st1
    where v: "verify_recent_chain D R cfg t n st = Some (r, st1)" and o: "observes inv stored st st1" by blast
  then have "inv (ss_repo st1)" "stored (ss_repo st1) = stored (ss_repo st)"
    by (auto simp: observes_def reads_def count_failure_def)
  with Cons.IH [of st1] v show ?case by (fastforce simp: chain_result_of_def split: sum.splits)
qed simp

theorem run_verification_returns:
  assumes "inv (ss_repo st)"
  shows "\<exists>rs st'. run_verification D R cfg n st = Some (rs, st') \<and> inv (ss_repo st')
    \<and> stored (ss_repo st') = stored (ss_repo st)
    \<and> ((rs = [] \<and> \<not> reliable) \<or> (distinct (map cr_entry_type rs)
        \<and> set (map cr_entry_type rs) = {t. stored (ss_repo st) t \<noteq> []}))"
proof -
  obtain r st1 where q: "on_repo (repo_get_distinct_entry_types R) st = (r, st1)" by fastforce
  then have law: "inv (ss_repo st1)" "stored (ss_repo st1) = stored (ss_repo st)"
    "case r of Inr ts \<Rightarrow> distinct ts \<and> set ts = {t. stored (ss_repo st) t \<noteq> []}
     | Inl err \<Rightarrow> err = Unavailable \<and> \<not> reliable"
    using types_law [OF assms] by (auto simp: on_repo_eq)
  show ?thesis
  proof (cases r)
    case (Inl err)
    with q law show ?thesis
      by (simp add: run_verification_def get_distinct_entry_types_def map_err_repo_def)
  next
    case (Inr ts)
    from verify_types_returns [OF law(1), of D cfg n ts] obtain rs st'
      where V: "verify_types D R cfg n ts st1 = Some (rs, st')" "inv (ss_repo st')"
        "stored (ss_repo st') = stored (ss_repo st)" "map cr_entry_type rs = ts"
      using law(2) by auto
    have "run_verification D R cfg n st = Some (rs, st')"
      using V(1) Inr q by (simp add: run_verification_def get_distinct_entry_types_def map_err_repo_def)
    with V(2,3) law(3) Inr show ?thesis
      by (intro exI [of _ rs] exI [of _ st'] conjI disjI2) (simp_all add: V(4) del: set_map)
  qed
qed

end

end
