(* ===== verification/In_Memory_Correct.thy ===== *)
theory In_Memory_Correct
  imports In_Memory Query Outbox Verifier
begin

text \<open>
  The in-memory repository implements the repository interfaces: \<open>mem_store\<close> on any
  state whose indexes are consistent, \<open>mem_ledger\<close>, \<open>mem_outbox\<close> and \<open>mem_query\<close> on
  the states its own operations reach. All of its operations are reliable.
\<close>

section \<open>The chain of a type\<close>

lemma index_inv_ids:
  assumes "mem_index_inv s" and "hm_get (im_ordered_by_type s) t = Some ids"
  shows "ids \<noteq> []"
    and "i \<in> set ids \<Longrightarrow> \<exists>e. hm_get (im_entries s) i = Some e \<and> le_entry_id e = i \<and> le_entry_type e = t"
  using assms by (simp_all add: mem_index_inv_def)

lemma index_inv_listed:
  assumes "mem_index_inv s" and "hm_get (im_entries s) i = Some e"
  obtains ids where "hm_get (im_ordered_by_type s) (le_entry_type e) = Some ids" and "i \<in> set ids"
  using assms unfolding mem_index_inv_def by blast

lemma index_inv_entry:
  assumes "mem_index_inv s" and "hm_get (im_entries s) i = Some e"
  shows "le_entry_id e = i"
proof -
  obtain ids where "hm_get (im_ordered_by_type s) (le_entry_type e) = Some ids" "i \<in> set ids"
    using index_inv_listed [OF assms] by blast
  with index_inv_ids(2) [OF assms(1)] assms(2) show ?thesis by fastforce
qed

lemma map_filter_simps [simp]:
  "List.map_filter f [] = []"
  "List.map_filter f (x # xs) = (case f x of None \<Rightarrow> List.map_filter f xs | Some y \<Rightarrow> y # List.map_filter f xs)"
  by (simp_all add: List.map_filter_def split: option.splits)

lemma map_filter_append [simp]:
  "List.map_filter f (xs @ ys) = List.map_filter f xs @ List.map_filter f ys"
  by (simp add: List.map_filter_def)

lemma set_map_filter [simp]: "set (List.map_filter f xs) = {y. \<exists>x \<in> set xs. f x = Some y}"
  by (induction xs) (auto split: option.splits)

lemma map_filter_cong:
  "(\<And>x. x \<in> set xs \<Longrightarrow> f x = g x) \<Longrightarrow> List.map_filter f xs = List.map_filter g xs"
  by (induction xs) (auto split: option.splits)

lemma map_filter_eq_Nil:
  "(\<forall>x \<in> set xs. f x \<noteq> None) \<Longrightarrow> List.map_filter f xs = [] \<longleftrightarrow> xs = []"
  by (cases xs) auto

lemma set_mem_chain:
  assumes "mem_index_inv s"
  shows "set (mem_chain s t) = {e. hm_get (im_entries s) (le_entry_id e) = Some e \<and> le_entry_type e = t}"
proof (intro set_eqI iffI)
  fix e assume "e \<in> set (mem_chain s t)"
  then obtain ids i where "hm_get (im_ordered_by_type s) t = Some ids" "i \<in> set ids"
    "hm_get (im_entries s) i = Some e"
    unfolding mem_chain_def by (cases "hm_get (im_ordered_by_type s) t") auto
  with index_inv_ids(2) [OF assms]
  show "e \<in> {e. hm_get (im_entries s) (le_entry_id e) = Some e \<and> le_entry_type e = t}"
    by fastforce
next
  fix e assume e: "e \<in> {e. hm_get (im_entries s) (le_entry_id e) = Some e \<and> le_entry_type e = t}"
  with index_inv_listed [OF assms]
  obtain ids where "hm_get (im_ordered_by_type s) t = Some ids" "le_entry_id e \<in> set ids"
    by blast
  with e show "e \<in> set (mem_chain s t)" by (auto simp: mem_chain_def)
qed

lemma all_entries_mem_chain:
  assumes "mem_index_inv s"
  shows "all_entries (mem_chain s) = ran (hm_get (im_entries s))"
  using set_mem_chain [OF assms] index_inv_entry [OF assms]
  by (auto simp: all_entries_def ran_def)

lemma mem_chain_ran:
  assumes "mem_index_inv s"
  shows "e \<in> set (mem_chain s t) \<longleftrightarrow> e \<in> ran (hm_get (im_entries s)) \<and> le_entry_type e = t"
  using set_mem_chain [OF assms] index_inv_entry [OF assms] by (auto simp: ran_def)

lemma mem_chain_empty_iff:
  assumes "mem_index_inv s"
  shows "mem_chain s t = [] \<longleftrightarrow> hm_get (im_ordered_by_type s) t = None"
proof (cases "hm_get (im_ordered_by_type s) t")
  case (Some ids)
  have "ids \<noteq> []" and "\<forall>i \<in> set ids. hm_get (im_entries s) i \<noteq> None"
    using index_inv_ids [OF assms Some] by auto
  with Some show ?thesis by (simp add: mem_chain_def map_filter_eq_Nil)
qed (simp add: mem_chain_def)

lemma mem_ids_inj: "mem_index_inv s \<Longrightarrow> inj_on le_entry_id (all_entries (mem_chain s))"
  unfolding all_entries_mem_chain inj_on_def ran_def
  by clarify (metis index_inv_entry option.inject)

section \<open>Reads\<close>

lemma page_scan_eq:
  "length out < lim \<Longrightarrow> page_scan s after lim ids out =
     out @ take (lim - length out)
       (filter (\<lambda>e. le_chain_position e > after) (List.map_filter (hm_get (im_entries s)) ids))"
proof (induction ids arbitrary: out)
  case (Cons i ids)
  show ?case
  proof (cases "hm_get (im_entries s) i")
    case (Some e)
    then show ?thesis
      using Cons.IH [of out] Cons.IH [of "out @ [e]"] Cons.prems
      by (auto simp: take_Cons' Suc_diff_Suc)
  qed (use Cons in simp)
qed simp

lemma mem_paged:
  assumes "1 \<le> limit" and "limit < 2 ^ 63"
  shows "mem_get_entries_by_type_paged t after limit s =
    (Inr (page (mem_chain s t) after (nat limit)), s)"
  using assms
  by (auto simp: mem_get_entries_by_type_paged_def i64_as_usize_pos page_scan_eq page_def mem_chain_def
      split: option.splits)

lemma find_ran:
  assumes "seed_ok seed" and "hm_wf m"
  shows "case List.find P (hm_values seed m) of
      None \<Rightarrow> \<forall>x \<in> ran (hm_get m). \<not> P x
    | Some x \<Rightarrow> x \<in> ran (hm_get m) \<and> P x"
  using set_hm_values [OF assms]
  by (auto simp: find_None_iff find_Some_iff split: option.splits)

lemma mem_types:
  assumes "mem_index_inv s"
  shows "sorted (sort (hm_keys (im_seed s) (im_ordered_by_type s)))"
    and "distinct (sort (hm_keys (im_seed s) (im_ordered_by_type s)))"
    and "set (sort (hm_keys (im_seed s) (im_ordered_by_type s))) = {t. mem_chain s t \<noteq> []}"
  using assms
  by (auto simp: mem_index_inv_def hm_keys_def hm_wf_def distinct_iterate mem_chain_empty_iff
      set_hm_keys [unfolded hm_keys_def] dom_def)

section \<open>Writes\<close>

definition mem_after_write :: "third_party \<Rightarrow> uuid_draws \<Rightarrow> entry_write_input \<Rightarrow> inner \<Rightarrow> inner" where
  "mem_after_write D d input s =
     (let e = next_entry D (mem_chain s) d input; t = wi_entry_type input
      in s\<lparr>im_entries := hm_insert (dr_entry_id d) e (im_entries s),
           im_ordered_by_type := hm_insert t
             ((case hm_get (im_ordered_by_type s) t of None \<Rightarrow> [] | Some ids \<Rightarrow> ids) @ [dr_entry_id d])
             (im_ordered_by_type s),
           im_chain_tips := hm_insert t (entry_chain_tip e) (im_chain_tips s),
           im_idempotency_index :=
             (case wi_idempotency_key input of
                None \<Rightarrow> im_idempotency_index s
              | Some key \<Rightarrow> hm_insert (t, key) (dr_entry_id d) (im_idempotency_index s)),
           im_outbox :=
             (if wi_create_outbox input
              then hm_insert (dr_outbox_id d) (next_outbox D (mem_chain s) d input) (im_outbox s)
              else im_outbox s)\<rparr>)"

lemma mem_inv_positions: "mem_inv D s \<Longrightarrow> positions_ok (mem_chain s t)"
  by (auto simp: mem_inv_def dest: ledger_inv_chain chain_inv_positions)

lemma mem_next_position:
  assumes "mem_inv D s"
  shows "(case hm_get (im_chain_tips s) t of None \<Rightarrow> 1 | Some tip \<Rightarrow> tip_position tip + 1)
    = int (length (mem_chain s t)) + 1"
  using assms positions_ok_last [OF mem_inv_positions [OF assms], of t]
  by (auto simp: mem_inv_def entry_chain_tip_def)

lemma mem_key_used:
  assumes "mem_inv D s"
  shows "(case k of None \<Rightarrow> False
     | Some key \<Rightarrow> hm_get (im_idempotency_index s) (t, key) \<noteq> None) \<longleftrightarrow> key_used k (mem_chain s t)"
  using assms
  by (auto simp: mem_inv_def key_used_def list_ex_iff find_None_iff split: option.splits)

lemma mem_write_cases:
  assumes "mem_inv D s"
  shows "mem_write_entry_with_outbox D d input s =
    (let es = mem_chain s (wi_entry_type input)
     in if key_used (wi_idempotency_key input) es then (Inl IdempotencyConflict, s)
        else if \<not> link_ok (wi_previous_hash input) es then (Inl ChainIntegrityViolation, s)
        else (Inr \<lparr>wr_entry = next_entry D (mem_chain s) d input,
                   wr_outbox = (if wi_create_outbox input
                     then Some (next_outbox D (mem_chain s) d input) else None)\<rparr>,
              mem_after_write D d input s))"
proof -
  let ?t = "wi_entry_type input"
  have tip: "hm_get (im_chain_tips s) ?t =
      (if mem_chain s ?t = [] then None else Some (entry_chain_tip (last (mem_chain s ?t))))"
    using assms by (simp add: mem_inv_def)
  have link: "link_ok (wi_previous_hash input) (mem_chain s ?t) \<longleftrightarrow>
      \<not> (int (length (mem_chain s ?t)) + 1 = 1 \<and> wi_previous_hash input = []) \<and>
      \<not> (int (length (mem_chain s ?t)) + 1 > 1 \<and>
         (case hm_get (im_chain_tips s) ?t of None \<Rightarrow> True
          | Some tip \<Rightarrow> tip_hash tip \<noteq> wi_previous_hash input))"
    by (auto simp: tip link_ok_def entry_chain_tip_def)
  show ?thesis
    unfolding mem_write_entry_with_outbox_def mem_next_position [OF assms]
      mem_key_used [OF assms] Let_def
    by (cases "wi_idempotency_key input")
      (simp_all add: link mem_after_write_def next_entry_def next_outbox_def entry_chain_tip_def Let_def)
qed

lemma mem_after_write_simps [simp]:
  "im_seed (mem_after_write D d input s) = im_seed s"
  "im_entries (mem_after_write D d input s) =
     hm_insert (dr_entry_id d) (next_entry D (mem_chain s) d input) (im_entries s)"
  "im_ordered_by_type (mem_after_write D d input s) = hm_insert (wi_entry_type input)
     ((case hm_get (im_ordered_by_type s) (wi_entry_type input) of None \<Rightarrow> [] | Some ids \<Rightarrow> ids)
       @ [dr_entry_id d]) (im_ordered_by_type s)"
  "im_chain_tips (mem_after_write D d input s) = hm_insert (wi_entry_type input)
     (entry_chain_tip (next_entry D (mem_chain s) d input)) (im_chain_tips s)"
  "im_outbox (mem_after_write D d input s) =
     (if wi_create_outbox input
      then hm_insert (dr_outbox_id d) (next_outbox D (mem_chain s) d input) (im_outbox s)
      else im_outbox s)"
  by (simp_all add: mem_after_write_def Let_def)

lemma mem_after_write_outboxes [simp]:
  "mem_outboxes (mem_after_write D d input s) =
     append_outbox D (mem_chain s) (mem_outboxes s) d input"
  by (simp add: mem_outboxes_def append_outbox_def)

lemma mem_after_write_index:
  "hm_get (im_idempotency_index (mem_after_write D d input s)) (t, k) =
     (if t = wi_entry_type input \<and> wi_idempotency_key input = Some k then Some (dr_entry_id d)
      else hm_get (im_idempotency_index s) (t, k))"
  by (cases "wi_idempotency_key input") (simp_all add: mem_after_write_def Let_def)

lemma mem_chain_Some:
  "hm_get (im_ordered_by_type s) t = Some ids \<Longrightarrow> mem_chain s t = List.map_filter (hm_get (im_entries s)) ids"
  by (simp add: mem_chain_def)

lemma mem_chain_after_write:
  assumes "mem_index_inv s" and "hm_get (im_entries s) (dr_entry_id d) = None"
  shows "mem_chain (mem_after_write D d input s) = append_entry D (mem_chain s) d input"
proof
  fix t
  let ?e = "next_entry D (mem_chain s) d input"
  let ?g = "(hm_get (im_entries s))(dr_entry_id d \<mapsto> ?e)"
  have same: "List.map_filter ?g ids = List.map_filter (hm_get (im_entries s)) ids"
    if "hm_get (im_ordered_by_type s) u = Some ids" for u ids
  proof (rule map_filter_cong)
    fix i assume "i \<in> set ids"
    with index_inv_ids(2) [OF assms(1) that, of i] assms(2) have "i \<noteq> dr_entry_id d" by auto
    then show "?g i = hm_get (im_entries s) i" by simp
  qed
  show "mem_chain (mem_after_write D d input s) t = append_entry D (mem_chain s) d input t"
  proof (cases "hm_get (im_ordered_by_type s) t")
    case None
    then have "mem_chain s t = []" by (simp add: mem_chain_def)
    with None show ?thesis
      by (cases "t = wi_entry_type input")
        (simp_all add: mem_chain_def [of "mem_after_write D d input s"] append_entry_apply)
  next
    case (Some ids)
    then show ?thesis
      by (cases "t = wi_entry_type input")
        (auto simp: mem_chain_def [of "mem_after_write D d input s"] append_entry_apply
          same mem_chain_Some)
  qed
qed

lemma mem_index_inv_after_write:
  assumes inv: "mem_index_inv s" and fresh: "hm_get (im_entries s) (dr_entry_id d) = None"
  shows "mem_index_inv (mem_after_write D d input s)"
proof -
  let ?s = "mem_after_write D d input s" and ?t = "wi_entry_type input"
  let ?e = "next_entry D (mem_chain s) d input"
  have keep: "hm_get (im_entries ?s) i = Some e" if "hm_get (im_entries s) i = Some e" for i e
    using that fresh by auto
  have "ids \<noteq> [] \<and> (\<forall>i \<in> set ids. \<exists>e. hm_get (im_entries ?s) i = Some e
      \<and> le_entry_id e = i \<and> le_entry_type e = t)"
    if t: "hm_get (im_ordered_by_type ?s) t = Some ids" for t ids
  proof (cases "t = ?t")
    case False
    with t have "hm_get (im_ordered_by_type s) t = Some ids" by simp
    with index_inv_ids [OF inv] keep show ?thesis by blast
  next
    case True
    have "\<exists>e. hm_get (im_entries ?s) i = Some e \<and> le_entry_id e = i \<and> le_entry_type e = t"
      if "i \<in> set ids" for i
    proof (cases "i = dr_entry_id d")
      case True
      with \<open>t = ?t\<close> show ?thesis by simp
    next
      case False
      with t \<open>t = ?t\<close> \<open>i \<in> set ids\<close> obtain ids' where
        "hm_get (im_ordered_by_type s) t = Some ids'" "i \<in> set ids'"
        by (cases "hm_get (im_ordered_by_type s) t") auto
      with index_inv_ids(2) [OF inv] keep show ?thesis by blast
    qed
    with t True show ?thesis by auto
  qed
  moreover have "\<exists>ids. hm_get (im_ordered_by_type ?s) (le_entry_type e) = Some ids \<and> i \<in> set ids"
    if "hm_get (im_entries ?s) i = Some e" for i e
  proof (cases "i = dr_entry_id d")
    case True
    with that show ?thesis by auto
  next
    case False
    with that have "hm_get (im_entries s) i = Some e" by simp
    from index_inv_listed [OF inv this] obtain ids where
      "hm_get (im_ordered_by_type s) (le_entry_type e) = Some ids" "i \<in> set ids"
      by blast
    then show ?thesis by auto
  qed
  ultimately show ?thesis
    using inv unfolding mem_index_inv_def
    by (auto simp: next_outbox_def new_outbox_def)
qed

lemma find_append_entry:
  "List.find (with_key k) (append_entry D L d input t) =
     (case List.find (with_key k) (L t) of
        Some e \<Rightarrow> Some e
      | None \<Rightarrow> if t = wi_entry_type input \<and> wi_idempotency_key input = Some k
          then Some (next_entry D L d input) else None)"
proof -
  have "List.find P (xs @ [x]) = (case List.find P xs of Some e \<Rightarrow> Some e | None \<Rightarrow> if P x then Some x else None)"
    for P :: "ledger_entry_record \<Rightarrow> bool" and xs x
    by (induction xs) auto
  then show ?thesis by (simp add: append_entry_apply with_key_def split: option.splits)
qed

lemma key_used_find: "key_used (Some k) es \<longleftrightarrow> List.find (with_key k) es \<noteq> None"
  by (auto simp: key_used_def list_ex_iff find_None_iff)

lemma mem_inv_after_write:
  assumes inv: "mem_inv D s" and fresh: "fresh_draws (mem_chain s) (mem_outboxes s) d"
    and link: "link_ok (wi_previous_hash input) (mem_chain s (wi_entry_type input))"
    and key: "\<not> key_used (wi_idempotency_key input) (mem_chain s (wi_entry_type input))"
  shows "mem_inv D (mem_after_write D d input s)"
    and "mem_chain (mem_after_write D d input s) = append_entry D (mem_chain s) d input"
proof -
  let ?s = "mem_after_write D d input s" and ?t = "wi_entry_type input"
  have idx: "mem_index_inv s" using inv by (simp add: mem_inv_def)
  have new: "hm_get (im_entries s) (dr_entry_id d) = None"
  proof (rule ccontr)
    assume "hm_get (im_entries s) (dr_entry_id d) \<noteq> None"
    then obtain e where "hm_get (im_entries s) (dr_entry_id d) = Some e" by blast
    moreover from index_inv_entry [OF idx this] have "le_entry_id e = dr_entry_id d" .
    ultimately show False
      using fresh by (force simp: fresh_draws_def all_entries_mem_chain [OF idx] intro: ranI)
  qed
  show chain: "mem_chain ?s = append_entry D (mem_chain s) d input"
    by (rule mem_chain_after_write [OF idx new])
  have "ledger_inv D (mem_chain ?s)"
    using ledger_inv_append inv fresh link key by (simp add: chain mem_inv_def fresh_draws_def)
  moreover have "hm_get (im_chain_tips ?s) t =
      (if mem_chain ?s t = [] then None else Some (entry_chain_tip (last (mem_chain ?s t))))" for t
    using inv by (simp add: chain append_entry_apply mem_inv_def)
  moreover have "hm_get (im_idempotency_index ?s) (t, k) =
      map_option le_entry_id (List.find (with_key k) (mem_chain ?s t))" for t k
  proof (cases "t = ?t \<and> wi_idempotency_key input = Some k")
    case True
    with key have "List.find (with_key k) (mem_chain s t) = None"
      by (simp add: key_used_find)
    with True show ?thesis by (simp add: chain find_append_entry mem_after_write_index)
  next
    case False
    with inv show ?thesis
      by (auto simp: chain find_append_entry mem_after_write_index mem_inv_def split: option.splits)
  qed
  ultimately show "mem_inv D ?s"
    using mem_index_inv_after_write [OF idx new] by (simp add: mem_inv_def)
qed

section \<open>The interfaces hold\<close>

lemma in_memory_simps [simp]:
  "repo_write_entry_with_outbox (in_memory D) = mem_write_entry_with_outbox D"
  "repo_get_entry (in_memory D) = mem_get_entry"
  "repo_query_entries (in_memory D) = mem_query_entries D"
  "repo_get_chain_tip (in_memory D) = mem_get_chain_tip"
  "repo_get_entries_by_type_paged (in_memory D) = mem_get_entries_by_type_paged"
  "repo_find_idempotent (in_memory D) = mem_find_idempotent"
  "repo_get_entry_by_hash (in_memory D) = mem_get_entry_by_hash"
  "repo_pending_outbox (in_memory D) = mem_pending_outbox"
  "repo_mark_outbox_delivered (in_memory D) = mem_mark_outbox_delivered"
  "repo_increment_outbox_attempt (in_memory D) = mem_increment_outbox_attempt"
  "repo_mark_outbox_failed (in_memory D) = mem_mark_outbox_failed"
  "repo_get_distinct_entry_types (in_memory D) = mem_get_distinct_entry_types"
  by (simp_all add: in_memory_def)

lemma answers_good [simp]: "answers reliable r r"
  by (simp add: answers_def)

lemma in_memory_paged:
  "\<lbrakk>1 \<le> limit; limit < 2 ^ 63; repo_get_entries_by_type_paged (in_memory D) t after limit s = (r, s')\<rbrakk>
    \<Longrightarrow> s' = s \<and> r = Inr (page (mem_chain s t) after (nat limit))"
  by (auto simp: mem_paged)

lemma in_memory_get_entry:
  assumes "mem_index_inv s" and "repo_get_entry (in_memory D) i s = (r, s')"
  shows "s' = s \<and>
    (case r of Inr e \<Rightarrow> e \<in> set (mem_chain s (le_entry_type e)) \<and> le_entry_id e = i
     | Inl err \<Rightarrow> err = NotFound \<and> i \<notin> le_entry_id ` all_entries (mem_chain s))"
proof (cases "hm_get (im_entries s) i")
  case None
  then have "i \<notin> le_entry_id ` all_entries (mem_chain s)"
    using index_inv_entry [OF assms(1)] by (auto simp: all_entries_mem_chain [OF assms(1)] ran_def)
  with None assms(2) show ?thesis by (auto simp: mem_get_entry_def)
next
  case (Some e)
  with assms index_inv_entry [OF assms(1) Some] show ?thesis
    by (auto simp: mem_get_entry_def set_mem_chain)
qed

lemma in_memory_by_hash:
  assumes "mem_index_inv s" and "repo_get_entry_by_hash (in_memory D) t h s = (r, s')"
  shows "s' = s \<and>
    (case r of Inr e \<Rightarrow> e \<in> set (mem_chain s t) \<and> le_entry_hash e = h
     | Inl err \<Rightarrow> err = NotFound \<and> h \<notin> le_entry_hash ` set (mem_chain s t))"
proof -
  have wf: "seed_ok (im_seed s)" "hm_wf (im_entries s)"
    using assms(1) by (simp_all add: mem_index_inv_def)
  show ?thesis
    using assms(2) find_ran [OF wf, of "\<lambda>e. le_entry_type e = t \<and> le_entry_hash e = h"]
      mem_chain_ran [OF assms(1)]
    by (cases "List.find (\<lambda>e. le_entry_type e = t \<and> le_entry_hash e = h)
        (hm_values (im_seed s) (im_entries s))") (fastforce simp: mem_get_entry_by_hash_def)+
qed

lemma in_memory_types:
  assumes "mem_index_inv s" and "repo_get_distinct_entry_types (in_memory D) s = (r, s')"
  shows "s' = s \<and> (\<exists>ts. r = Inr ts \<and> sorted ts \<and> distinct ts \<and> set ts = {t. mem_chain s t \<noteq> []})"
  using assms(2) mem_types [OF assms(1)]
  by (auto simp: mem_get_distinct_entry_types_def simp del: sorted_sort set_sort distinct_sort)

lemma mem_inv_store_inv: "mem_inv D s \<Longrightarrow> mem_store_inv s"
  unfolding mem_store_inv_def tip_matches_def
  by (auto simp: mem_inv_def entry_chain_tip_def intro!: positions_ok_ascending
      dest: ledger_inv_chain chain_inv_positions)

interpretation mem_store: entry_store "in_memory D" mem_store_inv True mem_chain for D
proof (unfold_locales, goal_cases)
  case (1 s t after limit r s')
  then show ?case using in_memory_paged [of limit D t after s r s'] by simp
next
  case (2 s i r s')
  then show ?case
    using in_memory_get_entry [of s D i r s'] by (auto simp: mem_store_inv_def split: sum.splits)
next
  case (3 s t r s')
  then have "tip_matches (mem_chain s t) (hm_get (im_chain_tips s) t)"
    by (simp add: mem_store_inv_def)
  with 3 show ?case
    by (auto simp: mem_get_chain_tip_def tip_matches_def split: option.splits)
next
  case (4 s r s')
  then show ?case using in_memory_types [of s D r s'] by (auto simp: mem_store_inv_def)
next
  case (5 s t h r s')
  then show ?case
    using in_memory_by_hash [of s D t h r s'] by (auto simp: mem_store_inv_def split: sum.splits)
next
  case (6 s t)
  then show ?case by (simp add: mem_store_inv_def)
next
  case (7 s e t)
  then show ?case by (simp add: mem_store_inv_def set_mem_chain)
next
  case (8 s)
  then show ?case by (simp add: mem_store_inv_def mem_ids_inj)
qed

lemma in_memory_write:
  assumes inv: "mem_inv D s" and fresh: "fresh_draws (mem_chain s) (mem_outboxes s) d"
    and run: "repo_write_entry_with_outbox (in_memory D) d input s = (r, s')"
  shows "mem_inv D s' \<and>
    write_spec D (\<lambda>ts. ts) True d input (mem_chain s) (mem_outboxes s) r (mem_chain s') (mem_outboxes s')"
proof -
  let ?es = "mem_chain s (wi_entry_type input)"
  note run' = run [unfolded in_memory_def ledger_repository.simps mem_write_cases [OF inv] Let_def]
  consider (used) "key_used (wi_idempotency_key input) ?es"
    | (unlinked) "\<not> key_used (wi_idempotency_key input) ?es" "\<not> link_ok (wi_previous_hash input) ?es"
    | (ok) "\<not> key_used (wi_idempotency_key input) ?es" "link_ok (wi_previous_hash input) ?es"
    by blast
  then show ?thesis
  proof cases
    case used
    with run' inv show ?thesis by (auto simp: write_spec_def)
  next
    case unlinked
    with run' inv show ?thesis by (auto simp: write_spec_def)
  next
    case ok
    with run' have "s' = mem_after_write D d input s"
      and "r = Inr \<lparr>wr_entry = next_entry D (mem_chain s) d input,
        wr_outbox = (if wi_create_outbox input then Some (next_outbox D (mem_chain s) d input) else None)\<rparr>"
      by auto
    with mem_inv_after_write [OF inv fresh ok(2) ok(1)] ok show ?thesis
      by (simp add: write_spec_def next_entry_def new_entry_def)
  qed
qed

lemma mem_tip_exact:
  assumes "mem_inv D s"
  shows "mem_get_chain_tip t s =
    (if mem_chain s t = [] then Inl NotFound else Inr (entry_chain_tip (last (mem_chain s t))), s)"
  using assms by (simp add: mem_get_chain_tip_def mem_inv_def)

lemma mem_find_idempotent_eq:
  assumes inv: "mem_inv D s"
  shows "mem_find_idempotent t k s = (Inr (List.find (with_key k) (mem_chain s t)), s)"
proof (cases "List.find (with_key k) (mem_chain s t)")
  case None
  with inv show ?thesis by (simp add: mem_find_idempotent_def mem_inv_def)
next
  case (Some e)
  then have "e \<in> set (mem_chain s t)" by (auto simp: find_Some_iff)
  with inv have "hm_get (im_entries s) (le_entry_id e) = Some e"
    by (simp add: mem_inv_def set_mem_chain)
  with inv Some show ?thesis by (simp add: mem_find_idempotent_def mem_inv_def)
qed

interpretation mem_ledger: ledger_store "in_memory D" "mem_inv D" True mem_chain D mem_outboxes
    "\<lambda>ts. ts" "\<lambda>_. True" for D
proof (unfold_locales, goal_cases)
  case (1 s t after limit r s')
  then show ?case using in_memory_paged [of limit D t after s r s'] by simp
next
  case (2 s i r s')
  then show ?case
    using in_memory_get_entry [of s D i r s'] by (auto simp: mem_inv_def split: sum.splits)
next
  case (3 s t r s')
  then show ?case by (auto simp: mem_tip_exact entry_chain_tip_def split: if_splits)
next
  case (4 s r s')
  then show ?case using in_memory_types [of s D r s'] by (auto simp: mem_inv_def)
next
  case (5 s t h r s')
  then show ?case
    using in_memory_by_hash [of s D t h r s'] by (auto simp: mem_inv_def split: sum.splits)
next
  case (6 s t)
  then show ?case by (metis mem_inv_positions positions_ok_ascending)
next
  case (7 s e t)
  then show ?case by (simp add: mem_inv_def set_mem_chain)
next
  case (8 s)
  then show ?case by (simp add: mem_inv_def mem_ids_inj)
next
  case (9 s)
  then show ?case by (simp add: mem_inv_def)
next
  case (10 s d input r s')
  then show ?case using in_memory_write by blast
next
  case (11 input)
  show ?case by (rule refl)
next
  case (12 s t r s')
  then show ?case by (auto simp: mem_tip_exact)
next
  case (13 s t k r s')
  then show ?case by (auto simp: mem_find_idempotent_eq)
qed

lemma mem_update_outbox_eq:
  assumes "mem_outboxes s i = Some x" and "mem_update_outbox f i s = (r, s')"
  shows "r = Inr () \<and> s' = s\<lparr>im_outbox := hm_insert i (f x) (im_outbox s)\<rparr>
    \<and> mem_outboxes s' = (mem_outboxes s)(i \<mapsto> f x)"
  using assms by (auto simp: mem_update_outbox_def mem_outboxes_def)

lemma mem_chain_outbox_update [simp]: "mem_chain (s\<lparr>im_outbox := m\<rparr>) = mem_chain s"
  by (rule ext) (simp add: mem_chain_def split: option.split)

lemma mem_inv_outbox_update:
  assumes "mem_inv D s" and "ob_outbox_id y = i"
  shows "mem_inv D (s\<lparr>im_outbox := hm_insert i y (im_outbox s)\<rparr>)"
  using assms by (simp add: mem_inv_def mem_index_inv_def)

lemma mem_outbox_key: "mem_inv D s \<Longrightarrow> mem_outboxes s i = Some x \<Longrightarrow> ob_outbox_id x = i"
  by (simp add: mem_inv_def mem_index_inv_def mem_outboxes_def)

lemma distinct_values_ids:
  assumes "seed_ok seed" and "hm_wf m" and "\<And>i x. hm_get m i = Some x \<Longrightarrow> f x = i"
  shows "distinct (map f (hm_values seed m))"
proof -
  have "map f (map snd m) = map fst m"
    using assms(2,3) by (auto simp: hm_get_def hm_wf_def)
  then have "distinct (map f (map snd m))"
    using assms(2) by (simp only: hm_wf_def)
  then have "distinct (iterate seed (map f (map snd m)))"
    by (rule distinct_iterate [OF assms(1)])
  moreover have "map f (hm_values seed m) = iterate seed (map f (map snd m))"
    using assms(1) by (auto simp: hm_values_def iterate_def seed_ok_def)
  ultimately show ?thesis by simp
qed

interpretation mem_outbox: outbox_store "in_memory D" "mem_inv D" True mem_chain mem_outboxes for D
proof (unfold_locales, goal_cases)
  case (1 s r s')
  then have wf: "seed_ok (im_seed s)" "hm_wf (im_outbox s)"
    by (simp_all add: mem_inv_def mem_index_inv_def)
  have "distinct (map ob_outbox_id (hm_values (im_seed s) (im_outbox s)))"
    by (rule distinct_values_ids [OF wf]) (use mem_outbox_key [OF 1(1)] in \<open>simp add: mem_outboxes_def\<close>)
  then have "distinct (map ob_outbox_id
      (filter (\<lambda>x. ob_status x = Pending) (hm_values (im_seed s) (im_outbox s))))"
    by (rule distinct_map_filter)
  with 1 set_hm_values [OF wf] show ?case
    by (auto simp: mem_pending_outbox_def mem_outboxes_def [abs_def])
next
  case (2 s i x r s')
  from mem_update_outbox_eq [OF 2(2), of "\<lambda>x. x\<lparr>ob_status := Delivered\<rparr>" r s'] 2 show ?case
    by (auto simp: mem_mark_outbox_delivered_def intro!: mem_inv_outbox_update dest: mem_outbox_key)
next
  case (3 s i x r s')
  from mem_update_outbox_eq [OF 3(2), of "\<lambda>x. x\<lparr>ob_attempt_count := ob_attempt_count x + 1\<rparr>" r s'] 3
  show ?case
    by (auto simp: mem_increment_outbox_attempt_def intro!: mem_inv_outbox_update dest: mem_outbox_key)
next
  case (4 s i x r s')
  from mem_update_outbox_eq [OF 4(2), of "\<lambda>x. x\<lparr>ob_status := Failed\<rparr>" r s'] 4 show ?case
    by (auto simp: mem_mark_outbox_failed_def intro!: mem_inv_outbox_update dest: mem_outbox_key)
next
  case (5 s i x)
  then show ?case by (rule mem_outbox_key)
qed

definition mem_view :: "third_party \<Rightarrow> inner \<Rightarrow> entry_query \<Rightarrow> ledger_entry_record list" where
  "mem_view D s q =
     sort_key (\<lambda>e. (timestamp_millis D (le_written_ts e), le_chain_position e))
       (apply_query_filters D q (hm_values (im_seed s) (im_entries s)))"

interpretation mem_query: query_store "in_memory D" "\<lambda>_. True" True "mem_view D" for D
  by unfold_locales
    (auto simp: mem_query_entries_def mem_view_def Let_def apply_query_filters_def)

lemma mem_inv_default: "seed_ok seed \<Longrightarrow> mem_inv D (mem_default seed)"
proof -
  assume "seed_ok seed"
  moreover have "mem_chain (mem_default seed) = (\<lambda>_. [])"
    by (rule ext) (simp add: mem_chain_def mem_default_def)
  ultimately show ?thesis
    by (simp add: mem_inv_def mem_index_inv_def ledger_inv_def all_entries_def)
      (simp add: mem_default_def)
qed

section \<open>Reads leave the store as it is\<close>

lemma in_memory_reads_keep: "reads_keep (in_memory D) Q"
  by (simp add: reads_keep_def mem_get_entries_by_type_paged_def mem_get_entry_def mem_get_chain_tip_def
      mem_get_distinct_entry_types_def mem_get_entry_by_hash_def split: option.splits)

text \<open>
  The same interface with the invariant pinned to one state: whatever only reads through it
  leaves the store unchanged.
\<close>

interpretation mem_at: entry_store "in_memory D" "\<lambda>s. mem_store_inv s \<and> s = s0" True mem_chain for D s0
  by (rule mem_store.pin [OF in_memory_reads_keep])

end
