(* ===== verification/Ledger_System.thy ===== *)
theory Ledger_System
  imports Query Outbox Verifier
begin

text \<open>
  The service as a whole over any repository: its step relation (writes, receipts, reads,
  queries, outbox passes and audits, in any order) and the invariant of its reachable
  states, proved once for every repository that meets the interfaces.
\<close>

section \<open>The step relation\<close>

text \<open>
  A repository with what its states mean: the chains and the outbox; and what the runs of a
  model assume of an append: the inputs they write, and whether the UUIDs they draw are unused.
\<close>

record 's store_model =
  sm_repo :: "'s ledger_repository"
  sm_chain :: "'s \<Rightarrow> ledger"
  sm_outbox :: "'s \<Rightarrow> outboxes"
  sm_storable :: "entry_write_input \<Rightarrow> bool"
  sm_unused :: bool

text \<open>What the model assumes of a write.\<close>

definition write_ready ::
    "third_party \<Rightarrow> 's store_model \<Rightarrow> publisher \<Rightarrow> app_config \<Rightarrow> write_env \<Rightarrow> write_entry_input \<Rightarrow>
     's service_state \<Rightarrow> bool" where
  "write_ready D M P cfg env input st \<longleftrightarrow>
     (sm_unused M \<longrightarrow> all_fresh env (sm_chain M (ss_repo st)) (sm_outbox M (ss_repo st)))
     \<and> all_storable (sm_storable M) D P cfg env input (sm_chain M (ss_repo st))"

text \<open>Audits and reads.\<close>

inductive read_step ::
    "third_party \<Rightarrow> 's store_model \<Rightarrow> app_config \<Rightarrow> 's service_state \<Rightarrow> 's service_state \<Rightarrow> bool"
  for D M cfg where
  verifies_chain: "verify_chain D (sm_repo M) cfg t s_id e_id st = Some (r, st') \<Longrightarrow> read_step D M cfg st st'"
| verifies_recent: "verify_recent_chain D (sm_repo M) cfg t n st = Some (r, st') \<Longrightarrow> read_step D M cfg st st'"
| verifies_entry: "verify_entry D (sm_repo M) cfg i st = (r, st') \<Longrightarrow> read_step D M cfg st st'"
| verifies_proof: "verify_proof D (sm_repo M) t h st = (r, st') \<Longrightarrow> read_step D M cfg st st'"
| gets: "get_entry (sm_repo M) i st = (r, st') \<Longrightarrow> read_step D M cfg st st'"
| gets_by_hash: "get_entry_by_hash (sm_repo M) t h st = (r, st') \<Longrightarrow> read_step D M cfg st st'"
| gets_tip: "get_chain_tip (sm_repo M) t st = (r, st') \<Longrightarrow> read_step D M cfg st st'"
| gets_types: "get_distinct_entry_types (sm_repo M) st = (r, st') \<Longrightarrow> read_step D M cfg st st'"
| queries: "query_entries (sm_repo M) q st = (r, st') \<Longrightarrow> read_step D M cfg st st'"

text \<open>Everything but writing: the outbox processor, the audits and the reads.\<close>

inductive background_step ::
    "third_party \<Rightarrow> 's store_model \<Rightarrow> publisher \<Rightarrow> app_config \<Rightarrow> 's service_state \<Rightarrow> 's service_state \<Rightarrow> bool"
  for D M P cfg where
  publishes: "starts_outbox_processor P \<Longrightarrow>
    background_step D M P cfg st (outbox_iteration P (sm_repo M) cfg st)"
| reads: "read_step D M cfg st st' \<Longrightarrow> background_step D M P cfg st st'"

inductive service_step ::
    "third_party \<Rightarrow> 's store_model \<Rightarrow> publisher \<Rightarrow> app_config \<Rightarrow> 's service_state \<Rightarrow> 's service_state \<Rightarrow> bool"
  for D M P cfg where
  writes: "write_ready D M P cfg env input st \<Longrightarrow>
    write_entry D (sm_repo M) P cfg env input st = (r, st') \<Longrightarrow> service_step D M P cfg st st'"
| receipts: "write_ready D M P cfg env input st \<Longrightarrow>
    issue_receipt D (sm_repo M) P cfg env input st = (r, st') \<Longrightarrow> service_step D M P cfg st st'"
| background: "background_step D M P cfg st st' \<Longrightarrow> service_step D M P cfg st st'"

inductive reachable ::
    "third_party \<Rightarrow> 's store_model \<Rightarrow> publisher \<Rightarrow> app_config \<Rightarrow> 's service_state \<Rightarrow> 's service_state \<Rightarrow> bool"
  for D M P cfg where
  here: "reachable D M P cfg st st"
| later: "reachable D M P cfg st st' \<Longrightarrow> service_step D M P cfg st' st'' \<Longrightarrow> reachable D M P cfg st st''"

section \<open>The invariant\<close>

definition system_inv ::
    "('s \<Rightarrow> bool) \<Rightarrow> 's store_model \<Rightarrow> third_party \<Rightarrow> app_config \<Rightarrow> 's service_state \<Rightarrow> bool" where
  "system_inv ok M D cfg st \<longleftrightarrow> ok (ss_repo st) \<and> rooted D cfg (sm_chain M (ss_repo st))
     \<and> delivered_logged (sm_outbox M (ss_repo st)) (ss_publish_log st)"

text \<open>Every chain of the first state is a prefix of the same chain in the second.\<close>

definition extends :: "ledger \<Rightarrow> ledger \<Rightarrow> bool" where
  "extends L L' \<longleftrightarrow> (\<forall>t. \<exists>es. L' t = L t @ es)"

text \<open>A step keeps the invariant and every entry that was there.\<close>

definition keeps ::
    "('s \<Rightarrow> bool) \<Rightarrow> 's store_model \<Rightarrow> third_party \<Rightarrow> app_config \<Rightarrow> 's service_state \<Rightarrow> 's service_state \<Rightarrow> bool" where
  "keeps ok M D cfg st st' \<longleftrightarrow> system_inv ok M D cfg st'
     \<and> extends (sm_chain M (ss_repo st)) (sm_chain M (ss_repo st'))"

lemma extends_refl [simp]: "extends L L"
  by (simp add: extends_def)

lemma extends_trans: "extends L M \<Longrightarrow> extends M N \<Longrightarrow> extends L N"
  unfolding extends_def by (metis append.assoc)

lemma append_only_extends: "append_only t L L' \<Longrightarrow> extends L L'"
  unfolding append_only_def extends_def by (metis append_Nil2)

lemma issue_receipt_write:
  assumes "issue_receipt D R P cfg env input st = (r, st')"
  shows "\<exists>w. write_entry D R P cfg env input st = (w, st')"
  using assms by (auto simp: issue_receipt_def split: prod.splits sum.splits)

lemma write_entry_log: "write_entry D R P cfg env input st = (r, st') \<Longrightarrow> ss_publish_log st' = ss_publish_log st"
  by (auto simp: write_entry_def impl_frame_def dest!: write_entry_impl_frame split: prod.splits)

lemma delivered_logged_append:
  assumes "delivered_logged ob log" and "ob' = append_outbox D L ob d w"
  shows "delivered_logged ob' log"
  using assms by (auto simp: delivered_logged_def append_outbox_def next_outbox_def new_outbox_def)

lemma observes_frame:
  assumes "observes (\<lambda>s. ok s \<and> outbox s = ob) stored st st'"
  shows "ok (ss_repo st') \<and> outbox (ss_repo st') = ob \<and> stored (ss_repo st') = stored (ss_repo st)
    \<and> ss_publish_log st' = ss_publish_log st"
  using assms unfolding observes_def reads_def count_failure_def
  by (auto split: if_splits) (metis service_state.select_convs(6) service_state.surjective service_state.update_convs(1))+

text \<open>A read changes nothing but the failure counter, over any store that meets the reading interface.\<close>

lemma map_err_repo_state: "map_err_repo x = (r, st') \<Longrightarrow> \<exists>q. x = (q, st')"
  by (auto simp: map_err_repo_def split: prod.splits sum.splits)

lemma read_step_observes:
  assumes E: "entry_store (sm_repo M) ok rel (sm_chain M)" and ok: "ok (ss_repo st)"
    and query: "\<And>q r s'. repo_query_entries (sm_repo M) q (ss_repo st) = (r, s') \<Longrightarrow>
      ok s' \<and> sm_chain M s' = sm_chain M (ss_repo st)"
    and step: "read_step D M cfg st st'"
  shows "observes ok (sm_chain M) st st'"
  using step
proof cases
  case (verifies_chain t s_id e_id r)
  then show ?thesis using entry_store.verify_chain_returns [OF E ok, of D cfg t s_id e_id] by auto
next
  case (verifies_recent t n r)
  then show ?thesis using entry_store.verify_recent_chain_returns [OF E ok, of D cfg t n] by auto
next
  case (verifies_entry i r)
  then show ?thesis using reads_observes entry_store.verify_entry_reads [OF E ok] by blast
next
  case (verifies_proof t h r)
  then show ?thesis using reads_observes entry_store.verify_proof_found(1) [OF E ok] by blast
next
  case (gets i r)
  then obtain q where "on_repo (repo_get_entry (sm_repo M) i) st = (q, st')"
    unfolding get_entry_def by (blast dest: map_err_repo_state)
  then show ?thesis using reads_observes entry_store.on_repo_get_entry(1) [OF E ok] by blast
next
  case (gets_by_hash t h r)
  then obtain q where "on_repo (repo_get_entry_by_hash (sm_repo M) t h) st = (q, st')"
    unfolding get_entry_by_hash_def by (blast dest: map_err_repo_state)
  with entry_store.by_hash_law [OF E ok] show ?thesis by (intro reads_observes) (auto simp: on_repo_eq reads_def)
next
  case (gets_tip t r)
  then obtain q where "on_repo (repo_get_chain_tip (sm_repo M) t) st = (q, st')"
    unfolding get_chain_tip_def by (blast dest: map_err_repo_state)
  with entry_store.tip_law [OF E ok] show ?thesis by (intro reads_observes) (auto simp: on_repo_eq reads_def)
next
  case (gets_types r)
  then obtain q where "on_repo (repo_get_distinct_entry_types (sm_repo M)) st = (q, st')"
    unfolding get_distinct_entry_types_def by (blast dest: map_err_repo_state)
  with entry_store.types_law [OF E ok] show ?thesis by (intro reads_observes) (auto simp: on_repo_eq reads_def)
next
  case (queries q r)
  obtain x s' where x: "repo_query_entries (sm_repo M) (query_of q) (ss_repo st) = (x, s')" by fastforce
  with queries have "st' = st\<lparr>ss_repo := s'\<rparr>"
    by (auto simp: query_entries_def query_of_def on_repo_def Let_def split: sum.splits)
  with query [OF x] show ?thesis by (intro reads_observes) (simp add: reads_def)
qed

text \<open>
  Beside the four interfaces, a repository must not let its reads touch the outbox: each of
  them satisfies the reading interface with the outbox pinned. The lemmas are about runs that
  draw unused UUIDs.
\<close>

locale ledger_system = ledger_store "sm_repo M" inv reliable "sm_chain M" D "sm_outbox M" clip "sm_storable M"
    + outbox_store "sm_repo M" inv reliable "sm_chain M" "sm_outbox M"
  for M :: "'s store_model" and inv :: "'s \<Rightarrow> bool" and reliable :: bool and D :: third_party
    and clip :: "datetime \<Rightarrow> datetime" +
  assumes unused: "sm_unused M"
    and pinned: "entry_store (sm_repo M) (\<lambda>s. inv s \<and> sm_outbox M s = ob) reliable (sm_chain M)"
    and query_keeps: "inv s \<Longrightarrow> repo_query_entries (sm_repo M) q s = (r, s')
      \<Longrightarrow> inv s' \<and> sm_chain M s' = sm_chain M s \<and> sm_outbox M s' = sm_outbox M s"
begin

lemma keeps_write:
  assumes sys: "system_inv inv M D cfg st" and "write_ready D M P cfg env input st"
    and "genesis_hash D cfg \<noteq> []" and out: "write_entry D (sm_repo M) P cfg env input st = (r, st')"
  shows "keeps inv M D cfg st st'"
proof -
  have "inv (ss_repo st)" using sys by (simp add: system_inv_def)
  with write_entry_outcome [OF _ _ _ assms(3,4)] assms(2) have W: "inv (ss_repo st')"
    "write_outcome D P cfg (clip_env clip env) input reliable
      (is_halted cfg (en_check_time env) (we_entry_type input) st) (sm_chain M (ss_repo st))
      (sm_outbox M (ss_repo st)) r (sm_chain M (ss_repo st')) (sm_outbox M (ss_repo st'))"
    by (simp_all add: write_ready_def unused)
  have "delivered_logged (sm_outbox M (ss_repo st')) (ss_publish_log st')"
    using sys outcome_unchanged_or_appended [OF W(2)] write_entry_log [OF out]
    by (auto simp: system_inv_def appended_def delivered_logged_append)
  with sys W(1) outcome_rooted [OF W(2)] append_only_extends [OF outcome_append_only [OF W(2)]]
  show ?thesis by (simp add: keeps_def system_inv_def)
qed

text \<open>Reads change nothing that is stored.\<close>

lemma read_frame:
  assumes step: "read_step D M cfg st st'" and inv: "inv (ss_repo st)"
  shows "inv (ss_repo st') \<and> sm_chain M (ss_repo st') = sm_chain M (ss_repo st)
    \<and> sm_outbox M (ss_repo st') = sm_outbox M (ss_repo st) \<and> ss_publish_log st' = ss_publish_log st"
proof -
  let ?ob = "sm_outbox M (ss_repo st)"
  have pin: "inv (ss_repo st) \<and> sm_outbox M (ss_repo st) = ?ob" using inv by simp
  have "observes (\<lambda>s. inv s \<and> sm_outbox M s = ?ob) (sm_chain M) st st'"
    by (rule read_step_observes [OF pinned pin _ step]) (use query_keeps [OF inv] in simp)
  from observes_frame [OF this] show ?thesis by simp
qed

text \<open>Background steps change no chain and mark no event delivered that the sink did not accept.\<close>

lemma background_frame:
  assumes step: "background_step D M P cfg st st'" and inv: "inv (ss_repo st)"
  shows "inv (ss_repo st') \<and> sm_chain M (ss_repo st') = sm_chain M (ss_repo st)
    \<and> (delivered_logged (sm_outbox M (ss_repo st)) (ss_publish_log st)
        \<longrightarrow> delivered_logged (sm_outbox M (ss_repo st')) (ss_publish_log st'))"
  using step
proof cases
  case publishes
  then show ?thesis using outbox_iteration_safe [OF inv] by blast
next
  case reads
  then show ?thesis using read_frame [OF _ inv] by simp
qed

theorem step_keeps:
  assumes step: "service_step D M P cfg st st'" and sys: "system_inv inv M D cfg st"
    and g: "genesis_hash D cfg \<noteq> []"
  shows "keeps inv M D cfg st st'"
  using step
proof cases
  case (writes env input r)
  then show ?thesis using keeps_write [OF sys _ g] by blast
next
  case (receipts env input r)
  then show ?thesis using keeps_write [OF sys _ g] issue_receipt_write by blast
next
  case background
  then show ?thesis using background_frame sys by (simp add: keeps_def system_inv_def)
qed

theorem reachable_keeps:
  assumes "reachable D M P cfg st st'" and "system_inv inv M D cfg st" and "genesis_hash D cfg \<noteq> []"
  shows "keeps inv M D cfg st st'"
  using assms
proof (induction rule: reachable.induct)
  case (later st st' st'')
  with step_keeps [OF later.hyps(2)] show ?case by (auto simp: keeps_def intro: extends_trans)
qed (simp add: keeps_def)

text \<open>On a repository that does not fail the books of the outbox balance.\<close>

lemma accounted_write:
  assumes "system_inv inv M D cfg st" and ready: "write_ready D M P cfg env input st" and "genesis_hash D cfg \<noteq> []"
    and out: "write_entry D (sm_repo M) P cfg env input st = (r, st')"
    and acc: "accounted m (sm_outbox M (ss_repo st)) (ss_publish_log st)"
  shows "accounted m (sm_outbox M (ss_repo st')) (ss_publish_log st')"
proof -
  have "inv (ss_repo st)" using assms(1) by (simp add: system_inv_def)
  with write_entry_outcome [OF _ _ _ assms(3) out] ready have "write_outcome D P cfg (clip_env clip env) input reliable
      (is_halted cfg (en_check_time env) (we_entry_type input) st) (sm_chain M (ss_repo st))
      (sm_outbox M (ss_repo st)) r (sm_chain M (ss_repo st')) (sm_outbox M (ss_repo st'))"
    by (simp add: write_ready_def unused)
  moreover have "sm_outbox M (ss_repo st) (dr_outbox_id (en_draws (clip_env clip env) 0)) = None"
    using ready by (simp add: write_ready_def unused all_fresh_def fresh_draws_def clip_env_def)
  ultimately show ?thesis
    using outcome_unchanged_or_appended acc accounted_new [OF acc] write_entry_log [OF out]
    by (fastforce simp: appended_def append_outbox_def next_outbox_def new_outbox_def)
qed

theorem reachable_accounted:
  assumes "reachable D M P cfg st st'" and "system_inv inv M D cfg st" and "genesis_hash D cfg \<noteq> []" and reliable
    and "accounted (cfg_outbox_max_retries cfg) (sm_outbox M (ss_repo st)) (ss_publish_log st)"
  shows "accounted (cfg_outbox_max_retries cfg) (sm_outbox M (ss_repo st')) (ss_publish_log st')"
  using assms
proof (induction rule: reachable.induct)
  case (later st st' st'')
  have sys: "system_inv inv M D cfg st'"
    using reachable_keeps [OF later.hyps(1) later.prems(1,2)] by (simp add: keeps_def)
  have acc: "accounted (cfg_outbox_max_retries cfg) (sm_outbox M (ss_repo st')) (ss_publish_log st')"
    by (rule later.IH [OF later.prems])
  have inv: "inv (ss_repo st')" using sys by (simp add: system_inv_def)
  from later.hyps(2) show ?case
  proof cases
    case (writes env input r)
    then show ?thesis using accounted_write [OF sys _ later.prems(2) _ acc] by blast
  next
    case (receipts env input r)
    then show ?thesis using accounted_write [OF sys _ later.prems(2) _ acc] issue_receipt_write by blast
  next
    case background
    then show ?thesis
    proof cases
      case publishes
      then show ?thesis using outbox_iteration_accounted [OF inv later.prems(3) _ acc] by blast
    next
      case reads
      then show ?thesis using read_frame [OF _ inv] acc by simp
    qed
  qed
qed

end

end
