(* ===== verification/Tamper_Evidence.thy ===== *)
theory Tamper_Evidence
  imports Verification_Correct
begin

text \<open>
  What an accepted chain proves. Two runs of entries that both check from the same genesis
  and end in the same hash agree, entry by entry, on everything their hashes commit to,
  or an explicit SHA-256 collision is among the byte strings that were hashed.
\<close>

definition preimage :: "third_party \<Rightarrow> ledger_entry_record \<Rightarrow> u8 list" where
  "preimage D e = canonical_bytes D (le_hash_version e) (entry_hash_input D e)"

definition preimages :: "third_party \<Rightarrow> string \<Rightarrow> ledger_entry_record list \<Rightarrow> u8 list set" where
  "preimages D genesis_input es = insert (as_bytes genesis_input) (preimage D ` set es)"

definition commitment ::
    "third_party \<Rightarrow> ledger_entry_record \<Rightarrow> string \<times> canonical_entry_hash_input" where
  "commitment D e = (le_hash_version e, committed (le_hash_version e) (entry_hash_input D e))"

definition collide :: "third_party \<Rightarrow> u8 list set \<Rightarrow> u8 list set \<Rightarrow> bool" where
  "collide D X Y \<longleftrightarrow> (\<exists>x \<in> X. \<exists>y \<in> Y. sha256_collision D x y)"

text \<open>
  A genesis input shorter than the version header of the envelope (24 bytes) is not
  itself the encoding of an entry. The default, \<open>ARE_LEDGER_GENESIS\<close>, has 18.
\<close>

definition short_genesis :: "string \<Rightarrow> bool" where
  "short_genesis genesis_input \<longleftrightarrow> length genesis_input < 24"

lemma canonical_bytes_long: "24 \<le> length (canonical_bytes D v i)"
  by (simp add: canonical_bytes_def canonical_bytes_v2_def canonical_bytes_v3_def append_fields_concat
      ENTRY_HASH_VERSION_V2_def ENTRY_HASH_VERSION_V3_def)

lemma preimage_not_genesis: "short_genesis g \<Longrightarrow> preimage D e \<noteq> as_bytes g"
  using canonical_bytes_long [of D "le_hash_version e" "entry_hash_input D e"]
  by (auto simp: short_genesis_def preimage_def)

lemma hash_ok_preimage: "hash_ok D e \<Longrightarrow> le_entry_hash e = sha256_hex D (preimage D e)"
  unfolding hash_ok_def recompute_hash_def preimage_def by (rule hash_for_version_SomeD(2))

lemma sha256_hex_collision:
  "encodings_ok D \<Longrightarrow> sha256_hex D x = sha256_hex D y \<Longrightarrow> x \<noteq> y \<Longrightarrow> sha256_collision D x y"
  by (simp add: sha256_hex_def sha256_collision_def encodings_ok_hex)

lemma collideI: "x \<in> X \<Longrightarrow> y \<in> Y \<Longrightarrow> sha256_collision D x y \<Longrightarrow> collide D X Y"
  unfolding collide_def by blast

lemma collide_mono: "collide D X Y \<Longrightarrow> X \<subseteq> X' \<Longrightarrow> Y \<subseteq> Y' \<Longrightarrow> collide D X' Y'"
  unfolding collide_def by blast

lemma equal_hash_commitment:
  assumes "encodings_ok D" and "hash_ok D a" and "hash_ok D b" and "le_entry_hash a = le_entry_hash b"
    and "\<not> sha256_collision D (preimage D a) (preimage D b)"
  shows "commitment D a = commitment D b"
  using equal_hash_committed [of D "le_hash_version a" "entry_hash_input D a" "le_entry_hash b"
      "le_hash_version b" "entry_hash_input D b"] assms
  by (auto simp: hash_ok_def recompute_hash_def commitment_def preimage_def)

lemma commitment_previous: "commitment D a = commitment D b \<Longrightarrow> le_previous_hash a = le_previous_hash b"
proof -
  have "ch_previous_hash (snd (commitment D e)) = le_previous_hash e" for e
    by (simp add: commitment_def committed_def committed_v2_def committed_v3_def entry_hash_input_def)
  then show "commitment D a = commitment D b \<Longrightarrow> le_previous_hash a = le_previous_hash b" by metis
qed

lemma genesis_hash_collision:
  assumes "encodings_ok D" and "short_genesis g" and "hash_ok D e"
    and "le_entry_hash e = sha256_hex D (as_bytes g)"
  shows "sha256_collision D (preimage D e) (as_bytes g)"
  using assms hash_ok_preimage [OF assms(3)] preimage_not_genesis [OF assms(2), of D e]
  by (auto intro: sha256_hex_collision)

lemma collision_sym: "sha256_collision D x y \<Longrightarrow> sha256_collision D y x"
  by (auto simp: sha256_collision_def)

lemma intact_snoc:
  "intact D p (es @ [e]) \<longleftrightarrow> intact D p es \<and> le_previous_hash e = tip_hash_of p es \<and> hash_ok D e"
  by (simp add: intact_simps entry_fault_None)

theorem intact_chains_agree:
  assumes enc: "encodings_ok D" and short: "short_genesis g" and g: "p = sha256_hex D (as_bytes g)"
    and "intact D p es" and "intact D p es'" and "tip_hash_of p es = tip_hash_of p es'"
  shows "map (commitment D) es = map (commitment D) es' \<or> collide D (preimages D g es) (preimages D g es')"
  using assms(4-)
proof (induction es arbitrary: es' rule: rev_induct)
  case Nil
  show ?case
  proof (cases es' rule: rev_cases)
    case (snoc ys y)
    with Nil g have "sha256_collision D (preimage D y) (as_bytes g)"
      by (auto intro!: genesis_hash_collision [OF enc short] simp: intact_snoc tip_hash_of_simps)
    from collision_sym [OF this] snoc show ?thesis
      by (auto intro!: collideI [of "as_bytes g" _ "preimage D y"] simp: preimages_def)
  qed simp
next
  case (snoc x xs)
  show ?case
  proof (cases es' rule: rev_cases)
    case Nil
    with snoc.prems g have "sha256_collision D (preimage D x) (as_bytes g)"
      by (auto intro!: genesis_hash_collision [OF enc short] simp: intact_snoc tip_hash_of_simps)
    then show ?thesis by (auto intro!: collideI [of "preimage D x" _ "as_bytes g"] simp: preimages_def)
  next
    case (snoc ys y)
    show ?thesis
    proof (cases "sha256_collision D (preimage D x) (preimage D y)")
      case True
      with \<open>es' = ys @ [y]\<close> show ?thesis
        by (auto intro!: collideI [of "preimage D x" _ "preimage D y"] simp: preimages_def)
    next
      case False
      have eq: "commitment D x = commitment D y"
        using snoc.prems \<open>es' = ys @ [y]\<close> False
        by (intro equal_hash_commitment [OF enc]) (simp_all add: intact_snoc tip_hash_of_simps)
      from commitment_previous [OF this] snoc.prems \<open>es' = ys @ [y]\<close>
      have "intact D p xs" "intact D p ys" "tip_hash_of p xs = tip_hash_of p ys"
        by (simp_all add: intact_snoc)
      from snoc.IH [OF this] show ?thesis
      proof
        assume "collide D (preimages D g xs) (preimages D g ys)"
        then have "collide D (preimages D g (xs @ [x])) (preimages D g es')"
          by (rule collide_mono) (auto simp: preimages_def \<open>es' = ys @ [y]\<close>)
        then show ?thesis ..
      qed (simp add: eq \<open>es' = ys @ [y]\<close>)
    qed
  qed
qed

end
