(* ===== verification/Grpc.thy ===== *)
theory Grpc
  imports Verification
begin

text \<open>
  The gRPC layer of \<open>src/grpc/mod.rs\<close>: the nine handlers of \<open>ImmutableLedgerGrpc\<close>,
  each turning a protobuf request into a service call and the answer into a protobuf
  response or a status. Messages are records; an absent protobuf field is the empty string,
  the empty byte vector or zero.
\<close>

section \<open>Messages and statuses\<close>

datatype grpc_code = Code_not_found | Code_invalid_argument | Code_already_exists
  | Code_unavailable | Code_internal | Code_unauthenticated

record status =
  st_code :: grpc_code
  st_message :: string

record pb_write_entry_request =
  wq_entry_type :: string
  wq_agent_id :: string
  wq_content :: "u8 list"
  wq_content_type :: string
  wq_source_id :: string
  wq_correlation_id :: string
  wq_idempotency_key :: string
  wq_input_hash :: string
  wq_writer_signature :: "u8 list"
  wq_signer_key_reference :: string
  wq_attestation_report :: "u8 list"

record pb_write_entry_response =
  ws_entry_id :: string
  ws_entry_hash :: string
  ws_chain_position :: string
  ws_written_ts :: i64
  ws_hash_version :: string

record pb_ledger_entry =
  pe_entry_id :: string
  pe_entry_type :: string
  pe_agent_id :: string
  pe_content :: "u8 list"
  pe_content_type :: string
  pe_source_id :: string
  pe_correlation_id :: string
  pe_entry_hash :: string
  pe_previous_hash :: string
  pe_chain_position :: i64
  pe_written_ts :: i64
  pe_idempotency_key :: string
  pe_input_hash :: string
  pe_writer_signature :: "u8 list"
  pe_signer_key_reference :: string
  pe_attestation_report :: "u8 list"
  pe_hash_version :: string

record pb_query_entries_request =
  qq_entry_type :: string
  qq_agent_id :: string
  qq_source_id :: string
  qq_correlation_id :: string
  qq_from_ts :: i64
  qq_to_ts :: i64
  qq_page_size :: int
  qq_page_token :: string

record pb_query_entries_response =
  qs_entries :: "pb_ledger_entry list"
  qs_next_page_token :: string
  qs_total_count :: i64

record pb_verify_entry_response =
  vs_entry_id :: string
  vs_hash_valid :: bool
  vs_chain_link_valid :: bool
  vs_failure_reason :: string

record pb_verify_chain_request =
  cq_entry_type :: string
  cq_start_entry_id :: string
  cq_end_entry_id :: string

record pb_verify_chain_response =
  cs_chain_valid :: bool
  cs_entries_checked :: i64
  cs_first_invalid_entry_id :: string
  cs_failure_reason :: string

record pb_chain_tip_response =
  ts_entry_id :: string
  ts_entry_hash :: string
  ts_chain_position :: i64
  ts_written_ts :: i64
  ts_hash_version :: string

record pb_proof_receipt =
  rc_entry_hash :: string
  rc_entry_type :: string
  rc_chain_position :: i64
  rc_written_ts :: i64
  rc_entry_id :: string
  rc_input_hash :: string
  rc_writer_signature :: "u8 list"
  rc_signer_key_reference :: string
  rc_attestation_report :: "u8 list"
  rc_hash_version :: string

section \<open>Conversions\<close>

fun map_err :: "service_error \<Rightarrow> status" where
  "map_err SvcNotFound = \<lparr>st_code = Code_not_found, st_message = ''not found''\<rparr>"
| "map_err (InvalidArgument message) = \<lparr>st_code = Code_invalid_argument, st_message = message\<rparr>"
| "map_err (AlreadyExists message) = \<lparr>st_code = Code_already_exists, st_message = message\<rparr>"
| "map_err SvcUnavailable = \<lparr>st_code = Code_unavailable, st_message = ''unavailable''\<rparr>"
| "map_err (Internal message) = \<lparr>st_code = Code_internal, st_message = message\<rparr>"

definition invalid_argument :: "string \<Rightarrow> status" where
  "invalid_argument message = \<lparr>st_code = Code_invalid_argument, st_message = message\<rparr>"

definition parse_uuid :: "third_party \<Rightarrow> string \<Rightarrow> status + uuid" where
  "parse_uuid D raw =
     (case uuid_from_str D raw of
        Some u \<Rightarrow> Inr u
      | None \<Rightarrow> Inl (invalid_argument ''must be valid UUID''))"

definition empty_to_none :: "'a list \<Rightarrow> 'a list option" where
  "empty_to_none value = (if value = [] then None else Some value)"

definition zero_to_none :: "i64 \<Rightarrow> i64 option" where
  "zero_to_none value = (if value = 0 then None else Some value)"

definition write_input_of_request :: "pb_write_entry_request \<Rightarrow> write_entry_input" where
  "write_input_of_request input =
     \<lparr>we_entry_type = wq_entry_type input,
      we_agent_id = wq_agent_id input,
      we_content = wq_content input,
      we_content_type = wq_content_type input,
      we_source_id = wq_source_id input,
      we_correlation_id = empty_to_none (wq_correlation_id input),
      we_idempotency_key = empty_to_none (wq_idempotency_key input),
      we_input_hash = empty_to_none (wq_input_hash input),
      we_writer_signature = empty_to_none (wq_writer_signature input),
      we_signer_key_reference = empty_to_none (wq_signer_key_reference input),
      we_attestation_report = empty_to_none (wq_attestation_report input)\<rparr>"

definition pb_entry :: "third_party \<Rightarrow> ledger_entry_record \<Rightarrow> pb_ledger_entry" where
  "pb_entry D entry =
     \<lparr>pe_entry_id = uuid_to_string D (le_entry_id entry),
      pe_entry_type = le_entry_type entry,
      pe_agent_id = le_agent_id entry,
      pe_content = le_content entry,
      pe_content_type = le_content_type entry,
      pe_source_id = le_source_id entry,
      pe_correlation_id = unwrap_or_default (le_correlation_id entry),
      pe_entry_hash = le_entry_hash entry,
      pe_previous_hash = le_previous_hash entry,
      pe_chain_position = le_chain_position entry,
      pe_written_ts = timestamp_millis D (le_written_ts entry),
      pe_idempotency_key = unwrap_or_default (le_idempotency_key entry),
      pe_input_hash = unwrap_or_default (le_input_hash entry),
      pe_writer_signature = unwrap_or_default (le_writer_signature entry),
      pe_signer_key_reference = unwrap_or_default (le_signer_key_reference entry),
      pe_attestation_report = unwrap_or_default (le_attestation_report entry),
      pe_hash_version = le_hash_version entry\<rparr>"

text \<open>\<open>map_err(map_err)?\<close>, then building the response.\<close>

definition respond :: "('a \<Rightarrow> 'b) \<Rightarrow> (service_error + 'a) \<times> 't \<Rightarrow> (status + 'b) \<times> 't" where
  "respond f x = (case x of (Inl e, st) \<Rightarrow> (Inl (map_err e), st) | (Inr y, st) \<Rightarrow> (Inr (f y), st))"

section \<open>Handlers\<close>

definition grpc_write_entry where
  "grpc_write_entry D R P cfg env (input :: pb_write_entry_request) st =
     respond (\<lambda>output.
         \<lparr>ws_entry_id = uuid_to_string D (wo_entry_id output),
          ws_entry_hash = wo_entry_hash output,
          ws_chain_position = int_to_string (wo_chain_position output),
          ws_written_ts = wo_written_ts_ms output,
          ws_hash_version = wo_hash_version output\<rparr>)
       (write_entry D R P cfg env (write_input_of_request input) st)"

definition grpc_get_entry where
  "grpc_get_entry D R raw_id st =
     (case parse_uuid D raw_id of
        Inl e \<Rightarrow> (Inl e, st)
      | Inr entry_id \<Rightarrow> respond (pb_entry D) (get_entry R entry_id st))"

definition query_input_of_request :: "pb_query_entries_request \<Rightarrow> query_entries_input" where
  "query_input_of_request input =
     \<lparr>qi_entry_type = empty_to_none (qq_entry_type input),
      qi_agent_id = empty_to_none (qq_agent_id input),
      qi_source_id = empty_to_none (qq_source_id input),
      qi_correlation_id = empty_to_none (qq_correlation_id input),
      qi_from_ts = zero_to_none (qq_from_ts input),
      qi_to_ts = zero_to_none (qq_to_ts input),
      qi_page_size = qq_page_size input,
      qi_page_token = empty_to_none (qq_page_token input)\<rparr>"

definition grpc_query_entries where
  "grpc_query_entries D R input st =
     respond (\<lambda>(entries, next_token, total_count).
         \<lparr>qs_entries = map (pb_entry D) entries,
          qs_next_page_token = unwrap_or_default next_token,
          qs_total_count = total_count\<rparr>)
       (query_entries R (query_input_of_request input) st)"

definition grpc_verify_entry where
  "grpc_verify_entry D R cfg raw_id st =
     (case parse_uuid D raw_id of
        Inl e \<Rightarrow> (Inl e, st)
      | Inr entry_id \<Rightarrow>
          respond (\<lambda>output.
              \<lparr>vs_entry_id = uuid_to_string D (ve_entry_id output),
               vs_hash_valid = ve_hash_valid output,
               vs_chain_link_valid = ve_chain_link_valid output,
               vs_failure_reason = ve_failure_reason output\<rparr>)
            (verify_entry D R cfg entry_id st))"

definition parse_optional_uuid :: "third_party \<Rightarrow> string \<Rightarrow> status + uuid option" where
  "parse_optional_uuid D raw =
     (if raw = [] then Inr None
      else case parse_uuid D raw of Inl e \<Rightarrow> Inl e | Inr u \<Rightarrow> Inr (Some u))"

definition grpc_verify_chain where
  "grpc_verify_chain D R cfg input st =
     (if cq_entry_type input = [] then Some (Inl (invalid_argument ''entry_type is required''), st)
      else
        (case parse_optional_uuid D (cq_start_entry_id input) of
           Inl e \<Rightarrow> Some (Inl e, st)
         | Inr start_id \<Rightarrow>
             (case parse_optional_uuid D (cq_end_entry_id input) of
                Inl e \<Rightarrow> Some (Inl e, st)
              | Inr end_id \<Rightarrow>
                  map_option (respond (\<lambda>output.
                      \<lparr>cs_chain_valid = vc_chain_valid output,
                       cs_entries_checked = vc_entries_checked output,
                       cs_first_invalid_entry_id = unwrap_or_default
                         (map_option (uuid_to_string D) (vc_first_invalid_entry_id output)),
                       cs_failure_reason = vc_failure_reason output\<rparr>))
                    (verify_chain D R cfg (cq_entry_type input) start_id end_id st))))"

definition grpc_get_chain_tip where
  "grpc_get_chain_tip D R entry_type st =
     (if entry_type = [] then (Inl (invalid_argument ''entry_type is required''), st)
      else respond (\<lambda>tip.
          \<lparr>ts_entry_id = uuid_to_string D (tip_entry_id tip),
           ts_entry_hash = tip_hash tip,
           ts_chain_position = tip_position tip,
           ts_written_ts = timestamp_millis D (tip_written_ts tip),
           ts_hash_version = tip_hash_version tip\<rparr>)
        (get_chain_tip R entry_type st))"

definition grpc_issue_receipt where
  "grpc_issue_receipt D R P cfg env input st =
     respond (\<lambda>receipt.
         \<lparr>rc_entry_hash = pr_entry_hash receipt,
          rc_entry_type = pr_entry_type receipt,
          rc_chain_position = pr_chain_position receipt,
          rc_written_ts = pr_written_ts_ms receipt,
          rc_entry_id = uuid_to_string D (pr_entry_id receipt),
          rc_input_hash = pr_input_hash receipt,
          rc_writer_signature = pr_writer_signature receipt,
          rc_signer_key_reference = pr_signer_key_reference receipt,
          rc_attestation_report = pr_attestation_report receipt,
          rc_hash_version = pr_hash_version receipt\<rparr>)
       (issue_receipt D R P cfg env (write_input_of_request input) st)"

definition grpc_get_entry_by_hash where
  "grpc_get_entry_by_hash D R entry_type entry_hash st =
     (if entry_hash = [] \<or> entry_type = []
      then (Inl (invalid_argument ''entry_hash and entry_type are required''), st)
      else respond (pb_entry D) (get_entry_by_hash R entry_type entry_hash st))"

text \<open>\<open>VerifyProofResponse\<close> has the fields of the service output, unchanged.\<close>

definition grpc_verify_proof where
  "grpc_verify_proof D R entry_type entry_hash st =
     (if entry_hash = [] \<or> entry_type = []
      then (Inl (invalid_argument ''entry_hash and entry_type are required''), st)
      else respond (\<lambda>output.
          \<lparr>vp_valid = vp_valid output,
           vp_entry_type = vp_entry_type output,
           vp_agent_id = vp_agent_id output,
           vp_written_ts_ms = vp_written_ts_ms output,
           vp_chain_position = vp_chain_position output,
           vp_failure_reason = vp_failure_reason output,
           vp_source_id = vp_source_id output,
           vp_correlation_id = vp_correlation_id output,
           vp_content_type = vp_content_type output,
           vp_input_hash = vp_input_hash output,
           vp_writer_signature = vp_writer_signature output,
           vp_signer_key_reference = vp_signer_key_reference output,
           vp_attestation_report = vp_attestation_report output,
           vp_hash_version = vp_hash_version output\<rparr>)
        (verify_proof D R entry_type entry_hash st))"

lemma unwrap_empty_to_none: "unwrap_or_default (empty_to_none v) = v"
  by (simp add: empty_to_none_def)

end
