(* ===== verification/Tls.thy ===== *)
theory Tls
  imports Rust_Strings
begin

text \<open>
  TLS for the database connections (\<open>src/tls.rs\<close>): the choice of a connector from the
  connection string, and the connector and stream types that pass every call on to the plain
  or the rustls implementation. Both implementations are third-party code: records of
  functions over their own states.
\<close>

section \<open>Selection\<close>

fun first_stripped :: "string \<Rightarrow> string list \<Rightarrow> string option" where
  "first_stripped p [] = None"
| "first_stripped p (s # ss) = (case strip_prefix p s of Some v \<Rightarrow> Some v | None \<Rightarrow> first_stripped p ss)"

definition parse_ssl_mode :: "string \<Rightarrow> string option" where
  "parse_ssl_mode connection_string =
     (case first_stripped ''sslmode='' (split_whitespace connection_string) of
        Some value \<Rightarrow> Some value
      | None \<Rightarrow>
          (case after_char (CHR ''?'') connection_string of
             None \<Rightarrow> None
           | Some query \<Rightarrow> first_stripped ''sslmode='' (split_on (CHR ''&'') query)))"

datatype pg_tls_connector = Plain | Rustls nat

text \<open>\<open>usable_roots\<close> is the number of system root certificates that could be added.\<close>

definition make_pg_tls :: "nat \<Rightarrow> string \<Rightarrow> string + pg_tls_connector" where
  "make_pg_tls usable_roots connection_string =
     (case parse_ssl_mode connection_string of
        None \<Rightarrow> Inr Plain
      | Some mode \<Rightarrow>
          if mode = ''disable'' then Inr Plain
          else if usable_roots > 0 then Inr (Rustls usable_roots)
          else Inl ''no usable system root certificates found'')"

section \<open>Connectors and streams\<close>

text \<open>
  A poll returns \<open>None\<close> when it has to be repeated. A stream operation returns the poll
  and the new state of the stream; reading also returns the filled part of the buffer.
\<close>

record 's async_stream =
  as_poll_read :: "'s \<Rightarrow> nat \<Rightarrow> (string + u8 list) option \<times> 's"
  as_poll_write :: "'s \<Rightarrow> u8 list \<Rightarrow> (string + nat) option \<times> 's"
  as_poll_flush :: "'s \<Rightarrow> (string + unit) option \<times> 's"
  as_poll_shutdown :: "'s \<Rightarrow> (string + unit) option \<times> 's"
  as_channel_binding :: "'s \<Rightarrow> string option"

datatype ('p, 'r) pg_tls_stream = PlainStream 'p | RustlsStream 'r

datatype 'c pg_tls_connect_inner = PlainConnect | RustlsConnect 'c

text \<open>What the two libraries do: \<open>NoTls\<close>, and \<open>MakeRustlsConnect\<close> with its connector.\<close>

record ('k, 'c, 'p, 'r) tls_library =
  tl_plain_connect :: "'k \<Rightarrow> string + 'p"
  tl_make_rustls :: "nat \<Rightarrow> string \<Rightarrow> string + 'c"
  tl_rustls_connect :: "'c \<Rightarrow> 'k \<Rightarrow> string + 'r"

definition make_tls_connect ::
    "('k, 'c, 'p, 'r) tls_library \<Rightarrow> pg_tls_connector \<Rightarrow> string \<Rightarrow> string + 'c pg_tls_connect_inner" where
  "make_tls_connect T connector domain =
     (case connector of
        Plain \<Rightarrow> Inr PlainConnect
      | Rustls inner \<Rightarrow> map_sum id RustlsConnect (tl_make_rustls T inner domain))"

definition tls_connect ::
    "('k, 'c, 'p, 'r) tls_library \<Rightarrow> 'c pg_tls_connect_inner \<Rightarrow> 'k \<Rightarrow> string + ('p, 'r) pg_tls_stream" where
  "tls_connect T inner socket =
     (case inner of
        PlainConnect \<Rightarrow> map_sum id PlainStream (tl_plain_connect T socket)
      | RustlsConnect c \<Rightarrow> map_sum id RustlsStream (tl_rustls_connect T c socket))"

definition pg_stream ::
    "'p async_stream \<Rightarrow> 'r async_stream \<Rightarrow> ('p, 'r) pg_tls_stream async_stream" where
  "pg_stream A B =
     \<lparr>as_poll_read = (\<lambda>st buf. case st of
        PlainStream s \<Rightarrow> map_prod id PlainStream (as_poll_read A s buf)
      | RustlsStream s \<Rightarrow> map_prod id RustlsStream (as_poll_read B s buf)),
      as_poll_write = (\<lambda>st buf. case st of
        PlainStream s \<Rightarrow> map_prod id PlainStream (as_poll_write A s buf)
      | RustlsStream s \<Rightarrow> map_prod id RustlsStream (as_poll_write B s buf)),
      as_poll_flush = (\<lambda>st. case st of
        PlainStream s \<Rightarrow> map_prod id PlainStream (as_poll_flush A s)
      | RustlsStream s \<Rightarrow> map_prod id RustlsStream (as_poll_flush B s)),
      as_poll_shutdown = (\<lambda>st. case st of
        PlainStream s \<Rightarrow> map_prod id PlainStream (as_poll_shutdown A s)
      | RustlsStream s \<Rightarrow> map_prod id RustlsStream (as_poll_shutdown B s)),
      as_channel_binding = (\<lambda>st. case st of
        PlainStream s \<Rightarrow> as_channel_binding A s
      | RustlsStream s \<Rightarrow> as_channel_binding B s)\<rparr>"

section \<open>Dispatch is transparent\<close>

text \<open>Operations on a stream, and what a sequence of them returns.\<close>

datatype stream_op = Read nat | Write "u8 list" | Flush | Shutdown

datatype stream_answer = Read_answer "(string + u8 list) option" | Write_answer "(string + nat) option"
  | Unit_answer "(string + unit) option"

fun stream_step :: "'s async_stream \<Rightarrow> stream_op \<Rightarrow> 's \<Rightarrow> stream_answer \<times> 's" where
  "stream_step S (Read n) s = map_prod Read_answer id (as_poll_read S s n)"
| "stream_step S (Write bytes) s = map_prod Write_answer id (as_poll_write S s bytes)"
| "stream_step S Flush s = map_prod Unit_answer id (as_poll_flush S s)"
| "stream_step S Shutdown s = map_prod Unit_answer id (as_poll_shutdown S s)"

fun stream_run :: "'s async_stream \<Rightarrow> stream_op list \<Rightarrow> 's \<Rightarrow> stream_answer list \<times> 's" where
  "stream_run S [] s = ([], s)"
| "stream_run S (x # xs) s =
     (case stream_step S x s of (a, s') \<Rightarrow> map_prod (Cons a) id (stream_run S xs s'))"

lemma pg_stream_step:
  "stream_step (pg_stream A B) x (PlainStream s) = map_prod id PlainStream (stream_step A x s)"
  "stream_step (pg_stream A B) x (RustlsStream r) = map_prod id RustlsStream (stream_step B x r)"
  by (cases x; simp add: pg_stream_def prod.map_comp comp_def id_def)+

text \<open>Any dialogue over the dispatching stream is the dialogue over the stream inside.\<close>

theorem pg_stream_transparent:
  "stream_run (pg_stream A B) xs (PlainStream s) = map_prod id PlainStream (stream_run A xs s)"
  "stream_run (pg_stream A B) xs (RustlsStream r) = map_prod id RustlsStream (stream_run B xs r)"
  by (induction xs arbitrary: s r)
    (simp_all add: pg_stream_step prod.map_comp comp_def id_def case_prod_beta map_prod_def)

text \<open>
  A connection string that asks for TLS is never served by a plain stream, and one that does
  not never by rustls.
\<close>

theorem connected_stream_matches:
  assumes "make_pg_tls roots conn = Inr connector" and "make_tls_connect T connector domain = Inr inner"
    and "tls_connect T inner socket = Inr stream"
  shows "(\<exists>r. stream = RustlsStream r) \<longleftrightarrow> (\<exists>mode. parse_ssl_mode conn = Some mode \<and> mode \<noteq> ''disable'')"
  using assms
  by (auto simp: make_pg_tls_def make_tls_connect_def tls_connect_def map_sum_def split: option.splits if_splits
      pg_tls_connector.splits sum.splits pg_tls_connect_inner.splits)

end
