(* ===== verification/Server.thy ===== *)
theory Server
  imports Verifier Grpc Tls
begin

text \<open>
  The process around the service: the start-up permission check
  (\<open>src/db_permissions/mod.rs\<close>), the start-up sequence, bearer-token checks and the health
  routes of \<open>src/main.rs\<close>. The PostgreSQL driver and the connection pool are third-party
  code: a record of functions.
\<close>

section \<open>Permission check\<close>

datatype db_permission_error = Connect string | Query string | MissingReadWritePrivileges
  | LedgerEntriesMutable

definition evaluate_permissions :: "bool \<Rightarrow> bool \<Rightarrow> bool \<Rightarrow> bool \<Rightarrow> db_permission_error + unit" where
  "evaluate_permissions can_insert can_select can_update can_delete =
     (if \<not> can_insert \<or> \<not> can_select then Inl MissingReadWritePrivileges
      else if can_update \<or> can_delete then Inl LedgerEntriesMutable
      else Inr ())"

record 'c pg_driver =
  pg_usable_roots :: nat
  pg_connect :: "string \<Rightarrow> pg_tls_connector \<Rightarrow> string + 'c"
  pg_has_table_privilege :: "'c \<Rightarrow> string \<Rightarrow> string \<Rightarrow> string + bool"
  pg_parse_config :: "string \<Rightarrow> bool"
  pg_build_pool :: "nat \<Rightarrow> bool"

definition ledger_table :: string where
  "ledger_table = ''are_ledger.ledger_entries''"

definition verify_ledger_entries_immutable ::
    "'c pg_driver \<Rightarrow> string \<Rightarrow> db_permission_error + unit" where
  "verify_ledger_entries_immutable G connection_string =
     (case make_pg_tls (pg_usable_roots G) connection_string of
        Inl e \<Rightarrow> Inl (Connect e)
      | Inr tls \<Rightarrow>
          (case pg_connect G connection_string tls of
             Inl e \<Rightarrow> Inl (Connect e)
           | Inr client \<Rightarrow>
               let ask = pg_has_table_privilege G client ledger_table
               in (case (ask ''INSERT'', ask ''SELECT'', ask ''UPDATE'', ask ''DELETE'') of
                     (Inr i, Inr s, Inr u, Inr d) \<Rightarrow> evaluate_permissions i s u d
                   | (Inl e, _, _, _) \<Rightarrow> Inl (Query e)
                   | (_, Inl e, _, _) \<Rightarrow> Inl (Query e)
                   | (_, _, Inl e, _) \<Rightarrow> Inl (Query e)
                   | (_, _, _, Inl e) \<Rightarrow> Inl (Query e))))"

section \<open>Start-up\<close>

datatype start_error = Load_config config_error | Db_permission db_permission_error
  | Parse_connection_string | Configure_tls string | Build_pool | Configure_publisher string

definition build_pool :: "'c pg_driver \<Rightarrow> app_config \<Rightarrow> start_error + pg_tls_connector" where
  "build_pool G cfg =
     (if \<not> pg_parse_config G (cfg_db_connection_string cfg) then Inl Parse_connection_string
      else
        (case make_pg_tls (pg_usable_roots G) (cfg_db_connection_string cfg) of
           Inl e \<Rightarrow> Inl (Configure_tls e)
         | Inr tls \<Rightarrow> if pg_build_pool G (cfg_pool_max_size cfg) then Inr tls else Inl Build_pool))"

record server =
  sv_config :: app_config
  sv_tls :: pg_tls_connector
  sv_publisher :: http_event_publisher
  sv_verifier_started :: bool

definition start_server ::
    "'c pg_driver \<Rightarrow> http_client \<Rightarrow> environment \<Rightarrow> start_error + server" where
  "start_server G H env =
     (case from_env env of
        Inl e \<Rightarrow> Inl (Load_config e)
      | Inr cfg \<Rightarrow>
          (case verify_ledger_entries_immutable G (cfg_db_connection_string cfg) of
             Inl e \<Rightarrow> Inl (Db_permission e)
           | Inr _ \<Rightarrow>
               (case build_pool G cfg of
                  Inl e \<Rightarrow> Inl e
                | Inr tls \<Rightarrow>
                    (case http_publisher_new H (cfg_outbox_http_endpoint cfg)
                            (cfg_outbox_http_bearer_token cfg) (cfg_outbox_http_timeout_seconds cfg) of
                       Inl e \<Rightarrow> Inl (Configure_publisher e)
                     | Inr publisher \<Rightarrow>
                         Inr \<lparr>sv_config = cfg, sv_tls = tls, sv_publisher = publisher,
                              sv_verifier_started = (cfg_verify_interval_seconds cfg > 0)\<rparr>))))"

section \<open>Bearer tokens\<close>

unbundle bit_operations_syntax

definition constant_time_eq :: "u8 list \<Rightarrow> u8 list \<Rightarrow> bool" where
  "constant_time_eq a b =
     (if length a \<noteq> length b then False
      else fold (\<lambda>(x, y) diff. diff OR (x XOR y)) (zip a b) 0 = (0 :: u8))"

text \<open>
  A header map gives the first value of a header, as raw bytes. \<open>to_str\<close> is
  \<open>HeaderValue::to_str\<close> of the HTTP crate (\<open>MetadataValue::to_str\<close> for gRPC): the text
  of a value, or nothing when it is not text.
\<close>

type_synonym header_map = "string \<Rightarrow> string option"
type_synonym header_text = "string \<Rightarrow> string option"

definition bearer_matches :: "header_text \<Rightarrow> header_map \<Rightarrow> string \<Rightarrow> bool" where
  "bearer_matches to_str headers token =
     (case headers ''authorization'' of
        None \<Rightarrow> False
      | Some value \<Rightarrow>
          (case to_str value of
             None \<Rightarrow> False
           | Some actual \<Rightarrow> constant_time_eq (as_bytes actual) (as_bytes (''Bearer '' @ token))))"

definition authorize_grpc_request :: "header_text \<Rightarrow> header_map \<Rightarrow> string \<Rightarrow> status + header_map" where
  "authorize_grpc_request to_str request api_token =
     (if bearer_matches to_str request api_token then Inr request
      else Inl \<lparr>st_code = Code_unauthenticated, st_message = ''missing or invalid bearer token''\<rparr>)"

definition authorized_http :: "header_text \<Rightarrow> header_map \<Rightarrow> string \<Rightarrow> bool" where
  "authorized_http to_str headers token = bearer_matches to_str headers token"

text \<open>The interceptor is installed only when an API token is configured.\<close>

definition grpc_gate :: "header_text \<Rightarrow> app_config \<Rightarrow> header_map \<Rightarrow> status option" where
  "grpc_gate to_str cfg request =
     (case cfg_api_token cfg of
        None \<Rightarrow> None
      | Some api_token \<Rightarrow>
          (case authorize_grpc_request to_str request api_token of Inl e \<Rightarrow> Some e | Inr _ \<Rightarrow> None))"

text \<open>A handler behind the interceptor: a refused request does not reach it.\<close>

definition serve_grpc ::
    "header_text \<Rightarrow> app_config \<Rightarrow> header_map \<Rightarrow> ('t \<Rightarrow> (status + 'a) \<times> 't) \<Rightarrow> 't \<Rightarrow> (status + 'a) \<times> 't" where
  "serve_grpc to_str cfg request handler st =
     (case grpc_gate to_str cfg request of Some e \<Rightarrow> (Inl e, st) | None \<Rightarrow> handler st)"

section \<open>Health routes\<close>

definition readyz :: "bool \<Rightarrow> verification_status option \<Rightarrow> nat \<times> string" where
  "readyz pool_available status =
     (if \<not> pool_available then (503, ''database unavailable'')
      else
        (case status of
           Some v \<Rightarrow>
             if \<not> vn_all_valid v then (503, ''chain verification failed'') else (200, ''ready'')
         | None \<Rightarrow> (200, ''ready'')))"

text \<open>
  \<open>/verifyz\<close>: the last status as JSON. \<open>rfc3339\<close> is the text of an instant that the
  \<open>Serialize\<close> instance of chrono writes.
\<close>

definition chain_result_json :: "chain_result \<Rightarrow> json" where
  "chain_result_json r =
     JObject [(''entry_type'', JString (cr_entry_type r)), (''valid'', JBool (cr_valid r)),
              (''entries_checked'', JInt (cr_entries_checked r)),
              (''failure_reason'', JString (cr_failure_reason r))]"

definition verifyz :: "(datetime \<Rightarrow> string) \<Rightarrow> verification_status option \<Rightarrow> json" where
  "verifyz rfc3339 status =
     (case status of
        Some v \<Rightarrow>
          JObject [(''all_valid'', JBool (vn_all_valid v)), (''chains_checked'', JInt (int (vn_chains_checked v))),
                   (''last_run'', JString (rfc3339 (vn_last_run v))),
                   (''duration_ms'', JInt (uint (vn_duration_ms v))),
                   (''chain_results'', JArray (map chain_result_json (vn_chain_results v)))]
      | None \<Rightarrow> JObject [(''status'', JString ''not_yet_run'')])"

definition healthz :: string where
  "healthz = ''ok''"

text \<open>\<open>/shutdownz\<close>: the response code and the value of the shutdown channel.\<close>

definition shutdownz :: "header_text \<Rightarrow> app_config \<Rightarrow> header_map \<Rightarrow> bool \<Rightarrow> nat \<times> bool" where
  "shutdownz to_str cfg headers shutdown_sent =
     (case cfg_shutdown_token cfg of
        None \<Rightarrow> (404, shutdown_sent)
      | Some token \<Rightarrow>
          if \<not> authorized_http to_str headers token then (401, shutdown_sent) else (202, True))"

section \<open>Correctness\<close>

lemma fold_or_zero:
  "fold (\<lambda>(x, y) diff. diff OR (x XOR y)) ps (d :: u8) = 0 \<longleftrightarrow> d = 0 \<and> (\<forall>(x, y) \<in> set ps. x = y)"
proof (induction ps arbitrary: d)
  case (Cons p ps)
  obtain x y where p: "p = (x, y)" by fastforce
  have "d OR (x XOR y) = 0 \<longleftrightarrow> d = 0 \<and> x = y"
  proof
    assume "d OR (x XOR y) = 0"
    then have "d = 0" and "x XOR y = 0" by (simp_all add: or_eq_0_iff)
    then have "x XOR (x XOR y) = x XOR 0" by simp
    then have "y = x" by (simp flip: xor.assoc)
    with \<open>d = 0\<close> show "d = 0 \<and> x = y" by simp
  qed simp
  with Cons.IH show ?case by (auto simp: p)
qed simp

lemma constant_time_eq_iff: "constant_time_eq a b \<longleftrightarrow> a = b"
proof (cases "length a = length b")
  case True
  then have "(\<forall>(x, y) \<in> set (zip a b). x = y) \<longleftrightarrow> a = b"
    by (induction a b rule: list_induct2) auto
  with True show ?thesis by (simp add: constant_time_eq_def fold_or_zero)
qed (auto simp: constant_time_eq_def)

lemma bearer_matches_iff:
  "bearer_matches to_str headers token \<longleftrightarrow>
     (\<exists>v. headers ''authorization'' = Some v \<and> to_str v = Some (''Bearer '' @ token))"
  by (auto simp: bearer_matches_def constant_time_eq_iff simp del: as_bytes_append split: option.splits)

text \<open>The requests that pass the interceptor.\<close>

definition authorised :: "header_text \<Rightarrow> app_config \<Rightarrow> header_map \<Rightarrow> bool" where
  "authorised to_str cfg request =
     (case cfg_api_token cfg of
        None \<Rightarrow> True
      | Some token \<Rightarrow> (case request ''authorization'' of None \<Rightarrow> False | Some v \<Rightarrow> to_str v = Some (''Bearer '' @ token)))"

lemma serve_grpc_cases:
  "serve_grpc to_str cfg request handler st =
     (if authorised to_str cfg request then handler st
      else (Inl \<lparr>st_code = Code_unauthenticated, st_message = ''missing or invalid bearer token''\<rparr>, st))"
  by (auto simp: serve_grpc_def grpc_gate_def authorize_grpc_request_def bearer_matches_iff authorised_def
      split: option.splits)

end
