(* ===== verification/System.thy ===== *)
theory System
  imports In_Memory_Correct Ledger_System Tamper_Evidence Server
begin

text \<open>
  The service running on the in-memory repository: the verification results as equations,
  the step relation of the whole service (writes, receipts, outbox passes and verification
  runs in any order), and the invariant of its reachable states.
\<close>

section \<open>Verification on the in-memory repository\<close>

lemma mem_reads_same:
  assumes "reads (\<lambda>s. mem_store_inv s \<and> s = ss_repo st) mem_chain st st'"
  shows "st' = st"
  using assms unfolding reads_def by (metis service_state.surjective service_state.update_convs(1))

lemma mem_reports_exact:
  assumes "reports (\<lambda>s. mem_store_inv s \<and> s = ss_repo st) mem_chain True A st out"
  shows "out = (Inr (fst A), count_failure (snd A) st)"
  using assms mem_reads_same unfolding reports_def by blast

lemma mem_verify_chain_all:
  assumes "mem_store_inv (ss_repo st)"
  shows "verify_chain D (in_memory D) cfg t None None st =
    (let A = audit D (genesis_hash D cfg) 0 (until I64_MAX (beyond 0 (mem_chain (ss_repo st) t)))
     in Some (Inr (fst A), count_failure (snd A) st))"
  using mem_at.verify_chain_None_None [of st "ss_repo st" D D cfg t] assms mem_reports_exact
  by (fastforce simp: Let_def)

lemma mem_verify_chain_range:
  assumes "mem_store_inv (ss_repo st)" and "mem_chain (ss_repo st) t = es" and "positions_ok es"
    and "int (length es) \<le> I64_MAX" and "starts_at es s_id i" and "ends_before es e_id j"
    and "i < j \<or> es = []"
  shows "verify_chain D (in_memory D) cfg t s_id e_id st =
    Some (Inr (fst (audit_range D (genesis_hash D cfg) es i j)),
          count_failure (snd (audit_range D (genesis_hash D cfg) es i j)) st)"
  using mem_at.verify_chain_range [of st "ss_repo st" t es s_id i e_id j D D cfg] assms mem_reports_exact
  by fastforce

lemma mem_verify_recent_chain:
  assumes "mem_store_inv (ss_repo st)" and "mem_chain (ss_repo st) t = es" and "positions_ok es"
    and "int (length es) \<le> I64_MAX" and "0 < n"
  shows "verify_recent_chain D (in_memory D) cfg t n st =
    Some (Inr (fst (audit_range D (genesis_hash D cfg) es (length es - nat n) (length es))),
          count_failure (snd (audit_range D (genesis_hash D cfg) es (length es - nat n) (length es))) st)"
  using mem_at.verify_recent_chain_window [of st "ss_repo st" t es n _ D D cfg] assms mem_reports_exact
  by fastforce

lemma mem_verify_entry:
  assumes "mem_store_inv (ss_repo st)" and "mem_chain (ss_repo st) t = es" and "positions_ok es"
    and "i < length es"
  shows "verify_entry D (in_memory D) cfg (le_entry_id (es ! i)) st =
    (Inr (entry_report D (tip_hash_of (genesis_hash D cfg) (take i es)) (es ! i)), st)"
proof -
  obtain r st' where out: "verify_entry D (in_memory D) cfg (le_entry_id (es ! i)) st = (r, st')" by fastforce
  from mem_at.verify_entry_at [OF _ assms(2-4) out, of "ss_repo st"] assms(1) mem_reads_same out
  show ?thesis by blast
qed

lemma mem_verify_proof:
  assumes "mem_store_inv (ss_repo st)" and "verify_proof D (in_memory D) t h st = (r, st')"
  shows "st' = st"
    and "(r = Inl SvcNotFound \<and> h \<notin> le_entry_hash ` set (mem_chain (ss_repo st) t))
      \<or> (\<exists>e \<in> set (mem_chain (ss_repo st) t). le_entry_hash e = h \<and> r = Inr (proof_report D e))"
  using mem_at.verify_proof_found [of st "ss_repo st" D D t h r st'] assms mem_reads_same by blast+

lemma mem_observes_same:
  assumes "observes (\<lambda>s. mem_store_inv s \<and> s = ss_repo st) mem_chain st st'"
  shows "ss_repo st' = ss_repo st" and "ss_publish_log st' = ss_publish_log st"
  using assms mem_reads_same unfolding observes_def count_failure_def by force+

lemma mem_boundary_missing:
  assumes "mem_store_inv (ss_repo st)" and "i \<notin> le_entry_id ` all_entries (mem_chain (ss_repo st))"
  shows "boundary_position (in_memory D) t m d (Some i) st = (Inl SvcNotFound, st)"
proof -
  obtain r st1 where b: "boundary_position (in_memory D) t m d (Some i) st = (r, st1)" by fastforce
  have pin: "mem_store_inv (ss_repo st) \<and> ss_repo st = ss_repo st" using assms(1) by simp
  note B = mem_at.boundary_cases [OF pin b]
  from B(2) assms(2) have "r = Inl SvcNotFound" by (auto simp: all_entries_def)
  with b mem_reads_same [OF B(1)] show ?thesis by simp
qed

lemma mem_boundary_found:
  assumes "mem_store_inv (ss_repo st)" and "e \<in> set (mem_chain (ss_repo st) t')"
  shows "boundary_position (in_memory D) t m d (Some (le_entry_id e)) st =
    (if t' = t then Inr (le_chain_position e) else Inl (InvalidArgument m), st)"
proof -
  obtain r st1 where b: "boundary_position (in_memory D) t m d (Some (le_entry_id e)) st = (r, st1)" by fastforce
  have pin: "mem_store_inv (ss_repo st) \<and> ss_repo st = ss_repo st" using assms(1) by simp
  note B = mem_at.boundary_cases [OF pin b]
  have in_all: "le_entry_id e \<in> le_entry_id ` all_entries (mem_chain (ss_repo st))"
    using assms(2) by (auto simp: all_entries_def)
  obtain t'' e'' where x: "e'' \<in> set (mem_chain (ss_repo st) t'')" "le_entry_id e'' = le_entry_id e"
    "r = (if t'' = t then Inr (le_chain_position e'') else Inl (InvalidArgument m))"
    using B(2) in_all by blast
  have "e'' = e" using mem_store.stored_id_unique [OF assms(1) x(1) assms(2) x(2)] .
  moreover have "t'' = t'"
    using mem_store.stored_type [OF assms(1) x(1)] mem_store.stored_type [OF assms(1,2)] \<open>e'' = e\<close> by simp
  ultimately show ?thesis using b x(3) mem_reads_same [OF B(1)] by simp
qed

section \<open>Queries on the in-memory repository\<close>

definition matches_query :: "third_party \<Rightarrow> entry_query \<Rightarrow> ledger_entry_record \<Rightarrow> bool" where
  "matches_query D q e \<longleftrightarrow>
     (\<forall>p. eq_entry_type_prefix q = Some p \<longrightarrow> (\<exists>rest. le_entry_type e = p @ rest))
     \<and> (\<forall>a. eq_agent_id q = Some a \<longrightarrow> le_agent_id e = a)
     \<and> (\<forall>a. eq_source_id q = Some a \<longrightarrow> le_source_id e = a)
     \<and> (\<forall>c. eq_correlation_id q = Some c \<longrightarrow> le_correlation_id e = Some c)
     \<and> (\<forall>t. eq_from_ts_ms q = Some t \<longrightarrow> t \<le> timestamp_millis D (le_written_ts e))
     \<and> (\<forall>t. eq_to_ts_ms q = Some t \<longrightarrow> timestamp_millis D (le_written_ts e) \<le> t)"

lemma starts_with_iff: "starts_with p s \<longleftrightarrow> (\<exists>rest. s = p @ rest)"
  unfolding starts_with_def by (metis append_eq_conv_conj append_take_drop_id)

lemma retain_some_filter: "retain_some flt Q es = filter (\<lambda>e. \<forall>x. flt = Some x \<longrightarrow> Q x e) es"
  by (cases flt) (simp_all add: retain_some_def)

lemma apply_query_filters_eq: "apply_query_filters D q es = filter (matches_query D q) es"
  unfolding apply_query_filters_def Let_def retain_some_filter filter_filter
  by (rule filter_cong) (auto simp: matches_query_def starts_with_iff)

lemma mem_view_spec:
  assumes "mem_index_inv s"
  shows "distinct (mem_view D s q)" and "set (mem_view D s q) = {e \<in> all_entries (mem_chain s). matches_query D q e}"
    and "sorted (map (\<lambda>e. (timestamp_millis D (le_written_ts e), le_chain_position e)) (mem_view D s q))"
proof -
  have wf: "seed_ok (im_seed s)" "hm_wf (im_entries s)" using assms by (simp_all add: mem_index_inv_def)
  have get: "hm_get (im_entries s) (fst c) = Some (snd c)" if "c \<in> set (im_entries s)" for c
    using that wf(2) by (simp add: hm_get_def hm_wf_def)
  have "inj_on snd (set (im_entries s))"
  proof (rule inj_onI)
    fix a b assume ab: "a \<in> set (im_entries s)" "b \<in> set (im_entries s)" "snd a = snd b"
    have "hm_get (im_entries s) (fst a) = Some (snd a)" "hm_get (im_entries s) (fst b) = Some (snd b)"
      by (rule get [OF ab(1)], rule get [OF ab(2)])
    then show "a = b" using index_inv_entry [OF assms] ab(3) by (metis prod.expand)
  qed
  then have "distinct (map snd (im_entries s))"
    using wf(2) by (simp add: distinct_map hm_wf_def)
  then have d: "distinct (hm_values (im_seed s) (im_entries s))"
    by (simp add: hm_values_def distinct_iterate [OF wf(1)])
  show "distinct (mem_view D s q)"
    using d by (simp add: mem_view_def apply_query_filters_eq)
  show "set (mem_view D s q) = {e \<in> all_entries (mem_chain s). matches_query D q e}"
    by (auto simp: mem_view_def apply_query_filters_eq set_hm_values [OF wf] all_entries_mem_chain [OF assms])
  show "sorted (map (\<lambda>e. (timestamp_millis D (le_written_ts e), le_chain_position e)) (mem_view D s q))"
    by (simp add: mem_view_def)
qed

section \<open>Writing on the in-memory repository\<close>

lemma mem_write_entry:
  assumes "mem_inv D (ss_repo st)" and "all_fresh env (mem_chain (ss_repo st)) (mem_outboxes (ss_repo st))"
    and "genesis_hash D cfg \<noteq> []" and "write_entry D (in_memory D) P cfg env input st = (r, st')"
  shows "mem_inv D (ss_repo st')"
    and "write_outcome D P cfg env input True (is_halted cfg (en_check_time env) (we_entry_type input) st)
      (mem_chain (ss_repo st)) (mem_outboxes (ss_repo st)) r (mem_chain (ss_repo st')) (mem_outboxes (ss_repo st'))"
  using mem_ledger.write_entry_outcome [OF assms(1,2) _ assms(3,4)] by (simp_all add: all_storable_def)

text \<open>With a retry limit above zero the request determines the result, up to the text of a conflict.\<close>

lemma mem_write_result:
  assumes inv: "mem_inv D (ss_repo st)" and "all_fresh env (mem_chain (ss_repo st)) (mem_outboxes (ss_repo st))"
    and "genesis_hash D cfg \<noteq> []" and run: "write_entry D (in_memory D) P cfg env input st = (r, st')"
    and retries: "cfg_chain_max_retries cfg \<noteq> 0"
  shows "case validate_write cfg input of
      Some e \<Rightarrow> r = Inl e
    | None \<Rightarrow>
        if is_halted cfg (en_check_time env) (we_entry_type input) st then r = Inl SvcUnavailable
        else if conflicting input (mem_chain (ss_repo st)) then \<exists>m. r = Inl (AlreadyExists m)
        else \<exists>out. r = Inr out"
    and "isl r \<Longrightarrow> mem_chain (ss_repo st') = mem_chain (ss_repo st) \<and> mem_outboxes (ss_repo st') = mem_outboxes (ss_repo st)"
proof -
  note W = mem_write_entry(2) [OF assms(1-4)]
  have "ledger_inv D (mem_chain (ss_repo st))" using inv by (simp add: mem_inv_def)
  note A = outcome_accepted_iff [OF W this _ _ retries]
  show "case validate_write cfg input of Some e \<Rightarrow> r = Inl e
    | None \<Rightarrow>
        if is_halted cfg (en_check_time env) (we_entry_type input) st then r = Inl SvcUnavailable
        else if conflicting input (mem_chain (ss_repo st)) then \<exists>m. r = Inl (AlreadyExists m)
        else \<exists>out. r = Inr out"
  proof (cases "validate_write cfg input")
    case None
    then show ?thesis using A W retries by (auto simp: write_outcome_def)
  next
    case (Some e)
    then show ?thesis using run by (simp add: write_entry_def write_entry_impl_def)
  qed
  show "mem_chain (ss_repo st') = mem_chain (ss_repo st) \<and> mem_outboxes (ss_repo st') = mem_outboxes (ss_repo st)"
    if left: "isl r"
  proof -
    obtain e where "r = Inl e" using left by (cases r) auto
    then show ?thesis using W by (cases e) (auto simp: write_outcome_def attempt_outcome_def)
  qed
qed

section \<open>The whole service\<close>

definition mem_model :: "third_party \<Rightarrow> inner store_model" where
  "mem_model D = \<lparr>sm_repo = in_memory D, sm_chain = mem_chain, sm_outbox = mem_outboxes,
     sm_storable = (\<lambda>_. True), sm_unused = True\<rparr>"

lemma mem_model_simps [simp]:
  "sm_repo (mem_model D) = in_memory D" "sm_chain (mem_model D) = mem_chain"
  "sm_outbox (mem_model D) = mem_outboxes" "sm_storable (mem_model D) = (\<lambda>_. True)"
  "sm_unused (mem_model D)"
  by (simp_all add: mem_model_def)

definition service_inv :: "third_party \<Rightarrow> app_config \<Rightarrow> inner service_state \<Rightarrow> bool" where
  "service_inv D cfg st \<longleftrightarrow> mem_inv D (ss_repo st) \<and> rooted D cfg (mem_chain (ss_repo st))
     \<and> delivered_logged (mem_outboxes (ss_repo st)) (ss_publish_log st)"

lemma service_inv_system: "service_inv D cfg = system_inv (mem_inv D) (mem_model D) D cfg"
  by (rule ext) (simp add: service_inv_def system_inv_def)

lemma mem_write_ready:
  "write_ready D (mem_model D) P cfg env input st \<longleftrightarrow>
     all_fresh env (mem_chain (ss_repo st)) (mem_outboxes (ss_repo st))"
  by (simp add: write_ready_def all_storable_def)

interpretation mem_system: ledger_system "mem_model D" "mem_inv D" True D "\<lambda>ts. ts" for D
proof (rule ledger_system.intro)
  show "ledger_store (sm_repo (mem_model D)) (mem_inv D) True (sm_chain (mem_model D)) D
      (sm_outbox (mem_model D)) (\<lambda>ts. ts) (sm_storable (mem_model D))"
    by (simp add: mem_ledger.ledger_store_axioms)
  show "outbox_store (sm_repo (mem_model D)) (mem_inv D) True (sm_chain (mem_model D)) (sm_outbox (mem_model D))"
    by (simp add: mem_outbox.outbox_store_axioms)
  show "ledger_system_axioms (mem_model D) (mem_inv D) True"
    by (rule ledger_system_axioms.intro) (auto simp: mem_ledger.pin [OF in_memory_reads_keep] mem_query_entries_def Let_def)
qed

lemma service_step_inv:
  assumes "service_step D (mem_model D) P cfg st st'" and "service_inv D cfg st" and "genesis_hash D cfg \<noteq> []"
  shows "service_inv D cfg st' \<and> extends (mem_chain (ss_repo st)) (mem_chain (ss_repo st'))"
  using mem_system.step_keeps [OF assms(1) _ assms(3)] assms(2) by (simp add: service_inv_system keeps_def)

lemma write_step_inv:
  assumes "service_inv D cfg st" and "all_fresh env (mem_chain (ss_repo st)) (mem_outboxes (ss_repo st))"
    and "genesis_hash D cfg \<noteq> []" and "write_entry D (in_memory D) P cfg env input st = (r, st')"
  shows "service_inv D cfg st' \<and> extends (mem_chain (ss_repo st)) (mem_chain (ss_repo st'))"
  using mem_system.keeps_write [of D cfg st P env input r st'] assms
  by (simp add: service_inv_system keeps_def mem_write_ready)

lemma reachable_inv:
  assumes "reachable D (mem_model D) P cfg st st'" and "service_inv D cfg st" and "genesis_hash D cfg \<noteq> []"
  shows "service_inv D cfg st' \<and> extends (mem_chain (ss_repo st)) (mem_chain (ss_repo st'))"
  using mem_system.reachable_keeps [OF assms(1) _ assms(3)] assms(2) by (simp add: service_inv_system keeps_def)

lemma service_inv_new:
  assumes "seed_ok seed"
  shows "service_inv D cfg (service_new (mem_default seed))"
proof -
  have "mem_chain (mem_default seed) = (\<lambda>_. [])"
    by (rule ext) (simp add: mem_chain_def mem_default_def)
  then show ?thesis
    using mem_inv_default [OF assms]
    by (simp add: service_inv_def service_new_def rooted_def intact_simps delivered_logged_def
        mem_outboxes_def mem_default_def)
qed

lemma service_inv_verifies:
  assumes "service_inv D cfg st" and "int (length (mem_chain (ss_repo st) t)) \<le> I64_MAX"
  shows "verify_chain D (in_memory D) cfg t None None st =
    Some (Inr (chain_ok (int (length (mem_chain (ss_repo st) t)))), st)"
proof -
  let ?es = "mem_chain (ss_repo st) t"
  from assms(1) have m: "mem_inv D (ss_repo st)" and "intact D (genesis_hash D cfg) ?es"
    by (simp_all add: service_inv_def rooted_def)
  then have "audit_range D (genesis_hash D cfg) ?es 0 (length ?es) = (chain_ok (int (length ?es)), False)"
    by (simp add: audit_range_def tip_hash_of_simps audit_intact)
  with mem_verify_chain_range [OF mem_inv_store_inv [OF m] refl mem_inv_positions [OF m] assms(2), of None 0 None]
  show ?thesis by (auto simp: count_failure_def)
qed

section \<open>Receipts\<close>

lemma outcome_ok_entry:
  assumes "write_outcome D P cfg env input reliable halted L ob (Inr out) L' ob'"
  shows "\<exists>e \<in> set (L' (we_entry_type input)). out = output_of_entry D e \<and> idempotent_request_matches e input"
proof -
  let ?e = "next_entry D L (en_draws env 0) (write_input_at D P cfg env input L 0)"
  consider "appended D P cfg env input 0 L ob L' ob'" "out = output_of_entry D ?e"
    | e where "replayed input L ob L' ob' e" "out = output_of_entry D e"
    using assms by (auto simp: write_outcome_def attempt_outcome_def)
  then show ?thesis
  proof cases
    case 1
    then have "?e \<in> set (L' (we_entry_type input))" by (simp add: appended_def append_entry_apply)
    with 1 idempotent_matches_new [of D L "en_draws env 0" P cfg env input 0] show ?thesis by blast
  next
    case 2
    then show ?thesis by (auto simp: replayed_def earlier_def)
  qed
qed

lemma commitment_position: "commitment D a = commitment D b \<Longrightarrow> le_chain_position a = le_chain_position b"
proof -
  have "ch_chain_position (snd (commitment D e)) = le_chain_position e" for e
    by (simp add: commitment_def committed_def committed_v2_def committed_v3_def entry_hash_input_def)
  then show "commitment D a = commitment D b \<Longrightarrow> le_chain_position a = le_chain_position b" by metis
qed

lemma mem_inv_hash_ok: "mem_inv D s \<Longrightarrow> e \<in> set (mem_chain s t) \<Longrightarrow> hash_ok D e \<and> le_entry_type e = t"
  by (simp add: mem_inv_def ledger_inv_def chain_inv_def)

lemma same_hash_collision:
  assumes m: "mem_inv D s" and enc: "encodings_ok D" and e: "e \<in> set (mem_chain s t)" "e' \<in> set (mem_chain s t)"
    and "le_entry_hash e = le_entry_hash e'" and "e \<noteq> e'"
  shows "sha256_collision D (preimage D e) (preimage D e')"
proof (rule ccontr)
  assume "\<not> sha256_collision D (preimage D e) (preimage D e')"
  with equal_hash_commitment [OF enc _ _ assms(5)] mem_inv_hash_ok [OF m e(1)] mem_inv_hash_ok [OF m e(2)]
  have "le_chain_position e = le_chain_position e'" by (auto intro: commitment_position)
  moreover obtain i j where "e = mem_chain s t ! i" "i < length (mem_chain s t)"
    "e' = mem_chain s t ! j" "j < length (mem_chain s t)"
    using e by (auto simp: in_set_conv_nth)
  ultimately have "e = e'" using positions_ok_nth [OF mem_inv_positions [OF m]] by (metis add_right_cancel of_nat_eq_iff)
  with assms(6) show False by simp
qed

section \<open>The background verifier on the in-memory repository\<close>

text \<open>The recent window of a chain and its report.\<close>

definition window :: "i64 \<Rightarrow> ledger_entry_record list \<Rightarrow> ledger_entry_record list" where
  "window n es = drop (length es - nat n) es"

definition before_window :: "i64 \<Rightarrow> ledger_entry_record list \<Rightarrow> ledger_entry_record list" where
  "before_window n es = take (length es - nat n) es"

definition window_report ::
    "third_party \<Rightarrow> app_config \<Rightarrow> i64 \<Rightarrow> ledger \<Rightarrow> string \<Rightarrow> verify_chain_output \<times> bool" where
  "window_report D cfg n L t = audit_range D (genesis_hash D cfg) (L t) (length (L t) - nat n) (length (L t))"

definition window_intact :: "third_party \<Rightarrow> app_config \<Rightarrow> i64 \<Rightarrow> ledger \<Rightarrow> string \<Rightarrow> bool" where
  "window_intact D cfg n L t \<longleftrightarrow>
     intact D (tip_hash_of (genesis_hash D cfg) (before_window n (L t))) (window n (L t))"

definition auditable :: "ledger \<Rightarrow> bool" where
  "auditable L \<longleftrightarrow> (\<forall>t. positions_ok (L t) \<and> int (length (L t)) \<le> I64_MAX)"

lemma window_report_valid: "vc_chain_valid (fst (window_report D cfg n L t)) \<longleftrightarrow> window_intact D cfg n L t"
  by (simp add: window_report_def audit_range_def audit_valid_iff window_intact_def window_def before_window_def)

lemma mem_verify_types:
  assumes "mem_store_inv (ss_repo st)" and "auditable (mem_chain (ss_repo st))" and n: "0 < n"
  shows "\<exists>st'. verify_types D (in_memory D) cfg n ts st =
      Some (map (\<lambda>t. chain_result_of t (Inr (fst (window_report D cfg n (mem_chain (ss_repo st)) t)))) ts, st')
    \<and> ss_repo st' = ss_repo st"
  using assms(1,2)
proof (induction ts arbitrary: st)
  case (Cons t ts)
  let ?A = "window_report D cfg n (mem_chain (ss_repo st)) t"
  have pos: "positions_ok (mem_chain (ss_repo st) t)" "int (length (mem_chain (ss_repo st) t)) \<le> I64_MAX"
    using Cons.prems(2) by (simp_all add: auditable_def)
  have v: "verify_recent_chain D (in_memory D) cfg t n st = Some (Inr (fst ?A), count_failure (snd ?A) st)"
    unfolding window_report_def by (rule mem_verify_recent_chain [OF Cons.prems(1) refl pos n])
  have same: "ss_repo (count_failure (snd ?A) st) = ss_repo st" by (simp add: count_failure_def)
  from Cons.IH [of "count_failure (snd ?A) st", unfolded same, OF Cons.prems] obtain st'
    where "verify_types D (in_memory D) cfg n ts (count_failure (snd ?A) st) =
      Some (map (\<lambda>t. chain_result_of t (Inr (fst (window_report D cfg n (mem_chain (ss_repo st)) t)))) ts, st')"
      "ss_repo st' = ss_repo st" by blast
  with v show ?case by simp
qed simp

lemma mem_run_verification:
  assumes inv: "mem_store_inv (ss_repo st)" and "auditable (mem_chain (ss_repo st))" and "0 < n"
  shows "\<exists>ts st'. run_verification D (in_memory D) cfg n st =
      Some (map (\<lambda>t. chain_result_of t (Inr (fst (window_report D cfg n (mem_chain (ss_repo st)) t)))) ts, st')
    \<and> ss_repo st' = ss_repo st \<and> sorted ts \<and> distinct ts \<and> set ts = {t. mem_chain (ss_repo st) t \<noteq> []}"
proof -
  obtain r s' where q: "repo_get_distinct_entry_types (in_memory D) (ss_repo st) = (r, s')" by fastforce
  have "mem_index_inv (ss_repo st)" using inv by (simp add: mem_store_inv_def)
  from in_memory_types [OF this q] obtain ts where ts: "s' = ss_repo st" "r = Inr ts" "sorted ts" "distinct ts"
    "set ts = {t. mem_chain (ss_repo st) t \<noteq> []}" by blast
  have "get_distinct_entry_types (in_memory D) st = (Inr ts, st)"
    unfolding get_distinct_entry_types_def map_err_repo_def on_repo_def q using ts(1,2) by simp
  with mem_verify_types [OF assms, of D cfg ts] ts(3-) show ?thesis
    by (auto simp: run_verification_def)
qed

section \<open>Fetching an entry\<close>

lemma mem_get_entry_found:
  assumes "mem_inv D (ss_repo st)" and "e \<in> set (mem_chain (ss_repo st) t)"
  shows "get_entry (in_memory D) (le_entry_id e) st = (Inr e, st)"
proof -
  have idx: "mem_index_inv (ss_repo st)" using assms(1) by (simp add: mem_inv_def)
  obtain r s' where q: "repo_get_entry (in_memory D) (le_entry_id e) (ss_repo st) = (r, s')" by fastforce
  note G = in_memory_get_entry [OF idx q]
  have "le_entry_id e \<in> le_entry_id ` all_entries (mem_chain (ss_repo st))"
    using assms(2) by (auto simp: all_entries_def)
  then obtain e' where r: "r = Inr e'" "e' \<in> set (mem_chain (ss_repo st) (le_entry_type e'))" "le_entry_id e' = le_entry_id e"
    using G by (cases r) auto
  have "e' = e"
    using mem_store.stored_id_unique [OF mem_inv_store_inv [OF assms(1)] r(2) assms(2) r(3)] .
  with G r(1) show ?thesis
    by (simp add: get_entry_def map_err_repo_def on_repo_def q [simplified])
qed

end
