(* ===== verification/Sample.thy ===== *)
theory Sample
  imports System
begin

text \<open>
  A concrete instance to run the model on: hexadecimal and UUID texts as documented, a
  one-byte digest in the place of SHA-256, the default configuration, one request, and the
  service before and after writing it.
\<close>

definition hex_digit :: "nat \<Rightarrow> char" where
  "hex_digit n = ''0123456789abcdef'' ! n"

definition hex_pair :: "u8 \<Rightarrow> string" where
  "hex_pair b = [hex_digit (unat b div 16), hex_digit (unat b mod 16)]"

definition sample_D :: third_party where
  "sample_D =
     \<lparr>sha256 = (\<lambda>bs. [foldl (\<lambda>h b. 31 * h + b) 7 bs]),
      hex_encode = (\<lambda>bs. concat (map hex_pair bs)),
      uuid_to_string = (\<lambda>u. nat_to_string (unat u)),
      uuid_from_str = (\<lambda>s. map_option word_of_nat (parse_unsigned 128 s)),
      timestamp_millis = (\<lambda>t. t),
      json_to_string = (\<lambda>_. ''{}'')\<rparr>"

definition sample_cfg :: app_config where
  "sample_cfg =
     \<lparr>cfg_grpc_port = 9092, cfg_health_port = 8080, cfg_metrics_port = 8083,
      cfg_max_content_size_bytes = 1048576, cfg_db_connection_string = ''host=db'',
      cfg_outbox_http_endpoint = None, cfg_outbox_http_bearer_token = None,
      cfg_outbox_http_timeout_seconds = 10, cfg_genesis_hash_input = ''ARE_LEDGER_GENESIS'',
      cfg_pool_max_size = 16, cfg_chain_max_retries = 10, cfg_chain_halt_recovery_seconds = 60,
      cfg_outbox_max_retries = 10, cfg_verify_interval_seconds = 300,
      cfg_verify_max_entries_per_chain = 10000, cfg_api_token = None, cfg_shutdown_token = None\<rparr>"

definition sample_seed :: hash_seed where
  "sample_seed n = [0..<n]"

definition sample_publisher :: publisher where
  "sample_publisher = \<lparr>pub_is_enabled = True, pub_publish = (\<lambda>n _. if n = 0 then Inl ''refused'' else Inr ())\<rparr>"

definition sample_input :: write_entry_input where
  "sample_input =
     \<lparr>we_entry_type = ''agent.decision'', we_agent_id = ''agent-1'', we_content = [1, 2, 3],
      we_content_type = ''application/json'', we_source_id = ''unit'', we_correlation_id = None,
      we_idempotency_key = Some ''k1'', we_input_hash = None, we_writer_signature = None,
      we_signer_key_reference = None, we_attestation_report = None\<rparr>"

definition sample_env :: write_env where
  "sample_env =
     \<lparr>en_check_time = 0, en_halt_time = 0,
      en_draws = (\<lambda>k. \<lparr>dr_entry_id = word_of_nat (3 * k + 1), dr_outbox_id = word_of_nat (3 * k + 2),
                        dr_event_id = word_of_nat (3 * k + 3)\<rparr>),
      en_now = (\<lambda>k. 1700000000000 + int k)\<rparr>"

definition sample_start :: "inner service_state" where
  "sample_start = service_new (mem_default sample_seed)"

definition sample_written :: "inner service_state" where
  "sample_written =
     snd (write_entry sample_D (in_memory sample_D) sample_publisher sample_cfg sample_env sample_input sample_start)"

section \<open>The documented properties hold\<close>

lemma hex_digit_inject: "m < 16 \<Longrightarrow> n < 16 \<Longrightarrow> hex_digit m = hex_digit n \<longleftrightarrow> m = n"
  by (auto simp: hex_digit_def nth_eq_iff_index_eq)

lemma hex_pair_inject: "hex_pair a = hex_pair b \<longleftrightarrow> a = b"
proof
  assume eq: "hex_pair a = hex_pair b"
  have lt: "unat c div 16 < 16" "unat c mod 16 < 16" for c :: u8
    using unsigned_less [where 'a = nat, of c] by simp_all
  from eq lt have "unat a div 16 = unat b div 16" "unat a mod 16 = unat b mod 16"
    by (simp_all add: hex_pair_def hex_digit_inject)
  then have "unat a = unat b" by (metis div_mult_mod_eq)
  then show "a = b" by (simp only: unsigned_word_eqI)
qed simp

lemma sample_hex_inj: "inj (hex_encode sample_D)"
proof (rule injI)
  fix xs ys assume "hex_encode sample_D xs = hex_encode sample_D ys"
  then have "concat (map hex_pair xs) = concat (map hex_pair ys)" by (simp add: sample_D_def)
  then show "xs = ys"
  proof (induction xs arbitrary: ys)
    case Nil
    then show ?case by (cases ys) (auto simp: hex_pair_def)
  next
    case (Cons x xs)
    then obtain y ys' where ys: "ys = y # ys'" by (cases ys) (auto simp: hex_pair_def)
    have len: "length (hex_pair x) = length (hex_pair y)" by (simp add: hex_pair_def)
    have "hex_pair x @ concat (map hex_pair xs) = hex_pair y @ concat (map hex_pair ys')"
      using Cons.prems ys by simp
    with len have "hex_pair x = hex_pair y" "concat (map hex_pair xs) = concat (map hex_pair ys')"
      by auto
    with Cons.IH ys show ?case by (simp add: hex_pair_inject)
  qed
qed

lemma sample_encodings_ok: "encodings_ok sample_D"
proof -
  have "uuid_from_str sample_D (uuid_to_string sample_D u) = Some u" for u
    using unsigned_less [where 'a = nat, of u] by (simp add: sample_D_def parse_unsigned_nat_to_string)
  with sample_hex_inj show ?thesis by (simp add: encodings_ok_def)
qed

lemma sample_genesis: "genesis_hash sample_D cfg \<noteq> []"
  by (simp add: genesis_hash_def sha256_hex_def sample_D_def hex_pair_def)

lemma sample_seed_ok: "seed_ok sample_seed"
  by (simp add: seed_ok_def sample_seed_def)

section \<open>The first write\<close>

lemma sample_start_inv: "service_inv sample_D cfg sample_start"
  unfolding sample_start_def by (rule service_inv_new [OF sample_seed_ok])

lemma sample_start_repo: "ss_repo sample_start = mem_default sample_seed"
  by (simp add: sample_start_def service_new_def)

lemma sample_start_chains: "mem_chain (ss_repo sample_start) = (\<lambda>_. [])"
  unfolding sample_start_repo by (rule ext) (simp add: mem_chain_def mem_default_def)

lemma sample_start_outboxes: "mem_outboxes (ss_repo sample_start) = (\<lambda>_. None)"
  unfolding sample_start_repo by (rule ext) (simp add: mem_outboxes_def mem_default_def)

lemma sample_fresh: "all_fresh env (mem_chain (ss_repo sample_start)) (mem_outboxes (ss_repo sample_start))"
  unfolding sample_start_chains sample_start_outboxes
  by (simp add: all_fresh_def fresh_draws_def all_entries_def)

lemma sample_valid: "validate_write sample_cfg sample_input = None"
  by (simp add: validate_write_def sample_cfg_def sample_input_def)

lemma sample_not_halted: "\<not> is_halted cfg now t sample_start"
  by (simp add: is_halted_def check_halted_def sample_start_def service_new_def)

abbreviation sample_entry :: ledger_entry_record where
  "sample_entry \<equiv> next_entry sample_D (\<lambda>_. []) (en_draws sample_env 0)
     (write_input_at sample_D sample_publisher sample_cfg sample_env sample_input (\<lambda>_. []) 0)"

lemma sample_write:
  "write_entry sample_D (in_memory sample_D) sample_publisher sample_cfg sample_env sample_input sample_start
     = (Inr (output_of_entry sample_D sample_entry), sample_written)"
  and sample_written_chains: "mem_chain (ss_repo sample_written) =
     (\<lambda>t. if t = ''agent.decision'' then [sample_entry] else [])"
  and sample_written_outboxes: "mem_outboxes (ss_repo sample_written) =
     [2 \<mapsto> next_outbox sample_D (\<lambda>_. []) (en_draws sample_env 0)
        (write_input_at sample_D sample_publisher sample_cfg sample_env sample_input (\<lambda>_. []) 0)]"
  and sample_written_inv: "service_inv sample_D sample_cfg sample_written"
proof -
  obtain r where w: "write_entry sample_D (in_memory sample_D) sample_publisher sample_cfg sample_env
      sample_input sample_start = (r, sample_written)"
    by (metis prod.collapse sample_written_def)
  have m: "mem_inv sample_D (ss_repo sample_start)" using sample_start_inv by (simp add: service_inv_def)
  note W = mem_write_entry [OF m sample_fresh sample_genesis w]
  have "cfg_chain_max_retries sample_cfg \<noteq> 0" by (simp add: sample_cfg_def)
  from outcome_success [OF W(2) sample_valid sample_not_halted this]
  have S: "appended sample_D sample_publisher sample_cfg sample_env sample_input 0 (\<lambda>_. []) (\<lambda>_. None)
      (mem_chain (ss_repo sample_written)) (mem_outboxes (ss_repo sample_written))"
    and r: "r = Inr (output_of_entry sample_D sample_entry)"
    by (simp_all add: sample_start_chains sample_start_outboxes key_used_def)
  show "write_entry sample_D (in_memory sample_D) sample_publisher sample_cfg sample_env sample_input sample_start
     = (Inr (output_of_entry sample_D sample_entry), sample_written)" using w r by simp
  show "mem_chain (ss_repo sample_written) = (\<lambda>t. if t = ''agent.decision'' then [sample_entry] else [])"
    using S by (auto simp: appended_def append_entry_apply sample_input_def fun_eq_iff)
  have "wi_create_outbox (write_input_at sample_D sample_publisher sample_cfg sample_env sample_input (\<lambda>_. []) 0)"
    "dr_outbox_id (en_draws sample_env 0) = 2"
    by (simp_all add: write_input_at_def entry_write_input_of_def sample_publisher_def sample_env_def)
  with S show "mem_outboxes (ss_repo sample_written) =
     [2 \<mapsto> next_outbox sample_D (\<lambda>_. []) (en_draws sample_env 0)
        (write_input_at sample_D sample_publisher sample_cfg sample_env sample_input (\<lambda>_. []) 0)]"
    by (simp add: appended_def append_outbox_def)
  show "service_inv sample_D sample_cfg sample_written"
    using write_step_inv [OF sample_start_inv sample_fresh sample_genesis w] by blast
qed

lemma sample_written_mem_inv: "mem_inv sample_D (ss_repo sample_written)"
  using sample_written_inv by (simp add: service_inv_def)

lemma sample_written_store_inv: "mem_store_inv (ss_repo sample_written)"
  by (rule mem_inv_store_inv) (rule sample_written_mem_inv)

lemma sample_verifies:
  "verify_chain sample_D (in_memory sample_D) sample_cfg ''agent.decision'' None None sample_written =
     Some (Inr (chain_ok 1), sample_written)"
  using service_inv_verifies [OF sample_written_inv, of "''agent.decision''"]
  by (simp add: sample_written_chains I64_MAX_def)

lemma sample_reachable: "reachable sample_D (mem_model sample_D) sample_publisher sample_cfg sample_start sample_written"
  by (rule reachable.later [OF reachable.here service_step.writes [of _ _ _ _ sample_env sample_input]])
    (simp_all add: mem_write_ready sample_fresh sample_write)

lemma sample_start_mem_inv: "mem_inv sample_D (ss_repo sample_start)"
  using sample_start_inv [of sample_cfg] by (simp add: service_inv_def)

text \<open>The surroundings of a second write.\<close>

definition sample_retry_env :: write_env where
  "sample_retry_env = sample_env
     \<lparr>en_draws := (\<lambda>k. \<lparr>dr_entry_id = word_of_nat (3 * (k mod 10) + 1001),
        dr_outbox_id = word_of_nat (3 * (k mod 10) + 1002), dr_event_id = word_of_nat (3 * (k mod 10) + 1003)\<rparr>)\<rparr>"

lemma small_uuid_eq: "m < 2000 \<Longrightarrow> n < 2000 \<Longrightarrow> (word_of_nat m :: uuid) = word_of_nat n \<longleftrightarrow> m = n"
  by (simp add: word_of_nat_eq_iff take_bit_nat_eq_self)

lemma sample_retry_draws: "dr_entry_id (en_draws sample_retry_env k) \<noteq> 1" "dr_outbox_id (en_draws sample_retry_env k) \<noteq> 2"
proof -
  have k: "k mod 10 < 10" by simp
  show "dr_entry_id (en_draws sample_retry_env k) \<noteq> 1"
    using small_uuid_eq [of "3 * (k mod 10) + 1001" 1] k by (simp add: sample_retry_env_def)
  show "dr_outbox_id (en_draws sample_retry_env k) \<noteq> 2"
    using small_uuid_eq [of "3 * (k mod 10) + 1002" 2] k by (simp add: sample_retry_env_def)
qed

lemma sample_retry_fresh:
  "all_fresh sample_retry_env (mem_chain (ss_repo sample_written)) (mem_outboxes (ss_repo sample_written))"
proof -
  have "all_entries (mem_chain (ss_repo sample_written)) = {sample_entry}"
    by (auto simp: all_entries_def sample_written_chains split: if_splits)
  then show ?thesis
    using sample_retry_draws by (simp add: all_fresh_def fresh_draws_def sample_written_outboxes sample_env_def)
qed

lemma sample_written_not_halted: "\<not> is_halted cfg now t sample_written"
proof -
  have "ss_chain_halted sample_written t = None"
    using write_entry_keeps_unhalted [OF sample_write, of t]
    by (simp add: sample_start_def service_new_def)
  then show ?thesis by (simp add: is_halted_def check_halted_def)
qed

lemma sample_start_new: "service_new (mem_default sample_seed) = sample_start"
  by (simp add: sample_start_def)

section \<open>Stores with one altered entry, and a repository that never accepts an append\<close>

definition one_entry_state :: "ledger_entry_record \<Rightarrow> inner service_state" where
  "one_entry_state e = service_new
     \<lparr>im_entries = [(1, e)], im_ordered_by_type = [(''agent.decision'', [1])],
      im_chain_tips = [(''agent.decision'', entry_chain_tip e)],
      im_idempotency_index = [], im_outbox = [], im_seed = sample_seed\<rparr>"

definition forged_entry :: ledger_entry_record where
  "forged_entry = sample_entry\<lparr>le_previous_hash := ''forged''\<rparr>"

text \<open>An absent correlation id and an empty one have the same canonical form.\<close>

definition variant_entry :: ledger_entry_record where
  "variant_entry = sample_entry\<lparr>le_correlation_id := Some []\<rparr>"

abbreviation forged_state :: "inner service_state" where
  "forged_state \<equiv> one_entry_state forged_entry"

lemma one_entry_chain: "mem_chain (ss_repo (one_entry_state e)) t = (if t = ''agent.decision'' then [e] else [])"
  by (simp add: one_entry_state_def service_new_def mem_chain_def hm_get_def List.map_filter_simps)

lemma one_entry_metrics: "ss_metrics (one_entry_state e) = metrics_init"
  by (simp add: one_entry_state_def service_new_def)

lemma one_entry_inv:
  assumes "le_entry_id e = 1" and "le_entry_type e = ''agent.decision''"
  shows "mem_store_inv (ss_repo (one_entry_state e))"
  unfolding mem_store_inv_def
proof
  show "mem_index_inv (ss_repo (one_entry_state e))"
    using assms
    by (simp add: mem_index_inv_def one_entry_state_def service_new_def hm_get_def hm_wf_def sample_seed_ok)
  show "\<forall>t. ascending (mem_chain (ss_repo (one_entry_state e)) t)
      \<and> tip_matches (mem_chain (ss_repo (one_entry_state e)) t)
          (hm_get (im_chain_tips (ss_repo (one_entry_state e))) t)"
    unfolding one_entry_chain
    by (simp add: ascending_def tip_matches_def entry_chain_tip_def one_entry_state_def service_new_def hm_get_def)
qed

lemma sample_entry_simps:
  "le_entry_id sample_entry = 1" "le_entry_type sample_entry = ''agent.decision''"
  "le_chain_position sample_entry = 1"
  by (simp_all add: sample_env_def sample_input_def)

lemma forged_entry_simps:
  "le_entry_id forged_entry = 1" "le_entry_type forged_entry = ''agent.decision''"
  "le_chain_position forged_entry = 1" "le_previous_hash forged_entry = ''forged''"
  using sample_entry_simps by (simp_all add: forged_entry_def)

lemma variant_entry_simps:
  "le_entry_id variant_entry = 1" "le_entry_type variant_entry = ''agent.decision''"
  "le_chain_position variant_entry = 1" "le_entry_hash variant_entry = le_entry_hash sample_entry"
  using sample_entry_simps by (simp_all add: variant_entry_def)

lemmas forged_store_inv = one_entry_inv [OF forged_entry_simps(1,2)]
lemmas variant_store_inv = one_entry_inv [OF variant_entry_simps(1,2)]

lemma variant_differs: "variant_entry \<noteq> sample_entry"
proof
  assume "variant_entry = sample_entry"
  then have "le_correlation_id variant_entry = le_correlation_id sample_entry" by simp
  then show False
    by (simp add: variant_entry_def next_entry_def write_input_at_def entry_write_input_of_def sample_input_def)
qed

lemma variant_verifies:
  "verify_chain sample_D (in_memory sample_D) sample_cfg ''agent.decision'' None None (one_entry_state variant_entry) =
     Some (Inr (chain_ok 1), one_entry_state variant_entry)"
proof -
  have "le_correlation_id sample_entry = None"
    by (simp add: next_entry_def write_input_at_def entry_write_input_of_def sample_input_def)
  then have "recompute_hash sample_D variant_entry = recompute_hash sample_D sample_entry"
    by (simp add: recompute_hash_def entry_hash_input_def variant_entry_def canonical_entry_hash_for_version_def
        canonical_entry_hash_v2_def canonical_entry_hash_v3_def canonical_bytes_v2_def canonical_bytes_v3_def)
  moreover have "hash_ok sample_D sample_entry" by simp
  ultimately have "intact sample_D (genesis_hash sample_D sample_cfg) [variant_entry]"
    by (simp add: intact_def hash_ok_def variant_entry_simps)
      (simp add: variant_entry_def tip_hash_of_simps)
  then have "audit sample_D (genesis_hash sample_D sample_cfg) 0 [variant_entry] = (chain_ok 1, False)"
    using audit_intact [of sample_D _ "[variant_entry]" 0] by simp
  then show ?thesis
    using mem_verify_chain_range [OF variant_store_inv, of "''agent.decision''" "[variant_entry]" None 0 None 1
        sample_D sample_cfg]
    by (simp add: one_entry_chain positions_ok_def I64_MAX_def audit_range_def tip_hash_of_simps
        variant_entry_simps count_failure_def del: audit.simps)
qed

lemma forged_fault:
  "entry_fault sample_D (genesis_hash sample_D sample_cfg) forged_entry = Some ''chain_link_mismatch''"
proof -
  have "length (genesis_hash sample_D sample_cfg) = 2"
    by (simp add: genesis_hash_def sha256_hex_def sample_D_def hex_pair_def)
  then have "genesis_hash sample_D sample_cfg \<noteq> ''forged''" by auto
  then show ?thesis by (auto simp: entry_fault_def forged_entry_simps)
qed

definition contended :: "inner ledger_repository" where
  "contended = (in_memory sample_D)
     \<lparr>repo_get_chain_tip := (\<lambda>t s. (Inr (entry_chain_tip sample_entry), s)),
      repo_write_entry_with_outbox := (\<lambda>d w s. (Inl ChainIntegrityViolation, s))\<rparr>"

lemma contended_always: "always_conflicts contended t"
  by (simp add: always_conflicts_def contended_def)

definition keyless_input :: write_entry_input where
  "keyless_input = sample_input\<lparr>we_idempotency_key := None\<rparr>"

lemma keyless_valid: "validate_write sample_cfg keyless_input = None"
  by (simp add: validate_write_def sample_cfg_def sample_input_def keyless_input_def)

section \<open>Publishing the event of the first write\<close>

lemma single_event_pass:
  assumes m: "mem_inv D (ss_repo st)" and ob: "mem_outboxes (ss_repo st) = [i \<mapsto> x]" and x: "ob_status x = Pending"
    and ok: "ok = (\<not> isl (pub_publish P (length (ss_publish_log st)) x))"
    and st': "st' = outbox_iteration P (in_memory D) cfg st"
  shows "mem_inv D (ss_repo st')"
    and "mem_outboxes (ss_repo st') = [i \<mapsto> next_record (cfg_outbox_max_retries cfg) ok x]"
    and "ss_publish_log st' = ss_publish_log st @ [(x, ok)]"
proof -
  from mem_outbox.outbox_iteration_spec [OF m TrueI st'] obtain xs
    where xs: "distinct (map ob_outbox_id xs)" "set xs = {x \<in> ran (mem_outboxes (ss_repo st)). ob_status x = Pending}"
      and res: "mem_inv D (ss_repo st')" "mem_outboxes (ss_repo st') = settle (cfg_outbox_max_retries cfg)
        (mem_outboxes (ss_repo st)) (publish_outcomes P (length (ss_publish_log st)) xs)"
        "ss_publish_log st' = ss_publish_log st @ publish_outcomes P (length (ss_publish_log st)) xs" by blast
  have "set xs = {x}" using xs(2) x by (auto simp: ob ran_def)
  then have "xs = [x]" using xs(1) by (cases xs; cases "tl xs") auto
  moreover have "ob_outbox_id x = i" using mem_outbox.outbox_key [OF m, of i x] by (simp add: ob)
  ultimately show "mem_inv D (ss_repo st')"
    and "mem_outboxes (ss_repo st') = [i \<mapsto> next_record (cfg_outbox_max_retries cfg) ok x]"
    and "ss_publish_log st' = ss_publish_log st @ [(x, ok)]"
    using res ok ob by simp_all
qed

definition sample_delivered :: "inner service_state" where
  "sample_delivered = outbox_iteration sample_publisher (in_memory sample_D) sample_cfg
     (outbox_iteration sample_publisher (in_memory sample_D) sample_cfg sample_written)"

lemma sample_delivered_reachable: "reachable sample_D (mem_model sample_D) sample_publisher sample_cfg sample_start sample_delivered"
proof -
  have "starts_outbox_processor sample_publisher" by (simp add: starts_outbox_processor_def sample_publisher_def)
  from service_step.background [OF background_step.publishes [OF this, of sample_D "mem_model sample_D" sample_cfg]]
  have step: "service_step sample_D (mem_model sample_D) sample_publisher sample_cfg st
      (outbox_iteration sample_publisher (in_memory sample_D) sample_cfg st)" for st by simp
  show ?thesis
    unfolding sample_delivered_def
    by (rule reachable.later [OF reachable.later [OF sample_reachable step] step])
qed

lemma sample_delivered_event: "\<exists>x. mem_outboxes (ss_repo sample_delivered) 2 = Some x \<and> ob_status x = Delivered"
proof -
  let ?x = "next_outbox sample_D (\<lambda>_. []) (en_draws sample_env 0)
    (write_input_at sample_D sample_publisher sample_cfg sample_env sample_input (\<lambda>_. []) 0)"
  have log: "ss_publish_log sample_written = []"
    using write_entry_log [OF sample_write] by (simp add: sample_start_def service_new_def)
  have x: "ob_status ?x = Pending" "ob_attempt_count ?x = 0" by (simp_all add: next_outbox_def new_outbox_def)
  have refused: "False = (\<not> isl (pub_publish sample_publisher (length (ss_publish_log sample_written)) ?x))"
    by (simp add: log sample_publisher_def)
  note A = single_event_pass [OF sample_written_mem_inv sample_written_outboxes x(1) refused refl, of sample_cfg]
  let ?y = "next_record (cfg_outbox_max_retries sample_cfg) False ?x"
  have y: "ob_status ?y = Pending" using x by (simp add: next_record_def sample_cfg_def)
  have accepted: "True = (\<not> isl (pub_publish sample_publisher (length (ss_publish_log
      (outbox_iteration sample_publisher (in_memory sample_D) sample_cfg sample_written))) ?y))"
    by (simp only: A(3) log) (simp add: sample_publisher_def)
  from single_event_pass(2) [OF A(1,2) y accepted refl, of sample_cfg] show ?thesis
    by (simp add: sample_delivered_def next_record_def)
qed

definition sample_query :: query_entries_input where
  "sample_query =
     \<lparr>qi_entry_type = Some ''agent.'', qi_agent_id = None, qi_source_id = Some ''unit'', qi_correlation_id = None,
      qi_from_ts = None, qi_to_ts = None, qi_page_size = 0, qi_page_token = None\<rparr>"

definition sample_request :: pb_write_entry_request where
  "sample_request =
     \<lparr>wq_entry_type = ''agent.decision'', wq_agent_id = ''agent-1'', wq_content = [1, 2, 3],
      wq_content_type = ''application/json'', wq_source_id = ''unit'', wq_correlation_id = [],
      wq_idempotency_key = ''k1'', wq_input_hash = [], wq_writer_signature = [],
      wq_signer_key_reference = [], wq_attestation_report = []\<rparr>"

lemma sample_request_input: "write_input_of_request sample_request = sample_input"
  by (simp add: write_input_of_request_def sample_request_def sample_input_def empty_to_none_def)

definition sample_driver :: "unit pg_driver" where
  "sample_driver =
     \<lparr>pg_usable_roots = 0, pg_connect = (\<lambda>_ _. Inr ()),
      pg_has_table_privilege = (\<lambda>_ _ p. Inr (p = ''INSERT'' \<or> p = ''SELECT'')),
      pg_parse_config = (\<lambda>_. True), pg_build_pool = (\<lambda>n. 0 < n)\<rparr>"

definition sample_http :: http_client where
  "sample_http =
     \<lparr>hc_parse_url = Inr, hc_build = (\<lambda>_. None), hc_send = (\<lambda>_ _. Inr 200),
      hc_error_for_status = (\<lambda>c. if 400 \<le> c \<and> c < 600 then Some ''status'' else None)\<rparr>"

lemma sample_server_starts:
  "\<exists>server. start_server sample_driver sample_http [''ARE_LEDGER_DB_CONNECTION_STRING'' \<mapsto> ''host=db''] = Inr server"
proof -
  have "parse_ssl_mode ''host=db'' = None"
    by code_simp
  then have tls: "make_pg_tls 0 ''host=db'' = Inr Plain" by (simp add: make_pg_tls_def)
  show ?thesis
    by (simp add: start_server_def from_env_def parse_u16_def parse_usize_def required_def parse_nonzero_u64_def
        parse_verify_interval_def parse_positive_i64_def verify_ledger_entries_immutable_def sample_driver_def tls
        evaluate_permissions_def build_pool_def http_publisher_new_def sample_http_def optional_def)
qed

lemma huge_u32_negative:
  assumes "2 ^ 31 \<le> unat (w :: u32)"
  shows "sint w < 0"
proof -
  define n where "n = unat w"
  have w: "uint w = int n" by (simp add: n_def)
  have "2 ^ 31 \<le> n" "n < 2 ^ 32" using assms unsigned_less [where 'a = nat, of w] by (simp_all add: n_def)
  then have "uint w < 2 ^ 32" "2 ^ 31 \<le> uint w" unfolding w by simp_all
  then have "uint w div 2 ^ 31 = 1" by simp
  then have "bit (uint w) 31" by (simp add: bit_iff_odd)
  then show ?thesis by (simp add: sint_uint signed_take_bit_negative_iff)
qed

end
