(* ===== verification/Sql.thy ===== *)
theory Sql
  imports Ledger_Prelude Complex_Main "HOL-Library.Log_Nat"
begin

text \<open>
  What the SQL of \<open>src/repository/postgres.rs\<close> and of the migrations computes on values:
  characters of UTF-8 text, storing text in a \<open>VARCHAR(n)\<close> column, the \<open>LIKE\<close> operator,
  \<open>ORDER BY\<close> over rows that arrive in an arbitrary order, and the double-precision
  arithmetic that turns a millisecond bound into the argument of \<open>to_timestamp\<close>.
\<close>

section \<open>Characters\<close>

text \<open>A byte that continues a UTF-8 character.\<close>

definition is_continuation :: "char \<Rightarrow> bool" where
  "is_continuation c \<longleftrightarrow> 128 \<le> (of_char c :: nat) \<and> (of_char c :: nat) < 192"

text \<open>The first \<open>n\<close> characters of a text, and the rest.\<close>

fun take_chars :: "nat \<Rightarrow> string \<Rightarrow> string" where
  "take_chars n [] = []"
| "take_chars n (c # s) =
     (if is_continuation c then c # take_chars n s
      else case n of 0 \<Rightarrow> [] | Suc m \<Rightarrow> c # take_chars m s)"

fun drop_chars :: "nat \<Rightarrow> string \<Rightarrow> string" where
  "drop_chars n [] = []"
| "drop_chars n (c # s) =
     (if is_continuation c then drop_chars n s
      else case n of 0 \<Rightarrow> c # s | Suc m \<Rightarrow> drop_chars m s)"

definition drop_char :: "string \<Rightarrow> string" where
  "drop_char s = dropWhile is_continuation (tl s)"

lemma take_drop_chars: "take_chars n s @ drop_chars n s = s"
  by (induction n s rule: take_chars.induct) (auto split: nat.splits)

lemma take_chars_all: "drop_chars n s = [] \<Longrightarrow> take_chars n s = s"
  by (metis append_Nil2 take_drop_chars)

lemma drop_chars_length: "length s \<le> n \<Longrightarrow> drop_chars n s = []"
  by (induction n s rule: drop_chars.induct) (auto split: nat.splits)

section \<open>VARCHAR columns\<close>

text \<open>
  Assigning a text to a \<open>VARCHAR(n)\<close> column: a zero byte is an error; characters beyond the
  first \<open>n\<close> are an error unless they are all spaces, in which case they are cut off.
\<close>

definition varchar_error :: "nat \<Rightarrow> string \<Rightarrow> bool" where
  "varchar_error n s \<longleftrightarrow> CHR 0x00 \<in> set s \<or> \<not> list_all (\<lambda>c. c = CHR '' '') (drop_chars n s)"

definition varchar_kept :: "nat \<Rightarrow> string \<Rightarrow> bool" where
  "varchar_kept n s \<longleftrightarrow> \<not> varchar_error n s \<longrightarrow> drop_chars n s = []"

lemma varchar_kept_take: "varchar_kept n s \<Longrightarrow> \<not> varchar_error n s \<Longrightarrow> take_chars n s = s"
  by (simp add: varchar_kept_def take_chars_all)

lemma varchar_kept_length: "length s \<le> n \<Longrightarrow> varchar_kept n s"
  by (simp add: varchar_kept_def drop_chars_length)

text \<open>Nullable columns.\<close>

definition opt_holds :: "('a \<Rightarrow> bool) \<Rightarrow> 'a option \<Rightarrow> bool" where
  "opt_holds Q x = (case x of None \<Rightarrow> False | Some v \<Rightarrow> Q v)"

definition opt_all :: "('a \<Rightarrow> bool) \<Rightarrow> 'a option \<Rightarrow> bool" where
  "opt_all Q x = (case x of None \<Rightarrow> True | Some v \<Rightarrow> Q v)"

lemma opt_simps [simp]:
  "\<not> opt_holds Q None" "opt_holds Q (Some v) = Q v" "opt_all Q None" "opt_all Q (Some v) = Q v"
  by (simp_all add: opt_holds_def opt_all_def)

lemma varchar_kept_opt:
  "opt_all (varchar_kept n) x \<Longrightarrow> \<not> opt_holds (varchar_error n) x \<Longrightarrow> map_option (take_chars n) x = x"
  by (cases x) (simp_all add: varchar_kept_take)

section \<open>LIKE\<close>

text \<open>
  \<open>like_match pattern text\<close>: a percent sign matches any characters, an underscore one
  character, a backslash takes the next character literally. A pattern that ends inside an
  escape is an error in SQL; the patterns of the code end with a percent sign and never do.
\<close>

function like_match :: "string \<Rightarrow> string \<Rightarrow> bool" where
  "like_match [] s \<longleftrightarrow> s = []"
| "like_match (c # p) s \<longleftrightarrow>
     (if c = CHR ''%'' then like_match p s \<or> (if s = [] then False else like_match (c # p) (drop_char s))
      else if c = CHR ''_'' then if s = [] then False else like_match p (drop_char s)
      else if c = CHR 0x5C
      then (case p of
              [] \<Rightarrow> False
            | d # p' \<Rightarrow> (case s of [] \<Rightarrow> False | x # s' \<Rightarrow> x = d \<and> like_match p' s'))
      else (case s of [] \<Rightarrow> False | x # s' \<Rightarrow> x = c \<and> like_match p s'))"
  by pat_completeness auto

lemma length_drop_char: "s \<noteq> [] \<Longrightarrow> length (drop_char s) < length s"
  unfolding drop_char_def by (cases s) (simp_all add: le_imp_less_Suc length_dropWhile_le)

termination like_match
  by (relation "measure (\<lambda>(p, s). length p + length s)") (auto dest: length_drop_char)

declare like_match.simps [simp del]

lemma like_percent: "like_match [CHR ''%''] s"
proof (induction "length s" arbitrary: s rule: less_induct)
  case less
  then show ?case
    using like_match.simps(2) [of "CHR ''%''" "[]" s] by (cases "s = []") (simp_all add: length_drop_char like_match.simps(1))
qed

definition like_plain :: "string \<Rightarrow> bool" where
  "like_plain p \<longleftrightarrow> list_all (\<lambda>c. c \<noteq> CHR ''%'' \<and> c \<noteq> CHR ''_'' \<and> c \<noteq> CHR 0x5C) p"

lemma like_match_prefix: "like_match q s \<Longrightarrow> like_plain p \<Longrightarrow> like_match (p @ q) (p @ s)"
  by (induction p) (simp_all add: like_plain_def like_match.simps(2))

text \<open>Without special characters the pattern of the code is a prefix test.\<close>

lemma like_prefix: "like_plain p \<Longrightarrow> like_match (p @ ''%'') s \<longleftrightarrow> (\<exists>rest. s = p @ rest)"
proof (induction p arbitrary: s)
  case (Cons c p)
  then show ?case
    by (cases s) (auto simp: like_plain_def like_match.simps(2) [of c "p @ ''%''"])
qed (simp add: like_percent)

section \<open>ORDER BY\<close>

text \<open>
  Without \<open>ORDER BY\<close> the rows of a table come in any order, here the rearrangement
  \<open>seed\<close>; \<open>ORDER BY\<close> sorts them by a key and leaves ties in that order.
\<close>

definition order_by :: "hash_seed \<Rightarrow> ('row \<Rightarrow> 'k::linorder) \<Rightarrow> 'row list \<Rightarrow> 'row list" where
  "order_by seed key rows = sort_key key (iterate seed rows)"

lemma set_order_by [simp]: "seed_ok seed \<Longrightarrow> set (order_by seed key rows) = set rows"
  by (simp add: order_by_def set_iterate)

lemma sorted_order_by [simp]: "sorted (map key (order_by seed key rows))"
  by (simp add: order_by_def)

lemma length_order_by [simp]: "seed_ok seed \<Longrightarrow> length (order_by seed key rows) = length rows"
  by (simp add: order_by_def length_iterate)

lemma distinct_order_by: "seed_ok seed \<Longrightarrow> distinct rows \<Longrightarrow> distinct (order_by seed key rows)"
  by (simp add: order_by_def distinct_iterate)

text \<open>With distinct keys the order is determined.\<close>

lemma sorted_key_unique:
  assumes "set xs = set ys" and "distinct xs" and "distinct ys" and "inj_on key (set xs)"
    and "sorted (map key xs)" and "sorted (map key ys)"
  shows "xs = ys"
proof -
  have "map key xs = map key ys"
    by (rule sorted_distinct_set_unique) (use assms in \<open>simp_all add: distinct_map\<close>)
  then show ?thesis using assms(1,4) by (metis inj_on_Un_image_eq_iff map_inj_on sup.idem)
qed

lemma order_by_eq:
  assumes "seed_ok seed" and "distinct rows" and "inj_on key (set rows)"
  shows "order_by seed key rows = sort_key key rows"
  by (rule sorted_key_unique [where key = key]) (simp_all add: assms distinct_order_by)

section \<open>Double precision\<close>

text \<open>
  A double is the rational it stands for, and an operation rounds the exact result to 53
  significant bits, ties to even. The magnitudes here are zero or between 1/1000 and 2 to
  the 63, far inside the range of the exponent.
\<close>

type_synonym f64 = rat

definition round_half_even :: "rat \<Rightarrow> int" where
  "round_half_even x =
     (let f = \<lfloor>x\<rfloor>; d = x - of_int f
      in if d < 1 / 2 \<or> (d = 1 / 2 \<and> even f) then f else f + 1)"

definition f64_exponent :: "rat \<Rightarrow> int" where
  "f64_exponent x = int (floorlog 2 (nat \<lfloor>\<bar>x\<bar> * 2 ^ 64\<rfloor>)) - 117"

definition f64_round :: "rat \<Rightarrow> f64" where
  "f64_round x =
     of_int (round_half_even (x * 2 powi (- f64_exponent x))) * 2 powi (f64_exponent x)"

text \<open>\<open>ts as f64 / 1000.0\<close>.\<close>

definition millis_as_seconds :: "i64 \<Rightarrow> f64" where
  "millis_as_seconds ts = f64_round (f64_round (of_int ts) / 1000)"

lemma round_half_even_error: "\<bar>of_int (round_half_even x) - x\<bar> \<le> 1 / 2"
proof -
  define d where "d = x - of_int \<lfloor>x\<rfloor>"
  have "0 \<le> d" "d < 1" using floor_correct [of x] by (simp_all add: d_def)
  moreover have "of_int (round_half_even x) - x = (if d < 1 / 2 \<or> (d = 1 / 2 \<and> even \<lfloor>x\<rfloor>) then - d else 1 - d)"
    by (simp add: round_half_even_def Let_def d_def)
  ultimately show ?thesis by (auto simp: abs_if)
qed

lemma round_half_even_int [simp]: "round_half_even (of_int k) = k"
  by (simp add: round_half_even_def)

lemma f64_round_error: "\<bar>f64_round x - x\<bar> \<le> 2 powi (f64_exponent x - 1)"
proof -
  let ?e = "f64_exponent x" and ?y = "x * 2 powi (- f64_exponent x)"
  have "(2 :: rat) powi (- ?e) * 2 powi ?e = 1" by (simp add: power_int_minus)
  then have "x = ?y * 2 powi ?e" by simp
  then have "f64_round x - x = (of_int (round_half_even ?y) - ?y) * 2 powi ?e"
    by (simp add: f64_round_def left_diff_distrib)
  then have "\<bar>f64_round x - x\<bar> = \<bar>of_int (round_half_even ?y) - ?y\<bar> * 2 powi ?e"
    by (simp add: abs_mult)
  also have "\<dots> \<le> 1 / 2 * 2 powi ?e"
    by (rule mult_right_mono [OF round_half_even_error]) simp
  also have "\<dots> = 2 powi (?e - 1)" by (simp add: power_int_diff)
  finally show ?thesis .
qed

lemma f64_exponent_bound:
  assumes "\<bar>x\<bar> < 2 ^ n" shows "f64_exponent x \<le> int n - 53"
proof -
  have "\<bar>x\<bar> * 2 ^ 64 < 2 ^ (n + 64)" using assms by (simp add: power_add)
  then have "\<lfloor>\<bar>x\<bar> * 2 ^ 64\<rfloor> < 2 ^ (n + 64)" by (simp add: floor_less_iff)
  then have "nat \<lfloor>\<bar>x\<bar> * 2 ^ 64\<rfloor> < 2 ^ (n + 64)" by (simp add: nat_less_iff)
  then have "floorlog 2 (nat \<lfloor>\<bar>x\<bar> * 2 ^ 64\<rfloor>) \<le> n + 64" by (intro floorlog_leI) simp_all
  then show ?thesis by (simp add: f64_exponent_def)
qed

lemma f64_round_int:
  assumes "\<bar>k\<bar> < 2 ^ 53" shows "f64_round (of_int k) = of_int k"
proof -
  have "\<bar>of_int k :: rat\<bar> < 2 ^ 53" using assms by (metis of_int_abs of_int_less_iff of_int_numeral of_int_power)
  from f64_exponent_bound [OF this] obtain m where m: "- f64_exponent (of_int k) = int m"
    by (metis add.inverse_inverse diff_self int_nat_eq minus_diff_eq neg_0_le_iff_le of_nat_numeral)
  then have e: "f64_exponent (of_int k) = - int m" by simp
  have "(of_int k :: rat) * 2 powi int m = of_int (k * 2 ^ m)" by simp
  then have "round_half_even (of_int k * 2 powi int m) = k * 2 ^ m" by (simp only: round_half_even_int)
  then show ?thesis unfolding f64_round_def e by (simp add: power_int_minus)
qed

text \<open>Up to the year 2106 the seconds are right to a quarter of a microsecond.\<close>

lemma millis_as_seconds_error:
  assumes "0 \<le> ts" and "ts < 2 ^ 32 * 1000"
  shows "\<bar>millis_as_seconds ts * 1000000 - of_int (ts * 1000)\<bar> < 1 / 4"
    and "0 \<le> millis_as_seconds ts" and "millis_as_seconds ts \<le> 2 ^ 32"
proof -
  let ?x = "(of_int ts :: rat) / 1000"
  have x: "0 \<le> ?x" "?x < 2 ^ 32"
  proof -
    have "(of_int ts :: rat) < of_int (2 ^ 32 * 1000)" using assms(2) unfolding of_int_less_iff .
    then show "?x < 2 ^ 32" by simp
    show "0 \<le> ?x" using assms(1) by simp
  qed
  have m: "millis_as_seconds ts = f64_round ?x"
    using assms by (simp add: millis_as_seconds_def f64_round_int)
  have "f64_exponent ?x \<le> - 21" using f64_exponent_bound [of ?x 32] x by simp
  then have "(2 :: rat) powi (f64_exponent ?x - 1) \<le> 2 powi (- 22)" by (intro power_int_increasing) simp_all
  with f64_round_error [of ?x] have err: "\<bar>f64_round ?x - ?x\<bar> \<le> 1 / 4194304" by (simp add: power_int_minus)
  then show "\<bar>millis_as_seconds ts * 1000000 - of_int (ts * 1000)\<bar> < 1 / 4" unfolding m by (simp add: abs_if split: if_splits)
  show "0 \<le> millis_as_seconds ts" unfolding m f64_round_def round_half_even_def using x(1)
    by (auto simp: Let_def intro!: mult_nonneg_nonneg add_nonneg_nonneg)
  have "ts \<le> 2 ^ 32 * 1000 - 1" using assms(2) by simp
  then have "(of_int ts :: rat) \<le> of_int (2 ^ 32 * 1000 - 1)" unfolding of_int_le_iff .
  then have "?x \<le> 2 ^ 32 - 1 / 1000" by simp
  with err show "millis_as_seconds ts \<le> 2 ^ 32" unfolding m by (simp add: abs_if split: if_splits)
qed

end
