(* ===== verification/Postgres.thy ===== *)
theory Postgres
  imports Repository Sql
begin

text \<open>
  The PostgreSQL repository of \<open>src/repository/postgres.rs\<close> on the tables of
  \<open>src/migrations\<close>. The state is the contents of the two tables and the number of calls
  made to the server so far. What the server and the drivers may do freely is the record
  \<open>pg_env\<close>: whether a call fails and whether its effect survives, the order in which rows
  without \<open>ORDER BY\<close> arrive, the clock, the conversion of instants to and from microseconds,
  \<open>to_timestamp\<close>, JSON parsing and the normal form of \<open>JSONB\<close>, and the collation.
\<close>

section \<open>Tables\<close>

record entry_row =
  er_entry_id :: uuid
  er_entry_type :: string
  er_agent_id :: string
  er_content :: "u8 list"
  er_content_type :: string
  er_source_id :: string
  er_correlation_id :: "string option"
  er_idempotency_key :: "string option"
  er_input_hash :: "string option"
  er_writer_signature :: "u8 list option"
  er_signer_key_reference :: "string option"
  er_attestation_report :: "u8 list option"
  er_hash_version :: string
  er_entry_hash :: string
  er_previous_hash :: string
  er_chain_position :: i64
  er_written_ts :: int

record outbox_row =
  or_outbox_id :: uuid
  or_entry_id :: uuid
  or_entry_type :: string
  or_payload :: json
  or_status :: string
  or_created_ts :: int
  or_last_attempt_ts :: "int option"
  or_attempt_count :: int

record pg_state =
  pg_entries :: "entry_row list"
  pg_outbox :: "outbox_row list"
  pg_calls :: nat

text \<open>
  A call is answered, or it fails before it took effect, or its effect stands and the answer
  is lost.
\<close>

datatype pg_fault = No_fault | Not_executed | Answer_lost

record pg_env =
  pe_fault :: "nat \<Rightarrow> pg_fault"
  pe_scan :: "nat \<Rightarrow> hash_seed"
  pe_now :: "nat \<Rightarrow> int"
  pe_ts_to_sql :: "datetime \<Rightarrow> int"
  pe_ts_from_sql :: "int \<Rightarrow> datetime"
  pe_to_timestamp :: "f64 \<Rightarrow> int"
  pe_json_from_str :: "string \<Rightarrow> json option"
  pe_jsonb :: "json \<Rightarrow> json option"
  pe_collate :: "string \<Rightarrow> string"

definition pg_empty :: pg_state where
  "pg_empty = \<lparr>pg_entries = [], pg_outbox = [], pg_calls = 0\<rparr>"

section \<open>Reading rows\<close>

definition map_row_entry :: "pg_env \<Rightarrow> entry_row \<Rightarrow> ledger_entry_record" where
  "map_row_entry E row =
     \<lparr>le_entry_id = er_entry_id row,
      le_entry_type = er_entry_type row,
      le_agent_id = er_agent_id row,
      le_content = er_content row,
      le_content_type = er_content_type row,
      le_source_id = er_source_id row,
      le_correlation_id = er_correlation_id row,
      le_idempotency_key = er_idempotency_key row,
      le_input_hash = er_input_hash row,
      le_writer_signature = er_writer_signature row,
      le_signer_key_reference = er_signer_key_reference row,
      le_attestation_report = er_attestation_report row,
      le_hash_version = er_hash_version row,
      le_entry_hash = er_entry_hash row,
      le_previous_hash = er_previous_hash row,
      le_chain_position = er_chain_position row,
      le_written_ts = pe_ts_from_sql E (er_written_ts row)\<rparr>"

definition to_ascii_uppercase :: "string \<Rightarrow> string" where
  "to_ascii_uppercase s =
     map (\<lambda>c. if 97 \<le> (of_char c :: nat) \<and> (of_char c :: nat) \<le> 122 then char_of ((of_char c :: nat) - 32) else c) s"

definition map_outbox_row :: "third_party \<Rightarrow> outbox_row \<Rightarrow> outbox_record" where
  "map_outbox_row D row =
     \<lparr>ob_outbox_id = or_outbox_id row,
      ob_entry_id = or_entry_id row,
      ob_entry_type = or_entry_type row,
      ob_payload = json_to_string D (or_payload row),
      ob_status =
        (let status = to_ascii_uppercase (or_status row)
         in if status = ''PENDING'' then Pending
            else if status = ''DELIVERED'' then Delivered else Failed),
      ob_attempt_count = or_attempt_count row\<rparr>"

section \<open>Calls to the server\<close>

definition count_call :: "pg_state \<Rightarrow> pg_state" where
  "count_call s = s\<lparr>pg_calls := pg_calls s + 1\<rparr>"

text \<open>
  A call whose effect is undone when it fails: taking a connection from the pool, a query, a
  statement inside a transaction. The rest of the operation gets the number of the call.
\<close>

definition pg_call :: "pg_env \<Rightarrow> (nat \<Rightarrow> (pg_state, 'a) repo_op) \<Rightarrow> (pg_state, 'a) repo_op" where
  "pg_call E rest s =
     (if pe_fault E (pg_calls s) = No_fault then rest (pg_calls s) (count_call s)
      else (Inl Unavailable, count_call s))"

text \<open>A \<open>COMMIT\<close> or a statement outside a transaction: its effect survives a lost answer.\<close>

definition pg_commit ::
    "pg_env \<Rightarrow> (pg_state \<Rightarrow> pg_state) \<Rightarrow> (repository_error + 'a) \<Rightarrow> (pg_state, 'a) repo_op" where
  "pg_commit E effect answer s =
     (case pe_fault E (pg_calls s) of
        No_fault \<Rightarrow> (answer, effect (count_call s))
      | Not_executed \<Rightarrow> (Inl Unavailable, count_call s)
      | Answer_lost \<Rightarrow> (Inl Unavailable, effect (count_call s)))"

text \<open>\<open>query_opt\<close>: at most one row, or an error. A text parameter with a zero byte is an error too.\<close>

definition query_opt :: "'row list \<Rightarrow> repository_error + 'row option" where
  "query_opt rows = (case rows of [] \<Rightarrow> Inr None | [row] \<Rightarrow> Inr (Some row) | _ \<Rightarrow> Inl Unavailable)"

definition bad_text :: "string \<Rightarrow> bool" where
  "bad_text s \<longleftrightarrow> CHR 0x00 \<in> set s"

section \<open>Writing\<close>

text \<open>The columns of a row as the table definition checks and stores them.\<close>

definition row_error :: "entry_row \<Rightarrow> bool" where
  "row_error row \<longleftrightarrow>
     varchar_error 255 (er_entry_type row) \<or> varchar_error 255 (er_agent_id row)
     \<or> varchar_error 100 (er_content_type row) \<or> varchar_error 255 (er_source_id row)
     \<or> opt_holds (varchar_error 255) (er_correlation_id row)
     \<or> opt_holds (varchar_error 255) (er_idempotency_key row)
     \<or> opt_holds (varchar_error 128) (er_input_hash row)
     \<or> opt_holds (varchar_error 255) (er_signer_key_reference row)
     \<or> varchar_error 64 (er_hash_version row) \<or> varchar_error 64 (er_entry_hash row)
     \<or> varchar_error 64 (er_previous_hash row)
     \<or> take_chars 64 (er_hash_version row) \<notin> {ENTRY_HASH_VERSION_V2, ENTRY_HASH_VERSION_V3}"

definition row_assigned :: "entry_row \<Rightarrow> entry_row" where
  "row_assigned row = row
     \<lparr>er_entry_type := take_chars 255 (er_entry_type row),
      er_agent_id := take_chars 255 (er_agent_id row),
      er_content_type := take_chars 100 (er_content_type row),
      er_source_id := take_chars 255 (er_source_id row),
      er_correlation_id := map_option (take_chars 255) (er_correlation_id row),
      er_idempotency_key := map_option (take_chars 255) (er_idempotency_key row),
      er_input_hash := map_option (take_chars 128) (er_input_hash row),
      er_signer_key_reference := map_option (take_chars 255) (er_signer_key_reference row),
      er_hash_version := take_chars 64 (er_hash_version row),
      er_entry_hash := take_chars 64 (er_entry_hash row),
      er_previous_hash := take_chars 64 (er_previous_hash row)\<rparr>"

text \<open>The primary key and the two unique indexes, in the order they were created.\<close>

definition same_position :: "entry_row \<Rightarrow> entry_row \<Rightarrow> bool" where
  "same_position row x \<longleftrightarrow> er_entry_type x = er_entry_type row \<and> er_chain_position x = er_chain_position row"

definition same_key :: "entry_row \<Rightarrow> entry_row \<Rightarrow> bool" where
  "same_key row x \<longleftrightarrow> er_entry_type x = er_entry_type row
     \<and> er_idempotency_key row \<noteq> None \<and> er_idempotency_key x = er_idempotency_key row"

definition unique_violation :: "entry_row list \<Rightarrow> entry_row \<Rightarrow> string option" where
  "unique_violation rows row =
     (if list_ex (\<lambda>x. er_entry_id x = er_entry_id row) rows then Some ''ledger_entries_pkey''
      else if list_ex (same_position row) rows then Some ''idx_ledger_type_position''
      else if list_ex (same_key row) rows then Some ''idx_ledger_idempotency''
      else None)"

datatype sql_error = Unique_violation string | Other_error

definition insert_entry :: "entry_row list \<Rightarrow> entry_row \<Rightarrow> sql_error + entry_row" where
  "insert_entry rows row =
     (if row_error row then Inl Other_error
      else case unique_violation rows (row_assigned row) of
             Some c \<Rightarrow> Inl (Unique_violation c)
           | None \<Rightarrow> Inr (row_assigned row))"

definition insert_error :: "sql_error \<Rightarrow> repository_error" where
  "insert_error e =
     (case e of
        Unique_violation c \<Rightarrow>
          if c = ''idx_ledger_idempotency'' then IdempotencyConflict else ChainIntegrityViolation
      | Other_error \<Rightarrow> Unavailable)"

definition insert_outbox :: "pg_env \<Rightarrow> outbox_row list \<Rightarrow> outbox_row \<Rightarrow> outbox_row option" where
  "insert_outbox E rows row =
     (if varchar_error 255 (or_entry_type row) \<or> list_ex (\<lambda>x. or_outbox_id x = or_outbox_id row) rows
      then None
      else map_option (\<lambda>payload. row\<lparr>or_entry_type := take_chars 255 (or_entry_type row), or_payload := payload\<rparr>)
             (pe_jsonb E (or_payload row)))"

definition pg_chain_rows :: "pg_state \<Rightarrow> string \<Rightarrow> entry_row list" where
  "pg_chain_rows s entry_type = filter (\<lambda>row. er_entry_type row = entry_type) (pg_entries s)"

definition pg_tip_row :: "pg_env \<Rightarrow> nat \<Rightarrow> string \<Rightarrow> pg_state \<Rightarrow> repository_error + entry_row option" where
  "pg_tip_row E n entry_type s =
     (if bad_text entry_type then Inl Unavailable
      else query_opt (take 1 (order_by (pe_scan E n) (\<lambda>row. - er_chain_position row) (pg_chain_rows s entry_type))))"

definition pg_next_position :: "entry_row option \<Rightarrow> string \<Rightarrow> repository_error + i64" where
  "pg_next_position tip_row previous_hash =
     (case tip_row of
        None \<Rightarrow> if previous_hash = [] then Inl ChainIntegrityViolation else Inr 1
      | Some row \<Rightarrow>
          if er_entry_hash row \<noteq> previous_hash then Inl ChainIntegrityViolation
          else Inr (er_chain_position row + 1))"

definition pg_new_row :: "pg_env \<Rightarrow> third_party \<Rightarrow> uuid \<Rightarrow> entry_write_input \<Rightarrow> i64 \<Rightarrow> entry_row" where
  "pg_new_row E D entry_id input next_position =
     \<lparr>er_entry_id = entry_id,
      er_entry_type = wi_entry_type input,
      er_agent_id = wi_agent_id input,
      er_content = wi_content input,
      er_content_type = wi_content_type input,
      er_source_id = wi_source_id input,
      er_correlation_id = wi_correlation_id input,
      er_idempotency_key = wi_idempotency_key input,
      er_input_hash = wi_input_hash input,
      er_writer_signature = wi_writer_signature input,
      er_signer_key_reference = wi_signer_key_reference input,
      er_attestation_report = wi_attestation_report input,
      er_hash_version = ENTRY_HASH_VERSION,
      er_entry_hash = write_hash D entry_id input next_position,
      er_previous_hash = wi_previous_hash input,
      er_chain_position = next_position,
      er_written_ts = pe_ts_to_sql E (wi_written_ts input)\<rparr>"

definition pg_new_outbox_row :: "uuid_draws \<Rightarrow> entry_write_input \<Rightarrow> json \<Rightarrow> int \<Rightarrow> outbox_row" where
  "pg_new_outbox_row draws input payload now =
     \<lparr>or_outbox_id = dr_outbox_id draws, or_entry_id = dr_entry_id draws,
      or_entry_type = wi_entry_type input, or_payload = payload, or_status = ''PENDING'',
      or_created_ts = now, or_last_attempt_ts = None, or_attempt_count = 0\<rparr>"

text \<open>
  The transaction. The calls are: a connection, \<open>BEGIN\<close>, the advisory lock, the tip, the
  insertion of the entry, that of the outbox row when there is one, \<open>COMMIT\<close>. Whatever fails
  before the commit leaves the tables as they were (the code ignores the outcome of its
  \<open>ROLLBACK\<close>, and a dropped transaction is rolled back too); \<open>NOW()\<close> is the time of the
  \<open>BEGIN\<close>. The lock keeps other appends to the chain waiting until the end of the transaction.
\<close>

definition pg_finish ::
    "pg_env \<Rightarrow> third_party \<Rightarrow> uuid_draws \<Rightarrow> entry_write_input \<Rightarrow> i64 \<Rightarrow> entry_row \<Rightarrow> outbox_row list \<Rightarrow>
     (pg_state, write_result) repo_op" where
  "pg_finish E D draws input next_position row outbox_rows =
     pg_commit E
       (\<lambda>s. s\<lparr>pg_entries := pg_entries s @ [row], pg_outbox := pg_outbox s @ outbox_rows\<rparr>)
       (Inr \<lparr>wr_entry = new_entry D (dr_entry_id draws) input next_position,
             wr_outbox = (if wi_create_outbox input then Some (new_outbox D draws input next_position)
                          else None)\<rparr>)"

definition pg_insert_outbox ::
    "pg_env \<Rightarrow> third_party \<Rightarrow> uuid_draws \<Rightarrow> entry_write_input \<Rightarrow> i64 \<Rightarrow> entry_row \<Rightarrow> outbox_row \<Rightarrow>
     (pg_state, write_result) repo_op" where
  "pg_insert_outbox E D draws input next_position row outbox_row =
     (if wi_create_outbox input
      then pg_call E (\<lambda>_ s.
        case insert_outbox E (pg_outbox s) outbox_row of
          None \<Rightarrow> (Inl Unavailable, s)
        | Some x \<Rightarrow> pg_finish E D draws input next_position row [x] s)
      else pg_finish E D draws input next_position row [])"

definition pg_write_entry_with_outbox ::
    "pg_env \<Rightarrow> third_party \<Rightarrow> uuid_draws \<Rightarrow> entry_write_input \<Rightarrow> (pg_state, write_result) repo_op" where
  "pg_write_entry_with_outbox E D draws input =
     pg_call E (\<lambda>_. pg_call E (\<lambda>begin_call. pg_call E (\<lambda>_. pg_call E (\<lambda>n s.
       case pg_tip_row E n (wi_entry_type input) s of
         Inl err \<Rightarrow> (Inl err, s)
       | Inr tip_row \<Rightarrow>
           (case pg_next_position tip_row (wi_previous_hash input) of
              Inl err \<Rightarrow> (Inl err, s)
            | Inr next_position \<Rightarrow>
                (case pe_json_from_str E (ob_payload (new_outbox D draws input next_position)) of
                   None \<Rightarrow> (Inl Unavailable, s)
                 | Some payload \<Rightarrow>
                     pg_call E (\<lambda>_ s.
                       case insert_entry (pg_entries s)
                              (pg_new_row E D (dr_entry_id draws) input next_position) of
                         Inl err \<Rightarrow> (Inl (insert_error err), s)
                       | Inr row \<Rightarrow>
                           pg_insert_outbox E D draws input next_position row
                             (pg_new_outbox_row draws input payload (pe_now E begin_call)) s) s))))))"

section \<open>Queries\<close>

definition pg_get_entry :: "pg_env \<Rightarrow> uuid \<Rightarrow> (pg_state, ledger_entry_record) repo_op" where
  "pg_get_entry E entry_id =
     pg_call E (\<lambda>_. pg_call E (\<lambda>n s.
       (case query_opt (iterate (pe_scan E n) (filter (\<lambda>row. er_entry_id row = entry_id) (pg_entries s))) of
          Inl err \<Rightarrow> Inl err
        | Inr None \<Rightarrow> Inl NotFound
        | Inr (Some row) \<Rightarrow> Inr (map_row_entry E row), s)))"

text \<open>The \<open>WHERE\<close> clause of a query. A comparison with a null column is not true.\<close>

definition pg_matches :: "pg_env \<Rightarrow> entry_query \<Rightarrow> entry_row \<Rightarrow> bool" where
  "pg_matches E query row \<longleftrightarrow>
     opt_all (\<lambda>p. like_match (p @ ''%'') (er_entry_type row)) (eq_entry_type_prefix query)
     \<and> opt_all (\<lambda>a. er_agent_id row = a) (eq_agent_id query)
     \<and> opt_all (\<lambda>a. er_source_id row = a) (eq_source_id query)
     \<and> opt_all (\<lambda>c. er_correlation_id row = Some c) (eq_correlation_id query)
     \<and> opt_all (\<lambda>ts. er_written_ts row \<ge> pe_to_timestamp E (millis_as_seconds ts)) (eq_from_ts_ms query)
     \<and> opt_all (\<lambda>ts. er_written_ts row \<le> pe_to_timestamp E (millis_as_seconds ts)) (eq_to_ts_ms query)"

definition bad_query :: "entry_query \<Rightarrow> bool" where
  "bad_query query \<longleftrightarrow> opt_holds bad_text (eq_entry_type_prefix query) \<or> opt_holds bad_text (eq_agent_id query)
     \<or> opt_holds bad_text (eq_source_id query) \<or> opt_holds bad_text (eq_correlation_id query)"

text \<open>\<open>as i64\<close> on a \<open>usize\<close>; a negative \<open>LIMIT\<close> or \<open>OFFSET\<close> is an error.\<close>

definition usize_as_i64 :: "nat \<Rightarrow> i64" where
  "usize_as_i64 n = sint (word_of_nat n :: u64)"

definition pg_query_entries :: "pg_env \<Rightarrow> entry_query \<Rightarrow> (pg_state, query_result) repo_op" where
  "pg_query_entries E query =
     pg_call E (\<lambda>_. pg_call E (\<lambda>_ s.
       if bad_query query then (Inl Unavailable, s)
       else let total_count = int (length (filter (pg_matches E query) (pg_entries s)))
            in pg_call E (\<lambda>n s.
                 if usize_as_i64 (eq_limit query) < 0 \<or> usize_as_i64 (eq_offset query) < 0
                 then (Inl Unavailable, s)
                 else (Inr \<lparr>qr_entries = map (map_row_entry E)
                              (take (nat (usize_as_i64 (eq_limit query)))
                                (drop (nat (usize_as_i64 (eq_offset query)))
                                  (order_by (pe_scan E n) (\<lambda>row. (er_written_ts row, er_chain_position row))
                                    (filter (pg_matches E query) (pg_entries s))))),
                            qr_total_count = total_count\<rparr>, s)) s))"

definition pg_get_chain_tip :: "pg_env \<Rightarrow> string \<Rightarrow> (pg_state, chain_tip) repo_op" where
  "pg_get_chain_tip E entry_type =
     pg_call E (\<lambda>_. pg_call E (\<lambda>n s.
       (case pg_tip_row E n entry_type s of
          Inl err \<Rightarrow> Inl err
        | Inr None \<Rightarrow> Inl NotFound
        | Inr (Some row) \<Rightarrow>
            Inr \<lparr>tip_entry_id = er_entry_id row, tip_hash = er_entry_hash row,
                 tip_hash_version = er_hash_version row, tip_position = er_chain_position row,
                 tip_written_ts = pe_ts_from_sql E (er_written_ts row)\<rparr>, s)))"

definition pg_get_entries_by_type_paged ::
    "pg_env \<Rightarrow> string \<Rightarrow> i64 \<Rightarrow> i64 \<Rightarrow> (pg_state, ledger_entry_record list) repo_op" where
  "pg_get_entries_by_type_paged E entry_type after_position limit =
     pg_call E (\<lambda>_. pg_call E (\<lambda>n s.
       (if bad_text entry_type \<or> limit < 0 then Inl Unavailable
        else Inr (map (map_row_entry E) (take (nat limit) (order_by (pe_scan E n) er_chain_position
               (filter (\<lambda>row. er_chain_position row > after_position) (pg_chain_rows s entry_type))))), s)))"

definition pg_get_entry_by_hash ::
    "pg_env \<Rightarrow> string \<Rightarrow> string \<Rightarrow> (pg_state, ledger_entry_record) repo_op" where
  "pg_get_entry_by_hash E entry_type entry_hash =
     pg_call E (\<lambda>_. pg_call E (\<lambda>n s.
       (if bad_text entry_type \<or> bad_text entry_hash then Inl Unavailable
        else case query_opt (iterate (pe_scan E n)
                    (filter (\<lambda>row. er_entry_hash row = entry_hash) (pg_chain_rows s entry_type))) of
               Inl err \<Rightarrow> Inl err
             | Inr None \<Rightarrow> Inl NotFound
             | Inr (Some row) \<Rightarrow> Inr (map_row_entry E row), s)))"

definition pg_find_idempotent ::
    "pg_env \<Rightarrow> string \<Rightarrow> string \<Rightarrow> (pg_state, ledger_entry_record option) repo_op" where
  "pg_find_idempotent E entry_type idempotency_key =
     pg_call E (\<lambda>_. pg_call E (\<lambda>n s.
       (if bad_text entry_type \<or> bad_text idempotency_key then Inl Unavailable
        else map_sum id (map_option (map_row_entry E)) (query_opt (iterate (pe_scan E n)
               (filter (\<lambda>row. er_idempotency_key row = Some idempotency_key) (pg_chain_rows s entry_type)))), s)))"

definition pg_get_distinct_entry_types :: "pg_env \<Rightarrow> (pg_state, string list) repo_op" where
  "pg_get_distinct_entry_types E =
     pg_call E (\<lambda>_. pg_call E (\<lambda>n s.
       (Inr (sort_key (pe_collate E) (remdups (iterate (pe_scan E n) (map er_entry_type (pg_entries s))))), s)))"

section \<open>The outbox\<close>

definition pg_pending_outbox :: "pg_env \<Rightarrow> third_party \<Rightarrow> (pg_state, outbox_record list) repo_op" where
  "pg_pending_outbox E D =
     pg_call E (\<lambda>_. pg_call E (\<lambda>n s.
       (Inr (map (map_outbox_row D) (order_by (pe_scan E n) or_created_ts
          (filter (\<lambda>row. or_status row = ''PENDING'') (pg_outbox s)))), s)))"

text \<open>
  An \<open>UPDATE\<close> of the rows that satisfy a condition; with no such row the caller answers
  \<open>NotFound\<close>. The statement commits by itself.
\<close>

definition pg_update_outbox ::
    "pg_env \<Rightarrow> (outbox_row \<Rightarrow> bool) \<Rightarrow> (nat \<Rightarrow> outbox_row \<Rightarrow> outbox_row) \<Rightarrow> (pg_state, unit) repo_op" where
  "pg_update_outbox E cond change s =
     pg_commit E
       (\<lambda>s'. s'\<lparr>pg_outbox := map (\<lambda>row. if cond row then change (pg_calls s) row else row) (pg_outbox s')\<rparr>)
       (if list_ex cond (pg_outbox s) then Inr () else Inl NotFound) s"

definition pg_mark_outbox_delivered :: "pg_env \<Rightarrow> uuid \<Rightarrow> (pg_state, unit) repo_op" where
  "pg_mark_outbox_delivered E outbox_id =
     pg_call E (\<lambda>_. pg_update_outbox E (\<lambda>row. or_outbox_id row = outbox_id \<and> or_status row = ''PENDING'')
       (\<lambda>_ row. row\<lparr>or_status := ''DELIVERED''\<rparr>))"

text \<open>The counter is a 32-bit integer: its increment fails at the largest value.\<close>

definition pg_increment_outbox_attempt :: "pg_env \<Rightarrow> uuid \<Rightarrow> (pg_state, unit) repo_op" where
  "pg_increment_outbox_attempt E outbox_id =
     pg_call E (\<lambda>_ s.
       if list_ex (\<lambda>row. or_outbox_id row = outbox_id \<and> or_attempt_count row \<ge> 2 ^ 31 - 1) (pg_outbox s)
       then (Inl Unavailable, count_call s)
       else pg_update_outbox E (\<lambda>row. or_outbox_id row = outbox_id)
              (\<lambda>n row. row\<lparr>or_attempt_count := or_attempt_count row + 1, or_last_attempt_ts := Some (pe_now E n)\<rparr>) s)"

definition pg_mark_outbox_failed :: "pg_env \<Rightarrow> uuid \<Rightarrow> (pg_state, unit) repo_op" where
  "pg_mark_outbox_failed E outbox_id =
     pg_call E (\<lambda>_. pg_update_outbox E (\<lambda>row. or_outbox_id row = outbox_id)
       (\<lambda>_ row. row\<lparr>or_status := ''FAILED''\<rparr>))"

definition postgres :: "pg_env \<Rightarrow> third_party \<Rightarrow> pg_state ledger_repository" where
  "postgres E D =
     \<lparr>repo_write_entry_with_outbox = pg_write_entry_with_outbox E D,
      repo_get_entry = pg_get_entry E,
      repo_query_entries = pg_query_entries E,
      repo_get_chain_tip = pg_get_chain_tip E,
      repo_get_entries_by_type_paged = pg_get_entries_by_type_paged E,
      repo_find_idempotent = pg_find_idempotent E,
      repo_get_entry_by_hash = pg_get_entry_by_hash E,
      repo_pending_outbox = pg_pending_outbox E D,
      repo_mark_outbox_delivered = pg_mark_outbox_delivered E,
      repo_increment_outbox_attempt = pg_increment_outbox_attempt E,
      repo_mark_outbox_failed = pg_mark_outbox_failed E,
      repo_get_distinct_entry_types = pg_get_distinct_entry_types E\<rparr>"

end
