(* ===== verification/Postgres_Correct.thy ===== *)
theory Postgres_Correct
  imports Postgres Chains Ledger_System
begin

text \<open>
  The PostgreSQL repository implements the repository interfaces, whatever calls fail and
  whatever order rows arrive in: \<open>pg_store\<close> on any tables that satisfy the primary key and
  the unique position index, \<open>pg_ledger\<close> and \<open>pg_outbox_store\<close> on the tables the service
  writes, and with them the whole service (\<open>pg_system\<close>).
\<close>

section \<open>What the tables mean\<close>

definition pg_chain :: "pg_env \<Rightarrow> pg_state \<Rightarrow> ledger" where
  "pg_chain E s t = map (map_row_entry E) (sort_key er_chain_position (pg_chain_rows s t))"

definition pg_outboxes :: "third_party \<Rightarrow> pg_state \<Rightarrow> outboxes" where
  "pg_outboxes D s i = map_option (map_outbox_row D) (List.find (\<lambda>row. or_outbox_id row = i) (pg_outbox s))"

definition position_key :: "entry_row \<Rightarrow> string \<times> i64" where
  "position_key row = (er_entry_type row, er_chain_position row)"

text \<open>A text that a \<open>VARCHAR(n)\<close> column holds as it is.\<close>

definition text_fits :: "nat \<Rightarrow> string \<Rightarrow> bool" where
  "text_fits n s \<longleftrightarrow> CHR 0x00 \<notin> set s \<and> drop_chars n s = []"

lemma text_fits_varchar: "text_fits n s \<Longrightarrow> varchar_kept n s \<and> \<not> varchar_error n s \<and> take_chars n s = s"
  by (simp add: text_fits_def varchar_kept_def varchar_error_def take_chars_all)

text \<open>
  What is asked of the server and the drivers: a scan returns every row once; an event the
  server accepts as \<open>JSONB\<close> reads back as the text that was written; a digest fits its column.
\<close>

definition pg_env_ok :: "pg_env \<Rightarrow> third_party \<Rightarrow> bool" where
  "pg_env_ok E D \<longleftrightarrow> (\<forall>n. seed_ok (pe_scan E n))
     \<and> (\<forall>v v' v''. pe_json_from_str E (json_to_string D v) = Some v' \<longrightarrow> pe_jsonb E v' = Some v'' \<longrightarrow>
          json_to_string D v'' = json_to_string D v)
     \<and> (\<forall>bytes. text_fits 64 (sha256_hex D bytes))"

definition pg_store_inv :: "pg_env \<Rightarrow> pg_state \<Rightarrow> bool" where
  "pg_store_inv E s \<longleftrightarrow> (\<forall>n. seed_ok (pe_scan E n)) \<and> distinct (map er_entry_id (pg_entries s))
     \<and> distinct (map position_key (pg_entries s))"

text \<open>The column types and checks of the table definitions.\<close>

definition entry_row_typed :: "entry_row \<Rightarrow> bool" where
  "entry_row_typed row \<longleftrightarrow>
     text_fits 255 (er_entry_type row) \<and> text_fits 255 (er_agent_id row)
     \<and> text_fits 100 (er_content_type row) \<and> text_fits 255 (er_source_id row)
     \<and> opt_all (text_fits 255) (er_correlation_id row) \<and> opt_all (text_fits 255) (er_idempotency_key row)
     \<and> opt_all (text_fits 128) (er_input_hash row) \<and> opt_all (text_fits 255) (er_signer_key_reference row)
     \<and> text_fits 64 (er_hash_version row) \<and> text_fits 64 (er_entry_hash row)
     \<and> text_fits 64 (er_previous_hash row)
     \<and> er_hash_version row \<in> {ENTRY_HASH_VERSION_V2, ENTRY_HASH_VERSION_V3}"

definition outbox_row_typed :: "outbox_row \<Rightarrow> bool" where
  "outbox_row_typed row \<longleftrightarrow> text_fits 255 (or_entry_type row)
     \<and> or_status row \<in> {''PENDING'', ''DELIVERED'', ''FAILED''}
     \<and> 0 \<le> or_attempt_count row \<and> or_attempt_count row < 2 ^ 31"

definition pg_typed :: "pg_state \<Rightarrow> bool" where
  "pg_typed s \<longleftrightarrow> (\<forall>row \<in> set (pg_entries s). entry_row_typed row) \<and> (\<forall>row \<in> set (pg_outbox s). outbox_row_typed row)"

text \<open>Positions count up from one in every chain; and the invariant of a service that writes what it hashed.\<close>

definition pg_ordered :: "pg_env \<Rightarrow> pg_state \<Rightarrow> bool" where
  "pg_ordered E s \<longleftrightarrow> pg_store_inv E s \<and> (\<forall>t. positions_ok (pg_chain E s t))"

definition pg_inv :: "pg_env \<Rightarrow> third_party \<Rightarrow> pg_state \<Rightarrow> bool" where
  "pg_inv E D s \<longleftrightarrow> pg_env_ok E D \<and> pg_store_inv E s \<and> ledger_inv D (pg_chain E s)
     \<and> distinct (map or_outbox_id (pg_outbox s)) \<and> pg_typed s"

text \<open>What a store keeps of an instant, and the inputs it keeps unchanged up to that.\<close>

definition pg_clip :: "pg_env \<Rightarrow> datetime \<Rightarrow> datetime" where
  "pg_clip E ts = pe_ts_from_sql E (pe_ts_to_sql E ts)"

definition pg_storable :: "pg_env \<Rightarrow> third_party \<Rightarrow> entry_write_input \<Rightarrow> bool" where
  "pg_storable E D input \<longleftrightarrow>
     varchar_kept 255 (wi_entry_type input) \<and> varchar_kept 255 (wi_agent_id input)
     \<and> varchar_kept 100 (wi_content_type input) \<and> varchar_kept 255 (wi_source_id input)
     \<and> opt_all (varchar_kept 255) (wi_correlation_id input)
     \<and> opt_all (varchar_kept 255) (wi_idempotency_key input)
     \<and> opt_all (varchar_kept 128) (wi_input_hash input)
     \<and> opt_all (varchar_kept 255) (wi_signer_key_reference input)
     \<and> varchar_kept 64 (wi_previous_hash input)
     \<and> timestamp_millis D (pg_clip E (wi_written_ts input)) = timestamp_millis D (wi_written_ts input)"

section \<open>Calls\<close>

definition same_tables :: "pg_state \<Rightarrow> pg_state \<Rightarrow> bool" where
  "same_tables s s' \<longleftrightarrow> pg_entries s' = pg_entries s \<and> pg_outbox s' = pg_outbox s"

lemma count_call_simps [simp]:
  "pg_entries (count_call s) = pg_entries s" "pg_outbox (count_call s) = pg_outbox s"
  by (simp_all add: count_call_def)

lemma same_tables_simps [simp]: "same_tables s s" "same_tables s (count_call s') = same_tables s s'"
  "same_tables (count_call s) s' = same_tables s s'"
  by (simp_all add: same_tables_def)

lemma same_tables_meaning:
  assumes "same_tables s s'"
  shows "pg_chain E s' = pg_chain E s" and "pg_outboxes D s' = pg_outboxes D s"
    and "pg_store_inv E s' = pg_store_inv E s" and "pg_chain_rows s' = pg_chain_rows s"
    and "pg_inv E D s' = pg_inv E D s"
proof -
  show "pg_chain E s' = pg_chain E s" "pg_outboxes D s' = pg_outboxes D s"
    "pg_store_inv E s' = pg_store_inv E s" "pg_chain_rows s' = pg_chain_rows s"
    using assms by (auto simp: same_tables_def pg_chain_def [abs_def] pg_chain_rows_def [abs_def] pg_outboxes_def [abs_def]
      pg_store_inv_def)
  then show "pg_inv E D s' = pg_inv E D s"
    using assms by (simp add: pg_inv_def same_tables_def pg_typed_def)
qed

text \<open>An operation that takes a connection and asks one query.\<close>

lemma pg_read:
  assumes "pg_call E (\<lambda>_. pg_call E (\<lambda>n s. (f n s, s))) s = (r, s')"
    and "\<And>n s'. same_tables s s' \<Longrightarrow> f n s' = f n s"
  shows "same_tables s s' \<and> (r = Inl Unavailable \<or> (\<exists>n. r = f n s))"
proof -
  have "f n (count_call (count_call s)) = f n s" for n by (rule assms(2)) simp
  with assms(1) show ?thesis by (auto simp: pg_call_def split: if_splits)
qed

section \<open>Rows in the order of their positions\<close>

lemma pg_rows:
  assumes "pg_store_inv E s"
  shows "distinct (pg_entries s)" and "distinct (pg_chain_rows s t)"
    and "inj_on er_chain_position (set (pg_chain_rows s t))" and "inj_on er_entry_id (set (pg_entries s))"
    and "seed_ok (pe_scan E n)"
proof -
  show "distinct (pg_entries s)" "inj_on er_entry_id (set (pg_entries s))" "seed_ok (pe_scan E n)"
    using assms by (simp_all add: pg_store_inv_def distinct_map)
  then show "distinct (pg_chain_rows s t)" by (simp add: pg_chain_rows_def)
  show "inj_on er_chain_position (set (pg_chain_rows s t))"
    using assms by (auto simp: pg_store_inv_def distinct_map pg_chain_rows_def position_key_def inj_on_def)
qed

lemma pg_order_position:
  assumes "pg_store_inv E s"
  shows "order_by (pe_scan E n) er_chain_position (filter Q (pg_chain_rows s t)) =
    filter Q (sort_key er_chain_position (pg_chain_rows s t))"
proof -
  have "inj_on er_chain_position (set (filter Q (pg_chain_rows s t)))"
    by (rule inj_on_subset [OF pg_rows(3) [OF assms]]) auto
  then show ?thesis using pg_rows [OF assms] by (simp add: order_by_eq filter_sort)
qed

lemma set_pg_chain: "set (pg_chain E s t) = map_row_entry E ` set (pg_chain_rows s t)"
  by (simp add: pg_chain_def)

lemma map_row_entry_simps [simp]:
  "le_entry_id (map_row_entry E row) = er_entry_id row" "le_entry_type (map_row_entry E row) = er_entry_type row"
  "le_chain_position (map_row_entry E row) = er_chain_position row"
  "le_entry_hash (map_row_entry E row) = er_entry_hash row"
  "le_idempotency_key (map_row_entry E row) = er_idempotency_key row"
  "le_previous_hash (map_row_entry E row) = er_previous_hash row"
  "le_hash_version (map_row_entry E row) = er_hash_version row"
  by (simp_all add: map_row_entry_def)

lemma all_entries_pg: "all_entries (pg_chain E s) = map_row_entry E ` set (pg_entries s)"
  by (auto simp: all_entries_def set_pg_chain pg_chain_rows_def)

lemma pg_chain_Nil: "pg_chain E s t = [] \<longleftrightarrow> pg_chain_rows s t = []"
  by (simp add: pg_chain_def flip: set_empty)

lemma pg_chain_ascending:
  assumes "pg_store_inv E s" shows "ascending (pg_chain E s t)"
proof -
  let ?rows = "sort_key er_chain_position (pg_chain_rows s t)"
  have "sorted_wrt (<) (map er_chain_position ?rows)"
    using pg_rows [OF assms] by (simp add: strict_sorted_iff distinct_map)
  then show ?thesis by (simp add: ascending_def pg_chain_def sorted_wrt_map)
qed

lemma pg_page:
  assumes "pg_store_inv E s"
  shows "map (map_row_entry E) (take k (order_by (pe_scan E n) er_chain_position
      (filter (\<lambda>row. er_chain_position row > after) (pg_chain_rows s t)))) = page (pg_chain E s t) after k"
  by (simp add: pg_order_position [OF assms] page_def pg_chain_def take_map filter_map comp_def)

text \<open>The row with the largest position.\<close>

lemma pg_tip:
  assumes "pg_store_inv E s" and "\<not> bad_text t"
  shows "pg_tip_row E n t s = Inr (if pg_chain_rows s t = [] then None
    else Some (last (sort_key er_chain_position (pg_chain_rows s t))))"
proof (cases "pg_chain_rows s t = []")
  case True
  with pg_rows(5) [OF assms(1), of n] assms(2) show ?thesis
    by (simp add: pg_tip_row_def query_opt_def order_by_def)
next
  case False
  let ?rows = "pg_chain_rows s t"
  let ?down = "order_by (pe_scan E n) (\<lambda>row. - er_chain_position row) ?rows"
  let ?up = "sort_key er_chain_position ?rows"
  note R = pg_rows [OF assms(1)]
  have "set ?down = set ?rows" using R(5) by simp
  with False obtain x xs where x: "?down = x # xs" by (metis list.exhaust set_empty)
  have "sorted (map (\<lambda>row. - er_chain_position row) ?down)" by simp
  then have "\<forall>y \<in> set ?rows. er_chain_position y \<le> er_chain_position x"
    using \<open>set ?down = set ?rows\<close> x by auto
  moreover have up: "?up \<noteq> []" using False by (metis set_empty set_sort)
  moreover have "er_chain_position y \<le> er_chain_position (last ?up)" if "y \<in> set ?up" for y
  proof -
    have s: "sorted (map er_chain_position (butlast ?up @ [last ?up]))" using up by simp
    show ?thesis using that s unfolding append_butlast_last_id [OF up, symmetric, THEN arg_cong [of _ _ set]]
      by (auto simp: sorted_append)
  qed
  ultimately have "er_chain_position x = er_chain_position (last ?up)"
    using x \<open>set ?down = set ?rows\<close> last_in_set [OF up] by (metis antisym list.set_intros(1) set_sort)
  then have "x = last ?up"
    using R(3) [of t] x \<open>set ?down = set ?rows\<close> last_in_set [OF up]
    by (metis inj_onD list.set_intros(1) set_sort)
  with x False assms(2) show ?thesis by (simp add: pg_tip_row_def query_opt_def)
qed

text \<open>At most one row: a query on a key.\<close>

lemma query_opt_key:
  assumes "seed_ok seed" and "distinct rows" and "\<And>x y. x \<in> set rows \<Longrightarrow> y \<in> set rows \<Longrightarrow> x = y"
  shows "query_opt (iterate seed rows) = Inr (if rows = [] then None else Some (hd rows))"
proof -
  consider "rows = []" | x where "rows = [x]"
  proof (cases rows)
    case (Cons x xs)
    with assms(2) assms(3) [of x "hd xs"] that show ?thesis by (cases xs) auto
  qed (use that in blast)
  then show ?thesis by cases (simp_all add: query_opt_def assms(1))
qed

lemma query_opt_some:
  assumes "seed_ok seed" and "query_opt (iterate seed rows) = Inr x"
  shows "case x of None \<Rightarrow> rows = [] | Some row \<Rightarrow> row \<in> set rows"
proof -
  have "set (iterate seed rows) = set rows" by (rule set_iterate [OF assms(1)])
  moreover have "length (iterate seed rows) = length rows" by (rule length_iterate [OF assms(1)])
  ultimately show ?thesis using assms(2)
    by (auto simp: query_opt_def split: list.splits option.splits)
qed

lemma query_opt_Inl: "query_opt rows = Inl err \<Longrightarrow> err = Unavailable"
  by (auto simp: query_opt_def split: list.splits)

section \<open>The reads\<close>

lemma postgres_simps [simp]:
  "repo_write_entry_with_outbox (postgres E D) = pg_write_entry_with_outbox E D"
  "repo_get_entry (postgres E D) = pg_get_entry E"
  "repo_query_entries (postgres E D) = pg_query_entries E"
  "repo_get_chain_tip (postgres E D) = pg_get_chain_tip E"
  "repo_get_entries_by_type_paged (postgres E D) = pg_get_entries_by_type_paged E"
  "repo_find_idempotent (postgres E D) = pg_find_idempotent E"
  "repo_get_entry_by_hash (postgres E D) = pg_get_entry_by_hash E"
  "repo_pending_outbox (postgres E D) = pg_pending_outbox E D"
  "repo_mark_outbox_delivered (postgres E D) = pg_mark_outbox_delivered E"
  "repo_increment_outbox_attempt (postgres E D) = pg_increment_outbox_attempt E"
  "repo_mark_outbox_failed (postgres E D) = pg_mark_outbox_failed E"
  "repo_get_distinct_entry_types (postgres E D) = pg_get_distinct_entry_types E"
  by (simp_all add: postgres_def)

lemma pg_paged:
  assumes "pg_store_inv E s" and "1 \<le> limit" and "pg_get_entries_by_type_paged E t after limit s = (r, s')"
  shows "same_tables s s' \<and> (r = Inl Unavailable \<or> r = Inr (page (pg_chain E s t) after (nat limit)))"
proof -
  have "same_tables s s' \<and> (r = Inl Unavailable \<or> (\<exists>n. r =
      (if bad_text t \<or> limit < 0 then Inl Unavailable
       else Inr (map (map_row_entry E) (take (nat limit) (order_by (pe_scan E n) er_chain_position
         (filter (\<lambda>row. er_chain_position row > after) (pg_chain_rows s t))))))))"
    by (rule pg_read [OF assms(3) [unfolded pg_get_entries_by_type_paged_def]]) (simp add: same_tables_meaning)
  then show ?thesis using assms(2) unfolding pg_page [OF assms(1)] by (auto split: if_splits)
qed

lemma pg_get_entry_spec:
  assumes "pg_store_inv E s" and "pg_get_entry E i s = (r, s')"
  shows "same_tables s s' \<and> (case r of
      Inr e \<Rightarrow> e \<in> set (pg_chain E s (le_entry_type e)) \<and> le_entry_id e = i
    | Inl err \<Rightarrow> err = Unavailable \<or> (err = NotFound \<and> i \<notin> le_entry_id ` all_entries (pg_chain E s)))"
proof -
  let ?rows = "filter (\<lambda>row. er_entry_id row = i) (pg_entries s)"
  have "query_opt (iterate (pe_scan E n) ?rows) = Inr (if ?rows = [] then None else Some (hd ?rows))" for n
    by (rule query_opt_key [OF pg_rows(5) [OF assms(1)]])
      (use pg_rows(1,4) [OF assms(1)] in \<open>auto dest: inj_onD\<close>)
  moreover have "same_tables s s' \<and> (r = Inl Unavailable \<or> (\<exists>n. r =
      (case query_opt (iterate (pe_scan E n) ?rows) of Inl err \<Rightarrow> Inl err | Inr None \<Rightarrow> Inl NotFound
       | Inr (Some row) \<Rightarrow> Inr (map_row_entry E row))))"
    by (rule pg_read [OF assms(2) [unfolded pg_get_entry_def]]) (simp add: same_tables_def)
  ultimately have R: "same_tables s s' \<and> (r = Inl Unavailable
      \<or> r = (if ?rows = [] then Inl NotFound else Inr (map_row_entry E (hd ?rows))))"
    by auto
  show ?thesis
  proof (cases "?rows = []")
    case True
    then have "i \<notin> le_entry_id ` all_entries (pg_chain E s)" by (auto simp: all_entries_pg filter_empty_conv)
    with R True show ?thesis by auto
  next
    case False
    then have "hd ?rows \<in> set (pg_entries s)" "er_entry_id (hd ?rows) = i" using hd_in_set [OF False] by auto
    with R False show ?thesis by (auto simp: set_pg_chain pg_chain_rows_def split: sum.splits)
  qed
qed

lemma pg_tip_spec:
  assumes "pg_store_inv E s" and "pg_get_chain_tip E t s = (r, s')"
  shows "same_tables s s' \<and> (r = Inl Unavailable
    \<or> r = (if pg_chain E s t = [] then Inl NotFound else Inr (entry_chain_tip (last (pg_chain E s t)))))"
proof -
  let ?up = "sort_key er_chain_position (pg_chain_rows s t)"
  have up: "?up = [] \<longleftrightarrow> pg_chain_rows s t = []" by (simp flip: set_empty)
  have last: "pg_chain_rows s t \<noteq> [] \<Longrightarrow> last (pg_chain E s t) = map_row_entry E (last ?up)"
    using up by (simp add: pg_chain_def last_map)
  have "same_tables s s' \<and> (r = Inl Unavailable \<or> (\<exists>n. r =
      (case pg_tip_row E n t s of Inl err \<Rightarrow> Inl err | Inr None \<Rightarrow> Inl NotFound
       | Inr (Some row) \<Rightarrow> Inr \<lparr>tip_entry_id = er_entry_id row, tip_hash = er_entry_hash row,
          tip_hash_version = er_hash_version row, tip_position = er_chain_position row,
          tip_written_ts = pe_ts_from_sql E (er_written_ts row)\<rparr>)))"
    by (rule pg_read [OF assms(2) [unfolded pg_get_chain_tip_def]])
      (simp add: pg_tip_row_def same_tables_meaning)
  then obtain n where S: "same_tables s s'"
    "r = Inl Unavailable \<or> r = (case pg_tip_row E n t s of Inl err \<Rightarrow> Inl err | Inr None \<Rightarrow> Inl NotFound
      | Inr (Some row) \<Rightarrow> Inr \<lparr>tip_entry_id = er_entry_id row, tip_hash = er_entry_hash row,
          tip_hash_version = er_hash_version row, tip_position = er_chain_position row,
          tip_written_ts = pe_ts_from_sql E (er_written_ts row)\<rparr>)" by blast
  show ?thesis
  proof (cases "bad_text t")
    case True
    with S show ?thesis by (auto simp: pg_tip_row_def)
  next
    case False
    with S pg_tip [OF assms(1) False] last show ?thesis
      by (auto simp: pg_chain_Nil entry_chain_tip_def map_row_entry_def split: if_splits)
  qed
qed

lemma pg_types_spec:
  assumes "pg_store_inv E s" and "pg_get_distinct_entry_types E s = (r, s')"
  shows "same_tables s s' \<and> (case r of Inr ts \<Rightarrow> distinct ts \<and> set ts = {t. pg_chain E s t \<noteq> []}
    | Inl err \<Rightarrow> err = Unavailable)"
proof -
  have "er_entry_type ` set (pg_entries s) = {t. pg_chain E s t \<noteq> []}"
    by (auto simp: pg_chain_Nil pg_chain_rows_def filter_empty_conv)
  moreover have "same_tables s s' \<and> (r = Inl Unavailable \<or> (\<exists>n. r =
      Inr (sort_key (pe_collate E) (remdups (iterate (pe_scan E n) (map er_entry_type (pg_entries s)))))))"
    by (rule pg_read [OF assms(2) [unfolded pg_get_distinct_entry_types_def]]) (simp add: same_tables_def)
  ultimately show ?thesis by (auto simp: set_iterate [OF pg_rows(5) [OF assms(1)]])
qed

lemma pg_by_hash_spec:
  assumes "pg_store_inv E s" and "pg_get_entry_by_hash E t h s = (r, s')"
  shows "same_tables s s' \<and> (case r of
      Inr e \<Rightarrow> e \<in> set (pg_chain E s t) \<and> le_entry_hash e = h
    | Inl err \<Rightarrow> err = Unavailable \<or> (err = NotFound \<and> h \<notin> le_entry_hash ` set (pg_chain E s t)))"
proof -
  let ?rows = "filter (\<lambda>row. er_entry_hash row = h) (pg_chain_rows s t)"
  have "same_tables s s' \<and> (r = Inl Unavailable \<or> (\<exists>n. r =
      (if bad_text t \<or> bad_text h then Inl Unavailable
       else case query_opt (iterate (pe_scan E n) ?rows) of Inl err \<Rightarrow> Inl err | Inr None \<Rightarrow> Inl NotFound
         | Inr (Some row) \<Rightarrow> Inr (map_row_entry E row))))"
    by (rule pg_read [OF assms(2) [unfolded pg_get_entry_by_hash_def]]) (simp add: same_tables_meaning)
  then obtain n where S: "same_tables s s'" "r = Inl Unavailable \<or> r =
      (case query_opt (iterate (pe_scan E n) ?rows) of Inl err \<Rightarrow> Inl err | Inr None \<Rightarrow> Inl NotFound
         | Inr (Some row) \<Rightarrow> Inr (map_row_entry E row))" by (auto split: if_splits)
  show ?thesis
  proof (cases "query_opt (iterate (pe_scan E n) ?rows)")
    case (Inl err)
    with S query_opt_Inl [OF Inl] show ?thesis by auto
  next
    case (Inr x)
    from S Inr query_opt_some [OF pg_rows(5) [OF assms(1)] Inr] show ?thesis
      by (cases x) (force simp: set_pg_chain filter_empty_conv)+
  qed
qed

interpretation pg_store: entry_store "postgres E D" "pg_store_inv E" False "pg_chain E" for E D
proof (unfold_locales, goal_cases)
  case (1 s t after limit r s')
  then show ?case using pg_paged [of E s limit t after r s'] by (auto simp: same_tables_meaning answers_def)
next
  case (2 s i r s')
  then show ?case using pg_get_entry_spec [of E s i r s'] by (auto simp: same_tables_meaning split: sum.splits)
next
  case (3 s t r s')
  then show ?case using pg_tip_spec [of E s t r s']
    by (auto simp: same_tables_meaning entry_chain_tip_def split: if_splits)
next
  case (4 s r s')
  then show ?case using pg_types_spec [of E s r s'] by (auto simp: same_tables_meaning split: sum.splits)
next
  case (5 s t h r s')
  then show ?case using pg_by_hash_spec [of E s t h r s'] by (auto simp: same_tables_meaning split: sum.splits)
next
  case (6 s t)
  then show ?case by (rule pg_chain_ascending)
next
  case (7 s e t)
  then show ?case by (auto simp: set_pg_chain pg_chain_rows_def)
next
  case (8 s)
  then show ?case using pg_rows(4) [of E s] by (auto simp: all_entries_pg inj_on_def)
qed

section \<open>The write\<close>

lemma insort_key_snoc: "f x \<le> f y \<Longrightarrow> insort_key f x (zs @ [y]) = insort_key f x zs @ [y]"
  by (induction zs) auto

lemma sort_key_snoc: "\<forall>x \<in> set xs. f x \<le> f y \<Longrightarrow> sort_key f (xs @ [y]) = sort_key f xs @ [y]"
  by (induction xs) (simp_all add: insort_key_snoc)

lemma pg_inv_parts:
  assumes "pg_inv E D s"
  shows "pg_env_ok E D" and "pg_store_inv E s" and "ledger_inv D (pg_chain E s)"
    and "positions_ok (pg_chain E s t)"
  using assms by (auto simp: pg_inv_def intro: chain_inv_positions ledger_inv_chain)

lemma pg_ordered_parts:
  assumes "pg_ordered E s" shows "pg_store_inv E s" and "positions_ok (pg_chain E s t)"
  using assms by (auto simp: pg_ordered_def)

lemma pg_inv_ordered: "pg_inv E D s \<Longrightarrow> pg_ordered E s"
  by (simp add: pg_ordered_def pg_inv_parts)

lemma pg_next:
  assumes inv: "pg_ordered E s" and "\<not> bad_text t"
  shows "(case pg_tip_row E n t s of Inl err \<Rightarrow> Inl err | Inr tip \<Rightarrow> pg_next_position tip prev) =
    (if link_ok prev (pg_chain E s t) then Inr (int (length (pg_chain E s t)) + 1) else Inl ChainIntegrityViolation)"
proof (cases "pg_chain_rows s t = []")
  case True
  with pg_tip [OF pg_ordered_parts(1) [OF inv] assms(2)] show ?thesis
    by (simp add: pg_next_position_def link_ok_def pg_chain_def)
next
  case False
  let ?es = "pg_chain E s t" and ?up = "sort_key er_chain_position (pg_chain_rows s t)"
  have ne: "?es \<noteq> []" using False by (simp add: pg_chain_Nil)
  have "?up \<noteq> []" using False by (metis set_empty set_sort)
  then have last: "last ?es = map_row_entry E (last ?up)" by (simp add: pg_chain_def last_map)
  then have "er_chain_position (last ?up) = int (length ?es)"
    using positions_ok_last [OF pg_ordered_parts(2) [OF inv] ne] by simp
  with pg_tip [OF pg_ordered_parts(1) [OF inv] assms(2)] False ne last show ?thesis
    by (auto simp: pg_next_position_def link_ok_def)
qed

text \<open>A row the table accepts is stored as it is when the input is storable.\<close>

lemma hash_version_fits: "text_fits 64 ENTRY_HASH_VERSION"
proof -
  have "length ENTRY_HASH_VERSION \<le> 64" by (simp add: ENTRY_HASH_VERSION_def ENTRY_HASH_VERSION_V3_def)
  then show ?thesis
    unfolding text_fits_def by (simp add: drop_chars_length) (simp add: ENTRY_HASH_VERSION_def ENTRY_HASH_VERSION_V3_def)
qed

lemma hash_version_kept: "varchar_kept 64 ENTRY_HASH_VERSION" "\<not> varchar_error 64 ENTRY_HASH_VERSION"
  using text_fits_varchar [OF hash_version_fits] by simp_all

lemma row_assigned_kept:
  assumes "pg_env_ok E D" and "pg_storable E D input" and "\<not> row_error (pg_new_row E D i input n)"
  shows "row_assigned (pg_new_row E D i input n) = pg_new_row E D i input n"
proof -
  have "varchar_kept 64 (write_hash D i input n)"
    using assms(1) by (simp add: pg_env_ok_def write_hash_def canonical_entry_hash_eq canonical_entry_hash_v3_def
      text_fits_varchar)
  then show ?thesis
    using assms(2,3) unfolding row_assigned_def row_error_def pg_storable_def
    by (simp add: pg_new_row_def varchar_kept_take varchar_kept_opt hash_version_kept)
qed

lemma text_fits_take: "\<not> varchar_error n s \<Longrightarrow> text_fits n (take_chars n s)"
proof -
  have "drop_chars n (take_chars n s) = []"
    by (induction n s rule: take_chars.induct) (auto split: nat.splits)
  moreover have "set (take_chars n s) \<subseteq> set s" by (metis set_append sup_ge1 take_drop_chars)
  ultimately show "\<not> varchar_error n s \<Longrightarrow> text_fits n (take_chars n s)"
    by (auto simp: text_fits_def varchar_error_def)
qed

lemma text_fits_opt: "\<not> opt_holds (varchar_error n) x \<Longrightarrow> opt_all (text_fits n) (map_option (take_chars n) x)"
  by (cases x) (simp_all add: text_fits_take)

lemma row_assigned_typed: "\<not> row_error row \<Longrightarrow> entry_row_typed (row_assigned row)"
  by (simp add: row_error_def row_assigned_def entry_row_typed_def text_fits_take text_fits_opt)

text \<open>The new row is the entry the specification appends.\<close>

lemma write_hash_clip:
  assumes "timestamp_millis D (clip (wi_written_ts input)) = timestamp_millis D (wi_written_ts input)"
  shows "write_hash D i (clip_input clip input) n = write_hash D i input n"
    and "new_outbox D d (clip_input clip input) n = new_outbox D d input n"
proof -
  show *: "write_hash D i (clip_input clip input) n = write_hash D i input n" for i
    using assms by (simp add: write_hash_def clip_input_def)
  show "new_outbox D d (clip_input clip input) n = new_outbox D d input n"
    using assms by (simp add: new_outbox_def *) (simp add: clip_input_def)
qed

lemma map_row_new:
  assumes "pg_storable E D input"
  shows "map_row_entry E (pg_new_row E D i input n) = new_entry D i (clip_input (pg_clip E) input) n"
proof -
  have "timestamp_millis D (pg_clip E (wi_written_ts input)) = timestamp_millis D (wi_written_ts input)"
    using assms by (simp add: pg_storable_def)
  from write_hash_clip(1) [where clip = "pg_clip E", OF this] show ?thesis
    by (simp add: map_row_entry_def pg_new_row_def new_entry_def) (simp add: clip_input_def pg_clip_def)
qed

lemma status_parse [simp]:
  "to_ascii_uppercase ''PENDING'' = ''PENDING''" "to_ascii_uppercase ''DELIVERED'' = ''DELIVERED''"
  "to_ascii_uppercase ''FAILED'' = ''FAILED''"
  by (simp_all add: to_ascii_uppercase_def)

lemma pg_call_cases:
  assumes "pg_call E rest s = (r, s')"
  shows "(r = Inl Unavailable \<and> same_tables s s') \<or> (\<exists>s1. same_tables s s1 \<and> rest (pg_calls s) s1 = (r, s'))"
  using assms by (auto simp: pg_call_def split: if_splits intro: exI [of _ "count_call s"])

text \<open>The last calls of the transaction: nothing, or the row and its event.\<close>

definition pg_appended ::
    "pg_env \<Rightarrow> entry_write_input \<Rightarrow> entry_row \<Rightarrow> outbox_row \<Rightarrow> pg_state \<Rightarrow> pg_state \<Rightarrow> bool" where
  "pg_appended E input row orow s s' \<longleftrightarrow> pg_entries s' = pg_entries s @ [row]
     \<and> (if wi_create_outbox input
        then \<exists>x. insert_outbox E (pg_outbox s) orow = Some x \<and> pg_outbox s' = pg_outbox s @ [x]
        else pg_outbox s' = pg_outbox s)"

definition pg_result :: "third_party \<Rightarrow> uuid_draws \<Rightarrow> entry_write_input \<Rightarrow> i64 \<Rightarrow> write_result" where
  "pg_result D d input n = \<lparr>wr_entry = new_entry D (dr_entry_id d) input n,
     wr_outbox = (if wi_create_outbox input then Some (new_outbox D d input n) else None)\<rparr>"

lemma pg_finish_cases:
  assumes "pg_finish E D d input n row xs s = (r, s')"
  shows "(r = Inl Unavailable \<and> same_tables s s')
    \<or> (pg_entries s' = pg_entries s @ [row] \<and> pg_outbox s' = pg_outbox s @ xs
       \<and> (r = Inl Unavailable \<or> r = Inr (pg_result D d input n)))"
  using assms by (auto simp: pg_finish_def pg_commit_def pg_result_def split: pg_fault.splits)

lemma pg_insert_outbox_cases:
  assumes "pg_insert_outbox E D d input n row orow s = (r, s')"
  shows "(r = Inl Unavailable \<and> same_tables s s')
    \<or> (pg_appended E input row orow s s' \<and> (r = Inl Unavailable \<or> r = Inr (pg_result D d input n)))"
proof (cases "wi_create_outbox input")
  case False
  with assms pg_finish_cases [of E D d input n row "[]" s r s'] show ?thesis
    by (auto simp: pg_insert_outbox_def pg_appended_def)
next
  case True
  with pg_call_cases [OF assms [unfolded pg_insert_outbox_def if_P [OF True]]] show ?thesis
    by (auto simp: pg_appended_def same_tables_def dest!: pg_finish_cases split: option.splits)
qed

text \<open>The insertion of the entry and what follows it.\<close>

definition pg_inserted ::
    "pg_env \<Rightarrow> third_party \<Rightarrow> uuid_draws \<Rightarrow> entry_write_input \<Rightarrow> i64 \<Rightarrow> outbox_row \<Rightarrow>
     pg_state \<Rightarrow> repository_error + write_result \<Rightarrow> pg_state \<Rightarrow> bool" where
  "pg_inserted E D d input n orow s r s' \<longleftrightarrow>
     (case insert_entry (pg_entries s) (pg_new_row E D (dr_entry_id d) input n) of
        Inl err \<Rightarrow> r = Inl (insert_error err) \<and> same_tables s s'
      | Inr row \<Rightarrow> pg_appended E input row orow s s' \<and> (r = Inl Unavailable \<or> r = Inr (pg_result D d input n)))"

lemma pg_insert_cases:
  assumes "pg_call E (\<lambda>_ s. case insert_entry (pg_entries s) (pg_new_row E D (dr_entry_id d) input n) of
      Inl err \<Rightarrow> (Inl (insert_error err), s)
    | Inr row \<Rightarrow> pg_insert_outbox E D d input n row orow s) s = (r, s')"
  shows "(r = Inl Unavailable \<and> same_tables s s') \<or> pg_inserted E D d input n orow s r s'"
proof (cases "insert_entry (pg_entries s) (pg_new_row E D (dr_entry_id d) input n)")
  case (Inl err)
  with pg_call_cases [OF assms] show ?thesis by (auto simp: pg_inserted_def same_tables_def)
next
  case (Inr row)
  from pg_call_cases [OF assms] show ?thesis
  proof
    assume "\<exists>s1. same_tables s s1 \<and> (case insert_entry (pg_entries s1) (pg_new_row E D (dr_entry_id d) input n) of
        Inl err \<Rightarrow> (Inl (insert_error err), s1) | Inr row \<Rightarrow> pg_insert_outbox E D d input n row orow s1) = (r, s')"
    then obtain s1 where s1: "same_tables s s1" "pg_insert_outbox E D d input n row orow s1 = (r, s')"
      using Inr by (auto simp: same_tables_def)
    from pg_insert_outbox_cases [OF s1(2)] s1(1) Inr show ?thesis
      by (auto simp: pg_inserted_def same_tables_def pg_appended_def)
  qed blast
qed

lemma pg_write_cases:
  assumes inv: "pg_ordered E s" and run: "pg_write_entry_with_outbox E D d input s = (r, s')"
  shows "(r = Inl Unavailable \<and> same_tables s s')
    \<or> (r = Inl ChainIntegrityViolation \<and> same_tables s s' \<and>
        \<not> link_ok (wi_previous_hash input) (pg_chain E s (wi_entry_type input)))
    \<or> (link_ok (wi_previous_hash input) (pg_chain E s (wi_entry_type input)) \<and>
       (\<exists>n now payload. n = int (length (pg_chain E s (wi_entry_type input))) + 1
         \<and> pe_json_from_str E (ob_payload (new_outbox D d input n)) = Some payload
         \<and> pg_inserted E D d input n (pg_new_outbox_row d input payload now) s r s'))"
  (is "?fail \<or> ?broken \<or> ?linked")
proof -
  let ?t = "wi_entry_type input" and ?n = "int (length (pg_chain E s (wi_entry_type input))) + 1"
  from pg_call_cases [OF run [unfolded pg_write_entry_with_outbox_def]] consider ?fail
    | s4 k b where "same_tables s s4" "(case pg_tip_row E k ?t s4 of Inl err \<Rightarrow> (Inl err, s4)
         | Inr tip_row \<Rightarrow> (case pg_next_position tip_row (wi_previous_hash input) of Inl err \<Rightarrow> (Inl err, s4)
           | Inr next_position \<Rightarrow> (case pe_json_from_str E (ob_payload (new_outbox D d input next_position)) of
               None \<Rightarrow> (Inl Unavailable, s4)
             | Some payload \<Rightarrow> pg_call E (\<lambda>_ s. case insert_entry (pg_entries s)
                   (pg_new_row E D (dr_entry_id d) input next_position) of Inl err \<Rightarrow> (Inl (insert_error err), s)
                 | Inr row \<Rightarrow> pg_insert_outbox E D d input next_position row
                     (pg_new_outbox_row d input payload (pe_now E b)) s) s4))) = (r, s')"
    by (fastforce simp: same_tables_def dest!: pg_call_cases)
  then show ?thesis
  proof cases
    case 2
    have tip: "pg_tip_row E k ?t s4 = pg_tip_row E k ?t s"
      by (simp add: pg_tip_row_def same_tables_meaning [OF 2(1)])
    show ?thesis
    proof (cases "bad_text ?t")
      case True
      with 2 show ?thesis by (simp add: tip) (simp add: pg_tip_row_def)
    next
      case False
      obtain tr where tr: "pg_tip_row E k ?t s = Inr tr" using pg_tip [OF pg_ordered_parts(1) [OF inv] False] by blast
      note next_pos = pg_next [OF inv False, where n = k and prev = "wi_previous_hash input", unfolded tr sum.case]
      show ?thesis
      proof (cases "link_ok (wi_previous_hash input) (pg_chain E s ?t)
          \<and> pe_json_from_str E (ob_payload (new_outbox D d input ?n)) \<noteq> None")
        case False
        with 2 show ?thesis by (auto simp: tip tr next_pos split: if_splits)
      next
        case True
        then obtain payload where P: "pe_json_from_str E (ob_payload (new_outbox D d input ?n)) = Some payload" by blast
        from 2(2) True P have "pg_call E (\<lambda>_ s. case insert_entry (pg_entries s) (pg_new_row E D (dr_entry_id d) input ?n) of
            Inl err \<Rightarrow> (Inl (insert_error err), s)
          | Inr row \<Rightarrow> pg_insert_outbox E D d input ?n row (pg_new_outbox_row d input payload (pe_now E b)) s) s4
            = (r, s')" by (simp add: tip tr next_pos)
        from pg_insert_cases [OF this] 2(1) have "?fail \<or> pg_inserted E D d input ?n
            (pg_new_outbox_row d input payload (pe_now E b)) s r s'"
          by (auto simp: same_tables_def pg_inserted_def pg_appended_def split: sum.splits)
        with True P show ?thesis by blast
      qed
    qed
  qed blast
qed

section \<open>What a committed write does\<close>

lemma positions_ok_bound: "positions_ok es \<Longrightarrow> e \<in> set es \<Longrightarrow> le_chain_position e \<le> int (length es)"
  by (auto simp: in_set_conv_nth positions_ok_nth)

lemma pg_row_position:
  assumes "pg_ordered E s" and "row \<in> set (pg_chain_rows s t)"
  shows "er_chain_position row \<le> int (length (pg_chain E s t))"
  using positions_ok_bound [OF pg_ordered_parts(2) [OF assms(1)], of "map_row_entry E row" t] assms(2)
  by (simp add: set_pg_chain)

lemma pg_chain_row:
  assumes inv: "pg_ordered E s" and "pg_entries s' = pg_entries s @ [row]"
    and pos: "er_chain_position row = int (length (pg_chain E s (er_entry_type row))) + 1"
  shows "pg_chain E s' = (pg_chain E s)(er_entry_type row := pg_chain E s (er_entry_type row) @ [map_row_entry E row])"
proof
  fix t
  show "pg_chain E s' t = ((pg_chain E s)(er_entry_type row := pg_chain E s (er_entry_type row) @ [map_row_entry E row])) t"
  proof (cases "t = er_entry_type row")
    case False
    with assms(2) show ?thesis by (simp add: pg_chain_def pg_chain_rows_def)
  next
    case True
    have "sort_key er_chain_position (pg_chain_rows s t @ [row]) = sort_key er_chain_position (pg_chain_rows s t) @ [row]"
      by (rule sort_key_snoc) (use pg_row_position [OF inv] pos True in force)
    moreover have "pg_chain_rows s' t = pg_chain_rows s t @ [row]"
      unfolding pg_chain_rows_def assms(2) filter_append using True by simp
    ultimately show ?thesis using True by (simp add: pg_chain_def)
  qed
qed

lemma pg_chain_append:
  assumes inv: "pg_inv E D s" and "pg_storable E D input"
    and "pg_entries s' = pg_entries s @
      [pg_new_row E D (dr_entry_id d) input (int (length (pg_chain E s (wi_entry_type input))) + 1)]"
  shows "pg_chain E s' = append_entry D (pg_chain E s) d (clip_input (pg_clip E) input)"
proof -
  let ?n = "int (length (pg_chain E s (wi_entry_type input))) + 1"
  have simps: "er_entry_type (pg_new_row E D (dr_entry_id d) input ?n) = wi_entry_type input"
    "er_chain_position (pg_new_row E D (dr_entry_id d) input ?n) = ?n"
    by (simp_all add: pg_new_row_def)
  show ?thesis
    using pg_chain_row [OF pg_inv_ordered [OF inv] assms(3), unfolded simps]
    by (simp add: append_entry_def next_entry_def map_row_new [OF assms(2)])
qed

lemma find_snoc: "List.find Q (xs @ [x]) = (case List.find Q xs of Some y \<Rightarrow> Some y | None \<Rightarrow> if Q x then Some x else None)"
  by (induction xs) auto

lemma insert_outbox_event:
  assumes env: "pg_env_ok E D" and "pe_json_from_str E (ob_payload (new_outbox D d input n)) = Some payload"
    and "insert_outbox E rows (pg_new_outbox_row d input payload now) = Some x" and "varchar_kept 255 (wi_entry_type input)"
  shows "map_outbox_row D x = new_outbox D d input n" and "or_outbox_id x = dr_outbox_id d" and "outbox_row_typed x"
    and "dr_outbox_id d \<notin> or_outbox_id ` set rows"
proof -
  from assms(3) obtain payload' where p: "pe_jsonb E payload = Some payload'"
    and x: "x = (pg_new_outbox_row d input payload now)\<lparr>or_entry_type := take_chars 255 (wi_entry_type input),
      or_payload := payload'\<rparr>" and ok: "\<not> varchar_error 255 (wi_entry_type input)"
      "\<not> list_ex (\<lambda>x. or_outbox_id x = dr_outbox_id d) rows"
    by (auto simp: insert_outbox_def pg_new_outbox_row_def split: if_splits)
  obtain v where v: "ob_payload (new_outbox D d input n) = json_to_string D v"
    by (auto simp: new_outbox_def ledger_written_payload_def)
  have "json_to_string D payload' = ob_payload (new_outbox D d input n)"
    using env assms(2) p unfolding v pg_env_ok_def by blast
  then show "map_outbox_row D x = new_outbox D d input n"
    using varchar_kept_take [OF assms(4) ok(1)]
    by (simp add: x map_outbox_row_def pg_new_outbox_row_def new_outbox_def)
  show "or_outbox_id x = dr_outbox_id d" by (simp add: x pg_new_outbox_row_def)
  show "outbox_row_typed x"
    using text_fits_take [OF ok(1)] by (simp add: x outbox_row_typed_def pg_new_outbox_row_def)
  show "dr_outbox_id d \<notin> or_outbox_id ` set rows" using ok(2) by (auto simp: list_ex_iff)
qed

lemma insert_entry_Inr:
  assumes "insert_entry rows row = Inr row'"
  shows "row' = row_assigned row" and "\<not> row_error row" and "unique_violation rows (row_assigned row) = None"
  using assms by (auto simp: insert_entry_def split: if_splits option.splits)

text \<open>The unique indexes say what the specification says about keys; the others cannot fire.\<close>

lemma pg_unique_violation:
  assumes inv: "pg_inv E D s" and "dr_entry_id d \<notin> le_entry_id ` all_entries (pg_chain E s)"
    and row: "row = pg_new_row E D (dr_entry_id d) input (int (length (pg_chain E s (wi_entry_type input))) + 1)"
  shows "unique_violation (pg_entries s) row =
    (if key_used (wi_idempotency_key input) (pg_chain E s (wi_entry_type input)) then Some ''idx_ledger_idempotency'' else None)"
proof -
  let ?t = "wi_entry_type input"
  have row_simps: "er_entry_id row = dr_entry_id d" "er_entry_type row = ?t"
    "er_chain_position row = int (length (pg_chain E s ?t)) + 1" "er_idempotency_key row = wi_idempotency_key input"
    by (simp_all add: row pg_new_row_def)
  have "\<not> list_ex (\<lambda>x. er_entry_id x = er_entry_id row) (pg_entries s)"
    using assms(2) by (force simp: list_ex_iff all_entries_pg row_simps)
  moreover have "\<not> list_ex (same_position row) (pg_entries s)"
    using pg_row_position [OF pg_inv_ordered [OF inv], of _ ?t] by (force simp: list_ex_iff same_position_def row_simps pg_chain_rows_def)
  moreover have "list_ex (same_key row) (pg_entries s) \<longleftrightarrow> key_used (wi_idempotency_key input) (pg_chain E s ?t)"
    by (auto simp: list_ex_iff same_key_def row_simps key_used_def with_key_def set_pg_chain pg_chain_rows_def)
  ultimately show ?thesis by (simp add: unique_violation_def)
qed

lemma pg_store_inv_append:
  assumes "pg_store_inv E s" and "unique_violation (pg_entries s) row = None" and "pg_entries s' = pg_entries s @ [row]"
  shows "pg_store_inv E s'"
  using assms
  by (auto simp: pg_store_inv_def unique_violation_def position_key_def same_position_def list_ex_iff split: if_splits)

lemma pg_outboxes_None: "pg_outboxes D s i = None \<longleftrightarrow> i \<notin> or_outbox_id ` set (pg_outbox s)"
  by (auto simp: pg_outboxes_def find_None_iff)

lemma pg_write_appended:
  assumes inv: "pg_inv E D s" and fresh: "fresh_draws (pg_chain E s) (pg_outboxes D s) d"
    and keep: "pg_storable E D input"
    and n: "n = int (length (pg_chain E s (wi_entry_type input))) + 1"
    and link: "link_ok (wi_previous_hash input) (pg_chain E s (wi_entry_type input))"
    and json: "pe_json_from_str E (ob_payload (new_outbox D d input n)) = Some payload"
    and ins: "insert_entry (pg_entries s) (pg_new_row E D (dr_entry_id d) input n) = Inr row"
    and app: "pg_appended E input row (pg_new_outbox_row d input payload now) s s'"
  shows "pg_inv E D s'" and "pg_chain E s' = append_entry D (pg_chain E s) d (clip_input (pg_clip E) input)"
    and "pg_outboxes D s' = append_outbox D (pg_chain E s) (pg_outboxes D s) d (clip_input (pg_clip E) input)"
    and "\<not> key_used (wi_idempotency_key input) (pg_chain E s (wi_entry_type input))"
proof -
  let ?L = "pg_chain E s" and ?t = "wi_entry_type input" and ?row = "pg_new_row E D (dr_entry_id d) input n"
  note I = insert_entry_Inr [OF ins] and env = pg_inv_parts(1) [OF inv]
  have row: "row = ?row" using I(1) row_assigned_kept [OF env keep I(2)] by simp
  have id: "dr_entry_id d \<notin> le_entry_id ` all_entries ?L" using fresh by (simp add: fresh_draws_def)
  have entries: "pg_entries s' = pg_entries s @ [?row]" using app by (simp add: pg_appended_def row)
  show chain: "pg_chain E s' = append_entry D ?L d (clip_input (pg_clip E) input)"
    using pg_chain_append [OF inv keep] entries n by blast
  have free: "unique_violation (pg_entries s) ?row = None"
    using I(3) row_assigned_kept [OF env keep I(2)] by simp
  then show key: "\<not> key_used (wi_idempotency_key input) (?L ?t)"
    using pg_unique_violation [OF inv id, of ?row input] n by (auto split: if_splits)
  have event: "map_outbox_row D x = next_outbox D ?L d (clip_input (pg_clip E) input) \<and> or_outbox_id x = dr_outbox_id d
      \<and> outbox_row_typed x \<and> dr_outbox_id d \<notin> or_outbox_id ` set (pg_outbox s)"
    if "insert_outbox E (pg_outbox s) (pg_new_outbox_row d input payload now) = Some x" for x
    using insert_outbox_event [OF env json that] keep n
      write_hash_clip(2) [where clip = "pg_clip E" and D = D and input = input and d = d and n = n]
    by (simp add: next_outbox_def pg_storable_def)
  show "pg_outboxes D s' = append_outbox D ?L (pg_outboxes D s) d (clip_input (pg_clip E) input)"
  proof
    fix i
    show "pg_outboxes D s' i = append_outbox D ?L (pg_outboxes D s) d (clip_input (pg_clip E) input) i"
      using app event fresh
      by (auto simp: pg_appended_def append_outbox_def pg_outboxes_def find_snoc fresh_draws_def
          split: if_splits option.splits)
  qed
  have "pg_store_inv E s'" by (rule pg_store_inv_append [OF pg_inv_parts(2) [OF inv] free entries])
  moreover have "ledger_inv D (pg_chain E s')"
    using ledger_inv_append [OF pg_inv_parts(3) [OF inv], of "clip_input (pg_clip E) input" d] link key id
    by (simp add: chain)
  moreover have "distinct (map or_outbox_id (pg_outbox s')) \<and> pg_typed s'"
    using inv app event row_assigned_typed [OF I(2)] I(1) row
    by (auto simp: pg_inv_def pg_appended_def pg_typed_def entries split: if_splits)
  ultimately show "pg_inv E D s'" using env by (simp add: pg_inv_def)
qed

lemma pg_write_law:
  assumes inv: "pg_inv E D s" and fresh: "fresh_draws (pg_chain E s) (pg_outboxes D s) d"
    and keep: "pg_storable E D input" and run: "pg_write_entry_with_outbox E D d input s = (r, s')"
  shows "pg_inv E D s' \<and> write_spec D (pg_clip E) False d input (pg_chain E s) (pg_outboxes D s) r
    (pg_chain E s') (pg_outboxes D s')"
  using pg_write_cases [OF pg_inv_ordered [OF inv] run]
proof (elim disjE conjE exE)
  assume "r = Inl Unavailable" and "same_tables s s'"
  then show ?thesis using inv by (simp add: same_tables_meaning write_spec_def Let_def)
next
  assume "r = Inl ChainIntegrityViolation" and "same_tables s s'"
    and "\<not> link_ok (wi_previous_hash input) (pg_chain E s (wi_entry_type input))"
  then show ?thesis using inv by (simp add: same_tables_meaning write_spec_def Let_def)
next
  fix n now payload
  assume link: "link_ok (wi_previous_hash input) (pg_chain E s (wi_entry_type input))"
    and n: "n = int (length (pg_chain E s (wi_entry_type input))) + 1"
    and json: "pe_json_from_str E (ob_payload (new_outbox D d input n)) = Some payload"
    and ins: "pg_inserted E D d input n (pg_new_outbox_row d input payload now) s r s'"
  let ?row = "pg_new_row E D (dr_entry_id d) input n"
  have id: "dr_entry_id d \<notin> le_entry_id ` all_entries (pg_chain E s)" using fresh by (simp add: fresh_draws_def)
  show ?thesis
  proof (cases "insert_entry (pg_entries s) ?row")
    case (Inl err)
    then have "err = Other_error \<or> (err = Unique_violation ''idx_ledger_idempotency''
        \<and> key_used (wi_idempotency_key input) (pg_chain E s (wi_entry_type input)))"
      using pg_unique_violation [OF inv id, of ?row input] row_assigned_kept [OF pg_inv_parts(1) [OF inv] keep] n
      by (auto simp: insert_entry_def split: if_splits)
    with ins Inl inv show ?thesis
      by (auto simp: pg_inserted_def insert_error_def same_tables_meaning write_spec_def Let_def)
  next
    case (Inr row)
    with ins have "pg_appended E input row (pg_new_outbox_row d input payload now) s s'"
      and r: "r = Inl Unavailable \<or> r = Inr (pg_result D d input n)" by (simp_all add: pg_inserted_def)
    from pg_write_appended [OF inv fresh keep n link json Inr this(1)] r link keep n show ?thesis
      using write_hash_clip(1) [where clip = "pg_clip E" and D = D and input = input]
        write_hash_clip(2) [where clip = "pg_clip E" and D = D and input = input]
      by (auto simp: write_spec_def Let_def pg_result_def next_entry_def next_outbox_def pg_storable_def new_entry_def)
        (simp_all add: clip_input_def)
  qed
qed

text \<open>The unique index makes the query on a key find what the first matching entry of the chain is.\<close>

lemma pg_key_rows:
  assumes inv: "pg_inv E D s"
  shows "map_sum id (map_option (map_row_entry E)) (query_opt (iterate (pe_scan E n)
      (filter (\<lambda>row. er_idempotency_key row = Some k) (pg_chain_rows s t)))) =
    Inr (List.find (with_key k) (pg_chain E s t))"
proof -
  let ?rows = "filter (\<lambda>row. er_idempotency_key row = Some k) (pg_chain_rows s t)"
  note st = pg_inv_parts(2) [OF inv]
  have same: "x = y" if "x \<in> set ?rows" "y \<in> set ?rows" for x y
  proof -
    have "map_row_entry E x = map_row_entry E y"
      using that pg_inv_parts(3) [OF inv] unfolding ledger_inv_def
      by (metis (mono_tags, lifting) image_eqI map_row_entry_simps(5) mem_Collect_eq option.distinct(1) set_filter set_pg_chain)
    then have "er_chain_position x = er_chain_position y" by (metis map_row_entry_simps(3))
    with pg_rows(3) [OF st, of t] that show ?thesis by (auto dest: inj_onD)
  qed
  have q: "query_opt (iterate (pe_scan E n) ?rows) = Inr (if ?rows = [] then None else Some (hd ?rows))"
    by (rule query_opt_key [OF pg_rows(5) [OF st]]) (use pg_rows(2) [OF st] same in auto)
  have "List.find (with_key k) (pg_chain E s t) = map_option (map_row_entry E) (if ?rows = [] then None else Some (hd ?rows))"
  proof (cases "List.find (with_key k) (pg_chain E s t)")
    case None
    then show ?thesis by (auto simp: find_None_iff set_pg_chain with_key_def filter_empty_conv)
  next
    case (Some e)
    then have "e \<in> set (pg_chain E s t)" "with_key k e" by (auto simp: find_Some_iff)
    then obtain row where row: "row \<in> set ?rows" "e = map_row_entry E row" by (auto simp: set_pg_chain with_key_def)
    then have "?rows \<noteq> []" by force
    with same [OF row(1) hd_in_set] row(2) Some show ?thesis by simp
  qed
  then show ?thesis unfolding q by simp
qed

lemma pg_find_spec:
  assumes "pg_inv E D s" and "pg_find_idempotent E t k s = (r, s')"
  shows "same_tables s s' \<and> (r = Inl Unavailable \<or> r = Inr (List.find (with_key k) (pg_chain E s t)))"
proof -
  have "same_tables s s' \<and> (r = Inl Unavailable \<or> (\<exists>n. r = (if bad_text t \<or> bad_text k then Inl Unavailable
      else map_sum id (map_option (map_row_entry E)) (query_opt (iterate (pe_scan E n)
        (filter (\<lambda>row. er_idempotency_key row = Some k) (pg_chain_rows s t)))))))"
    by (rule pg_read [OF assms(2) [unfolded pg_find_idempotent_def]]) (simp add: same_tables_meaning)
  then show ?thesis unfolding pg_key_rows [OF assms(1)] by (auto split: if_splits)
qed

interpretation pg_ledger: ledger_store "postgres E D" "pg_inv E D" False "pg_chain E" D "pg_outboxes D"
    "pg_clip E" "pg_storable E D" for E D
proof (unfold_locales, goal_cases)
  case (1 s t after limit r s')
  then show ?case using pg_paged [OF pg_inv_parts(2)] by (fastforce simp: same_tables_meaning answers_def)
next
  case (2 s i r s')
  then show ?case using pg_get_entry_spec [OF pg_inv_parts(2), of E D s i r s']
    by (auto simp: same_tables_meaning split: sum.splits)
next
  case (3 s t r s')
  then show ?case using pg_tip_spec [OF pg_inv_parts(2), of E D s t r s']
    by (auto simp: same_tables_meaning entry_chain_tip_def split: if_splits)
next
  case (4 s r s')
  then show ?case using pg_types_spec [OF pg_inv_parts(2), of E D s r s']
    by (auto simp: same_tables_meaning split: sum.splits)
next
  case (5 s t h r s')
  then show ?case using pg_by_hash_spec [OF pg_inv_parts(2), of E D s t h r s']
    by (auto simp: same_tables_meaning split: sum.splits)
next
  case (6 s t)
  then show ?case using pg_store.stored_ascending pg_inv_parts(2) by blast
next
  case (7 s e t)
  then show ?case using pg_store.stored_type pg_inv_parts(2) by blast
next
  case (8 s)
  then show ?case using pg_store.stored_ids pg_inv_parts(2) by blast
next
  case (9 s)
  then show ?case by (rule pg_inv_parts(3))
next
  case (10 s d input r s')
  then show ?case using pg_write_law by simp
next
  case (11 input)
  then show ?case by (simp add: pg_storable_def)
next
  case (12 s t r s')
  then show ?case using pg_tip_spec [OF pg_inv_parts(2), of E D s t r s']
    by (auto simp: same_tables_meaning answers_def)
next
  case (13 s t k r s')
  then show ?case using pg_find_spec [of E D s t k r s'] by (auto simp: same_tables_meaning answers_def)
qed

section \<open>The outbox table\<close>

lemma pg_outboxes_Some:
  assumes "pg_outboxes D s i = Some x"
  shows "\<exists>row \<in> set (pg_outbox s). or_outbox_id row = i \<and> x = map_outbox_row D row"
  using assms by (auto simp: pg_outboxes_def find_Some_iff)

lemma find_distinct:
  "distinct (map f xs) \<Longrightarrow> x \<in> set xs \<Longrightarrow> List.find (\<lambda>y. f y = f x) xs = Some x"
  by (induction xs) auto

lemma pg_outboxes_row:
  assumes "pg_inv E D s" and "row \<in> set (pg_outbox s)"
  shows "pg_outboxes D s (or_outbox_id row) = Some (map_outbox_row D row)"
  using find_distinct [of or_outbox_id "pg_outbox s" row] assms by (simp add: pg_outboxes_def pg_inv_def)

lemma ran_pg_outboxes:
  assumes "pg_inv E D s" shows "ran (pg_outboxes D s) = map_outbox_row D ` set (pg_outbox s)"
  using pg_outboxes_row [OF assms] pg_outboxes_Some by (fastforce simp: ran_def)

lemma map_outbox_row_simps [simp]:
  "ob_outbox_id (map_outbox_row D row) = or_outbox_id row"
  "ob_attempt_count (map_outbox_row D row) = or_attempt_count row"
  by (simp_all add: map_outbox_row_def)

lemma outbox_pending_iff:
  "outbox_row_typed row \<Longrightarrow> ob_status (map_outbox_row D row) = Pending \<longleftrightarrow> or_status row = ''PENDING''"
  by (auto simp: outbox_row_typed_def map_outbox_row_def)

lemma pg_pending_spec:
  assumes inv: "pg_inv E D s" and "pg_pending_outbox E D s = (r, s')"
  shows "same_tables s s' \<and> (case r of Inr rs \<Rightarrow> distinct (map ob_outbox_id rs)
      \<and> set rs = {x \<in> ran (pg_outboxes D s). ob_status x = Pending} | Inl err \<Rightarrow> err = Unavailable)"
proof -
  let ?rows = "filter (\<lambda>row. or_status row = ''PENDING'') (pg_outbox s)"
  note seed = pg_rows(5) [OF pg_inv_parts(2) [OF inv]]
  have "distinct (map or_outbox_id (order_by (pe_scan E n) or_created_ts ?rows))" for n
    using inv seed [of n] distinct_order_by [of "pe_scan E n" ?rows or_created_ts]
    by (auto simp: pg_inv_def distinct_map inj_on_def)
  moreover have "map_outbox_row D ` set ?rows = {x \<in> ran (pg_outboxes D s). ob_status x = Pending}"
    using inv outbox_pending_iff by (auto simp: ran_pg_outboxes [OF inv] pg_inv_def pg_typed_def)
  moreover have "same_tables s s' \<and> (r = Inl Unavailable \<or> (\<exists>n. r =
      Inr (map (map_outbox_row D) (order_by (pe_scan E n) or_created_ts ?rows))))"
    by (rule pg_read [OF assms(2) [unfolded pg_pending_outbox_def]]) (simp add: same_tables_def)
  ultimately show ?thesis by (auto simp: comp_def seed)
qed

lemma find_map_id:
  "(\<And>x. x \<in> set xs \<Longrightarrow> f (g x) = f x) \<Longrightarrow> List.find (\<lambda>x. f x = i) (map g xs) = map_option g (List.find (\<lambda>x. f x = i) xs)"
  by (induction xs) auto

text \<open>An update of the one row with a given id, when the server executes it.\<close>

lemma pg_updated:
  assumes inv: "pg_inv E D s" and x: "pg_outboxes D s i = Some x"
    and s': "same_tables (s\<lparr>pg_outbox := map (\<lambda>row. if cond row then g row else row) (pg_outbox s)\<rparr>) s'"
    and cond: "\<And>row. cond row \<Longrightarrow> or_outbox_id row = i"
    and change: "\<And>row. row \<in> set (pg_outbox s) \<Longrightarrow> or_outbox_id row = i \<Longrightarrow> x = map_outbox_row D row \<Longrightarrow>
      cond row \<and> or_outbox_id (g row) = i \<and> outbox_row_typed (g row) \<and> map_outbox_row D (g row) = y"
  shows "pg_inv E D s' \<and> pg_chain E s' = pg_chain E s \<and> pg_outboxes D s' = (pg_outboxes D s)(i \<mapsto> y)"
proof -
  let ?g = "\<lambda>row. if cond row then g row else row"
  have the_row: "x = map_outbox_row D row" if "row \<in> set (pg_outbox s)" "or_outbox_id row = i" for row
    using pg_outboxes_row [OF inv that(1)] that(2) x by simp
  have id: "or_outbox_id (?g row) = or_outbox_id row" if "row \<in> set (pg_outbox s)" for row
    using cond change [OF that] the_row [OF that] by auto
  have rows: "pg_outbox s' = map ?g (pg_outbox s)" "pg_entries s' = pg_entries s" using s' by (simp_all add: same_tables_def)
  have "pg_outboxes D s' j = ((pg_outboxes D s)(i \<mapsto> y)) j" for j
  proof (cases "List.find (\<lambda>row. or_outbox_id row = j) (pg_outbox s)")
    case None
    with x find_map_id [of "pg_outbox s" or_outbox_id ?g j] id show ?thesis
      by (auto simp: pg_outboxes_def rows)
  next
    case (Some row)
    then have "row \<in> set (pg_outbox s)" "or_outbox_id row = j" by (auto simp: find_Some_iff)
    with Some cond change [of row] the_row [of row] find_map_id [of "pg_outbox s" or_outbox_id ?g j] id show ?thesis
      by (auto simp: pg_outboxes_def rows)
  qed
  then have "pg_outboxes D s' = (pg_outboxes D s)(i \<mapsto> y)" by blast
  moreover have "map or_outbox_id (pg_outbox s') = map or_outbox_id (pg_outbox s)" using id by (simp add: rows(1))
  then have "distinct (map or_outbox_id (pg_outbox s'))" using inv by (simp add: pg_inv_def)
  moreover have "pg_typed s'" using inv cond change the_row by (auto simp: pg_inv_def pg_typed_def rows)
  moreover have "pg_chain E s' = pg_chain E s"
    by (rule ext) (simp add: pg_chain_def pg_chain_rows_def rows)
  ultimately show ?thesis using inv by (simp add: pg_inv_def pg_store_inv_def rows(2))
qed

lemma pg_update_law:
  assumes inv: "pg_inv E D s" and x: "pg_outboxes D s i = Some x"
    and cond: "\<And>row. cond row \<Longrightarrow> or_outbox_id row = i"
    and change: "\<And>n row. row \<in> set (pg_outbox s) \<Longrightarrow> or_outbox_id row = i \<Longrightarrow> x = map_outbox_row D row \<Longrightarrow>
      cond row \<and> or_outbox_id (g n row) = i \<and> outbox_row_typed (g n row) \<and> map_outbox_row D (g n row) = y"
    and run: "pg_update_outbox E cond g s = (r, s')"
  shows "pg_inv E D s' \<and> pg_chain E s' = pg_chain E s \<and>
    ((r = Inr () \<and> pg_outboxes D s' = (pg_outboxes D s)(i \<mapsto> y))
     \<or> (r = Inl Unavailable \<and> (pg_outboxes D s' = pg_outboxes D s \<or> pg_outboxes D s' = (pg_outboxes D s)(i \<mapsto> y))))"
proof -
  let ?s = "s\<lparr>pg_outbox := map (\<lambda>row. if cond row then g (pg_calls s) row else row) (pg_outbox s)\<rparr>"
  have "list_ex cond (pg_outbox s)" using pg_outboxes_Some [OF x] change by (auto simp: list_ex_iff)
  with run have "(r = Inl Unavailable \<and> same_tables s s') \<or> (same_tables ?s s' \<and> (r = Inr () \<or> r = Inl Unavailable))"
    by (auto simp: pg_update_outbox_def pg_commit_def same_tables_def split: pg_fault.splits)
  then show ?thesis
    using pg_updated [OF inv x _ cond change] inv by (fastforce simp: same_tables_meaning)
qed

lemma pg_change_law:
  assumes inv: "pg_inv E D s" and x: "pg_outboxes D s i = Some x"
    and cond: "\<And>row. cond row \<Longrightarrow> or_outbox_id row = i"
    and change: "\<And>n row. row \<in> set (pg_outbox s) \<Longrightarrow> or_outbox_id row = i \<Longrightarrow> x = map_outbox_row D row \<Longrightarrow>
      cond row \<and> or_outbox_id (g n row) = i \<and> outbox_row_typed (g n row) \<and> map_outbox_row D (g n row) = y"
    and run: "pg_call E (\<lambda>_. pg_update_outbox E cond g) s = (r, s')"
  shows "pg_inv E D s' \<and> pg_chain E s' = pg_chain E s \<and>
    ((r = Inr () \<and> pg_outboxes D s' = (pg_outboxes D s)(i \<mapsto> y))
     \<or> (r = Inl Unavailable \<and> (pg_outboxes D s' = pg_outboxes D s \<or> pg_outboxes D s' = (pg_outboxes D s)(i \<mapsto> y))))"
proof -
  consider "r = Inl Unavailable" "same_tables s s'"
    | s1 where "same_tables s s1" "pg_update_outbox E cond g s1 = (r, s')"
    using pg_call_cases [OF run] by blast
  then show ?thesis
  proof cases
    case 2
    note same = same_tables_meaning [OF 2(1)]
    have rows: "pg_outbox s1 = pg_outbox s" using 2(1) by (simp add: same_tables_def)
    have inv1: "pg_inv E D s1" using inv unfolding same .
    have x1: "pg_outboxes D s1 i = Some x" using x unfolding same .
    from pg_update_law [OF inv1 x1 cond change [folded rows] 2(2)] show ?thesis unfolding same by blast
  qed (use inv in \<open>simp add: same_tables_meaning\<close>)
qed

lemma pg_outbox_typed: "pg_inv E D s \<Longrightarrow> row \<in> set (pg_outbox s) \<Longrightarrow> outbox_row_typed row"
  by (simp add: pg_inv_def pg_typed_def)

lemma pg_delivered_law:
  assumes inv: "pg_inv E D s" and x: "pg_outboxes D s i = Some x" "ob_status x = Pending"
    and run: "pg_mark_outbox_delivered E i s = (r, s')"
  shows "pg_inv E D s' \<and> pg_chain E s' = pg_chain E s \<and>
    ((r = Inr () \<and> pg_outboxes D s' = (pg_outboxes D s)(i \<mapsto> x\<lparr>ob_status := Delivered\<rparr>))
     \<or> (r = Inl Unavailable \<and> (pg_outboxes D s' = pg_outboxes D s
         \<or> pg_outboxes D s' = (pg_outboxes D s)(i \<mapsto> x\<lparr>ob_status := Delivered\<rparr>))))"
  by (rule pg_change_law [OF inv x(1) _ _ run [unfolded pg_mark_outbox_delivered_def]])
    (use x(2) outbox_pending_iff pg_outbox_typed [OF inv] in
      \<open>auto simp: outbox_row_typed_def map_outbox_row_def split: if_splits\<close>)

lemma pg_failed_law:
  assumes inv: "pg_inv E D s" and x: "pg_outboxes D s i = Some x"
    and run: "pg_mark_outbox_failed E i s = (r, s')"
  shows "pg_inv E D s' \<and> pg_chain E s' = pg_chain E s \<and>
    ((r = Inr () \<and> pg_outboxes D s' = (pg_outboxes D s)(i \<mapsto> x\<lparr>ob_status := Failed\<rparr>))
     \<or> (r = Inl Unavailable \<and> (pg_outboxes D s' = pg_outboxes D s
         \<or> pg_outboxes D s' = (pg_outboxes D s)(i \<mapsto> x\<lparr>ob_status := Failed\<rparr>))))"
  by (rule pg_change_law [OF inv x _ _ run [unfolded pg_mark_outbox_failed_def]])
    (use pg_outbox_typed [OF inv] in \<open>auto simp: outbox_row_typed_def map_outbox_row_def\<close>)

lemma pg_increment_law:
  assumes inv: "pg_inv E D s" and x: "pg_outboxes D s i = Some x"
    and run: "pg_increment_outbox_attempt E i s = (r, s')"
  shows "pg_inv E D s' \<and> pg_chain E s' = pg_chain E s \<and>
    ((r = Inr () \<and> pg_outboxes D s' = (pg_outboxes D s)(i \<mapsto> x\<lparr>ob_attempt_count := ob_attempt_count x + 1\<rparr>))
     \<or> (r = Inl Unavailable \<and> (pg_outboxes D s' = pg_outboxes D s
         \<or> pg_outboxes D s' = (pg_outboxes D s)(i \<mapsto> x\<lparr>ob_attempt_count := ob_attempt_count x + 1\<rparr>))))"
proof (cases "list_ex (\<lambda>row. or_outbox_id row = i \<and> or_attempt_count row \<ge> 2 ^ 31 - 1) (pg_outbox s)")
  case True
  with run have "r = Inl Unavailable" "same_tables s s'"
    by (auto simp: pg_increment_outbox_attempt_def pg_call_def split: if_splits)
  with inv show ?thesis by (simp add: same_tables_meaning)
next
  case False
  let ?g = "\<lambda>n row. row\<lparr>or_attempt_count := or_attempt_count row + 1, or_last_attempt_ts := Some (pe_now E n)\<rparr>"
  from False run have "pg_call E (\<lambda>_. pg_update_outbox E (\<lambda>row. or_outbox_id row = i) ?g) s = (r, s')"
    by (simp add: pg_increment_outbox_attempt_def pg_call_def split: if_splits)
  then show ?thesis
    by (rule pg_change_law [OF inv x, rotated 2])
      (use False pg_outbox_typed [OF inv] in \<open>auto simp: outbox_row_typed_def map_outbox_row_def list_ex_iff\<close>)
qed

interpretation pg_outbox_store: outbox_store "postgres E D" "pg_inv E D" False "pg_chain E" "pg_outboxes D" for E D
proof (unfold_locales, goal_cases)
  case (1 s r s')
  then show ?case using pg_pending_spec [of E D s r s'] by (auto simp: same_tables_meaning split: sum.splits)
next
  case (2 s i x r s')
  then show ?case using pg_delivered_law by simp
next
  case (3 s i x r s')
  then show ?case using pg_increment_law by simp
next
  case (4 s i x r s')
  then show ?case using pg_failed_law by simp
next
  case (5 s i x)
  then show ?case using pg_outboxes_Some by fastforce
qed

section \<open>The service on PostgreSQL\<close>

definition pg_model :: "pg_env \<Rightarrow> third_party \<Rightarrow> pg_state store_model" where
  "pg_model E D = \<lparr>sm_repo = postgres E D, sm_chain = pg_chain E, sm_outbox = pg_outboxes D,
     sm_storable = pg_storable E D, sm_unused = True\<rparr>"

lemma pg_model_simps [simp]:
  "sm_repo (pg_model E D) = postgres E D" "sm_chain (pg_model E D) = pg_chain E"
  "sm_outbox (pg_model E D) = pg_outboxes D" "sm_storable (pg_model E D) = pg_storable E D"
  "sm_unused (pg_model E D)"
  by (simp_all add: pg_model_def)

lemma pg_reads_keep:
  assumes "\<And>s s'. same_tables s s' \<Longrightarrow> Q s' = Q s"
  shows "reads_keep (postgres E D) Q"
proof -
  have "Q (count_call s) = Q s" for s by (rule assms) simp
  then show ?thesis
    by (simp add: reads_keep_def pg_call_def pg_get_entries_by_type_paged_def pg_get_entry_def
        pg_get_chain_tip_def pg_get_distinct_entry_types_def pg_get_entry_by_hash_def)
qed

lemma pg_query_keeps:
  assumes "pg_query_entries E q s = (r, s')" shows "same_tables s s'"
  using assms by (auto simp: pg_query_entries_def pg_call_def Let_def split: if_splits)

interpretation pg_system: ledger_system "pg_model E D" "pg_inv E D" False D "pg_clip E" for E D
proof (rule ledger_system.intro)
  show "ledger_store (sm_repo (pg_model E D)) (pg_inv E D) False (sm_chain (pg_model E D)) D
      (sm_outbox (pg_model E D)) (pg_clip E) (sm_storable (pg_model E D))"
    by (simp add: pg_ledger.ledger_store_axioms)
  show "outbox_store (sm_repo (pg_model E D)) (pg_inv E D) False (sm_chain (pg_model E D)) (sm_outbox (pg_model E D))"
    by (simp add: pg_outbox_store.outbox_store_axioms)
  have "entry_store (postgres E D) (\<lambda>s. pg_inv E D s \<and> pg_outboxes D s = ob) False (pg_chain E)" for ob
    by (rule pg_ledger.pin [OF pg_reads_keep]) (simp add: same_tables_meaning)
  then show "ledger_system_axioms (pg_model E D) (pg_inv E D) False"
    by (intro ledger_system_axioms.intro) (auto dest!: pg_query_keeps simp: same_tables_meaning)
qed

lemma pg_inv_empty: "pg_env_ok E D \<Longrightarrow> pg_inv E D pg_empty"
  by (simp add: pg_inv_def pg_store_inv_def pg_empty_def pg_typed_def pg_env_ok_def ledger_inv_def all_entries_def
      pg_chain_def pg_chain_rows_def)

lemma pg_system_start:
  assumes "pg_env_ok E D"
  shows "system_inv (pg_inv E D) (pg_model E D) D cfg (service_new pg_empty)"
  using pg_inv_empty [OF assms]
  by (simp add: system_inv_def service_new_def rooted_def intact_simps delivered_logged_def pg_outboxes_def
      pg_empty_def pg_chain_def pg_chain_rows_def)

end
