(* ===== verification/Postgres_Service.thy ===== *)
theory Postgres_Service
  imports Postgres_Correct Tamper_Evidence
begin

text \<open>
  The service on the PostgreSQL repository: what audits report under arbitrary faults, that
  successful answers for one idempotency key agree, that a write succeeds when no call
  fails, what a query returns, and what happens to texts with trailing spaces beyond the
  width of their column.
\<close>

section \<open>Audits and repeated requests under faults\<close>

lemma pg_reachable:
  assumes "pg_env_ok E D" and "genesis_hash D cfg \<noteq> []"
    and "reachable D (pg_model E D) P cfg (service_new pg_empty) st"
  shows "system_inv (pg_inv E D) (pg_model E D) D cfg st"
  using pg_system.reachable_keeps [OF assms(3) pg_system_start [OF assms(1)] assms(2)] by (simp add: keeps_def)

lemma pg_verify_chain:
  assumes inv: "pg_inv E D (ss_repo st)" and root: "rooted D cfg (pg_chain E (ss_repo st))"
    and "int (length (pg_chain E (ss_repo st) t)) \<le> I64_MAX"
  shows "\<exists>r st'. verify_chain D (postgres E D) cfg t None None st = Some (r, st')
    \<and> (r = Inl SvcUnavailable \<or> r = Inr (chain_ok (int (length (pg_chain E (ss_repo st) t)))))"
proof -
  let ?es = "pg_chain E (ss_repo st) t"
  from root have "intact D (genesis_hash D cfg) ?es" by (simp add: rooted_def)
  then have "audit_range D (genesis_hash D cfg) ?es 0 (length ?es) = (chain_ok (int (length ?es)), False)"
    by (simp add: audit_range_def tip_hash_of_simps audit_intact)
  moreover from pg_ledger.verify_chain_range [OF inv refl pg_inv_parts(4) [OF inv] assms(3), of None 0 None "length ?es" D cfg]
  obtain out where "verify_chain D (postgres E D) cfg t None None st = Some out"
    "reports (pg_inv E D) (pg_chain E) False (audit_range D (genesis_hash D cfg) ?es 0 (length ?es)) st out"
    by auto
  ultimately show ?thesis by (auto simp: reports_def)
qed

text \<open>Two successful writes with one key, with any steps in between, give the same answer.\<close>

context ledger_system
begin

lemma write_outcome_of:
  assumes "system_inv inv M D cfg st" and "write_ready D M P cfg env input st" and "genesis_hash D cfg \<noteq> []"
    and "write_entry D (sm_repo M) P cfg env input st = (r, st')"
  shows "write_outcome D P cfg (clip_env clip env) input reliable
    (is_halted cfg (en_check_time env) (we_entry_type input) st) (sm_chain M (ss_repo st))
    (sm_outbox M (ss_repo st)) r (sm_chain M (ss_repo st')) (sm_outbox M (ss_repo st'))"
  using write_entry_outcome [OF _ _ _ assms(3,4)] assms(1,2) by (simp add: system_inv_def write_ready_def unused)

theorem successful_answers_agree:
  assumes sys: "system_inv inv M D cfg st" and g: "genesis_hash D cfg \<noteq> []"
    and "write_ready D M P cfg env input st" and "write_entry D (sm_repo M) P cfg env input st = (Inr out, st1)"
    and "reachable D M P cfg st1 st2"
    and "write_ready D M P cfg env' input' st2" and "write_entry D (sm_repo M) P cfg env' input' st2 = (Inr out', st3)"
    and key: "we_idempotency_key input = Some k" "we_idempotency_key input' = Some k"
      "we_entry_type input' = we_entry_type input"
  shows "\<exists>e. {x \<in> set (sm_chain M (ss_repo st3) (we_entry_type input)). le_idempotency_key x = Some k} = {e}
    \<and> out = output_of_entry D e \<and> out' = out"
proof -
  let ?L = "\<lambda>st. sm_chain M (ss_repo st)" and ?t = "we_entry_type input"
  have s1: "system_inv inv M D cfg st1" using keeps_write [OF sys assms(3) g assms(4)] by (simp add: keeps_def)
  with reachable_keeps [OF assms(5) _ g] have s2: "system_inv inv M D cfg st2" "extends (?L st1) (?L st2)"
    by (simp_all add: keeps_def)
  have s3: "system_inv inv M D cfg st3" "extends (?L st2) (?L st3)"
    using keeps_write [OF s2(1) assms(6) g assms(7)] by (simp_all add: keeps_def)
  obtain e where e: "earlier input (?L st1) e" "out = output_of_entry D e"
    using outcome_recorded [OF write_outcome_of [OF sys assms(3) g assms(4)]] key(1) by auto
  obtain e' where e': "earlier input' (?L st3) e'" "out' = output_of_entry D e'"
    using outcome_recorded [OF write_outcome_of [OF s2(1) assms(6) g assms(7)]] key(2) by auto
  have "extends (?L st1) (?L st3)" using s2(2) s3(2) by (rule extends_trans)
  then obtain es where "?L st3 ?t = ?L st1 ?t @ es" by (auto simp: extends_def)
  with e(1) have here: "e \<in> set (?L st3 ?t)" "le_idempotency_key e = Some k" using key(1) by (auto simp: earlier_def)
  have "ledger_inv D (?L st3)" using s3(1) stored_inv by (simp add: system_inv_def)
  then have same: "x = e" if "x \<in> set (?L st3 ?t)" "le_idempotency_key x = Some k" for x
    using that here unfolding ledger_inv_def by (metis option.distinct(1))
  moreover have "e' \<in> set (?L st3 ?t)" "le_idempotency_key e' = Some k" using e'(1) key by (auto simp: earlier_def)
  ultimately have "e' = e" by blast
  moreover have "{x \<in> set (?L st3 ?t). le_idempotency_key x = Some k} = {e}" using here same by blast
  ultimately show ?thesis using e(2) e'(2) by blast
qed

end

section \<open>Writing when no call fails\<close>

definition pg_quiet :: "pg_env \<Rightarrow> bool" where
  "pg_quiet E \<longleftrightarrow> (\<forall>n. pe_fault E n = No_fault)"

lemma quiet_calls:
  assumes "pg_quiet E"
  shows "pg_call E rest s = rest (pg_calls s) (count_call s)" and "pg_commit E eff ans s = (ans, eff (count_call s))"
  using assms by (simp_all add: pg_call_def pg_commit_def pg_quiet_def)

text \<open>The transaction goes through when the row and the event are acceptable.\<close>

definition event_accepted :: "pg_env \<Rightarrow> third_party \<Rightarrow> uuid_draws \<Rightarrow> entry_write_input \<Rightarrow> i64 \<Rightarrow> bool" where
  "event_accepted E D d input n \<longleftrightarrow>
     (\<exists>payload. pe_json_from_str E (ob_payload (new_outbox D d input n)) = Some payload \<and> pe_jsonb E payload \<noteq> None)"

lemma pg_write_quiet:
  assumes quiet: "pg_quiet E" and inv: "pg_inv E D s" and n: "n = int (length (pg_chain E s (wi_entry_type input))) + 1"
    and link: "link_ok (wi_previous_hash input) (pg_chain E s (wi_entry_type input))"
    and event: "event_accepted E D d input n"
    and row: "row = pg_new_row E D (dr_entry_id d) input n" "\<not> row_error row"
      "unique_violation (pg_entries s) (row_assigned row) = None"
    and fresh: "dr_outbox_id d \<notin> or_outbox_id ` set (pg_outbox s)"
  shows "\<exists>s'. pg_write_entry_with_outbox E D d input s = (Inr (pg_result D d input n), s')
    \<and> pg_entries s' = pg_entries s @ [row_assigned row]"
proof -
  let ?s3 = "count_call (count_call (count_call (count_call s)))"
  have type: "\<not> varchar_error 255 (wi_entry_type input)" using row(1,2) by (simp add: row_error_def pg_new_row_def)
  then have "\<not> bad_text (wi_entry_type input)" by (simp add: varchar_error_def bad_text_def)
  from pg_next [OF pg_inv_ordered [OF inv] this] link n obtain tip where tip:
    "pg_tip_row E k (wi_entry_type input) s = Inr tip" "pg_next_position tip (wi_previous_hash input) = Inr n" for k
    using pg_tip [OF pg_inv_parts(2) [OF inv] \<open>\<not> bad_text (wi_entry_type input)\<close>] by (auto split: if_splits)
  have "pg_tip_row E k (wi_entry_type input) ?s3 = pg_tip_row E k (wi_entry_type input) s" for k
    using same_tables_meaning(4) [of s ?s3] by (simp add: pg_tip_row_def)
  with tip(1) have tip': "pg_tip_row E k (wi_entry_type input) ?s3 = Inr tip" for k by simp
  from event obtain payload payload' where p: "pe_json_from_str E (ob_payload (new_outbox D d input n)) = Some payload"
    "pe_jsonb E payload = Some payload'" by (auto simp: event_accepted_def)
  have ins: "insert_entry (pg_entries s) (pg_new_row E D (dr_entry_id d) input n) = Inr (row_assigned row)"
    using row by (simp add: insert_entry_def)
  have "insert_outbox E (pg_outbox s) (pg_new_outbox_row d input payload (pe_now E (pg_calls (count_call s)))) \<noteq> None"
    using fresh type p(2) by (force simp: insert_outbox_def pg_new_outbox_row_def list_ex_iff)
  then show ?thesis
    using tip' tip(2) p(1) ins
    by (auto simp: pg_write_entry_with_outbox_def quiet_calls [OF quiet] pg_insert_outbox_def pg_finish_def
        pg_result_def split: option.splits)
qed

lemma quiet_tip:
  assumes "pg_quiet E" and "pg_store_inv E s" and "\<not> bad_text t"
  shows "\<exists>s'. pg_get_chain_tip E t s = (if pg_chain E s t = [] then Inl NotFound
      else Inr (entry_chain_tip (last (pg_chain E s t))), s') \<and> same_tables s s'"
proof -
  let ?s = "count_call (count_call s)" and ?up = "sort_key er_chain_position (pg_chain_rows s t)"
  have "?up = [] \<longleftrightarrow> pg_chain_rows s t = []" by (simp flip: set_empty)
  then have last: "pg_chain_rows s t \<noteq> [] \<Longrightarrow> last (pg_chain E s t) = map_row_entry E (last ?up)"
    by (simp add: pg_chain_def last_map)
  have "pg_store_inv E ?s" "pg_chain_rows ?s = pg_chain_rows s"
    using assms(2) same_tables_meaning(3,4) [of s ?s] by simp_all
  with pg_tip [OF _ assms(3), of E ?s] last show ?thesis
    by (auto simp: pg_get_chain_tip_def quiet_calls [OF assms(1)] pg_chain_Nil entry_chain_tip_def map_row_entry_def)
qed

lemma quiet_find:
  assumes "pg_quiet E" and "pg_inv E D s" and "\<not> bad_text t" and "\<not> bad_text k"
  shows "\<exists>s'. pg_find_idempotent E t k s = (Inr (List.find (with_key k) (pg_chain E s t)), s') \<and> same_tables s s'"
proof -
  let ?s = "count_call (count_call s)"
  have "pg_inv E D ?s" "pg_chain E ?s = pg_chain E s" using assms(2) same_tables_meaning [of s ?s] by simp_all
  with pg_key_rows [of E D ?s] assms(3,4) show ?thesis
    by (simp add: pg_find_idempotent_def quiet_calls [OF assms(1)])
qed

lemma not_key_used_find: "\<not> key_used (Some k) es \<longleftrightarrow> List.find (with_key k) es = None"
  by (auto simp: key_used_def list_ex_iff find_None_iff)

text \<open>One attempt is enough when the transaction goes through.\<close>

lemma pg_write_entry_quiet:
  assumes quiet: "pg_quiet E" and inv: "pg_inv E D (ss_repo st)" and "validate_write cfg input = None"
    and "\<not> is_halted cfg (en_check_time env) (we_entry_type input) st" and "cfg_chain_max_retries cfg \<noteq> 0"
    and type: "\<not> bad_text (we_entry_type input)"
    and key: "\<And>k. we_idempotency_key input = Some k \<Longrightarrow> \<not> bad_text k"
      "\<not> key_used (we_idempotency_key input) (pg_chain E (ss_repo st) (we_entry_type input))"
    and ok: "\<And>s. same_tables (ss_repo st) s \<Longrightarrow> \<exists>s'. pg_write_entry_with_outbox E D (en_draws env 0)
      (write_input_at D P cfg env input (pg_chain E (ss_repo st)) 0) s = (Inr res, s') \<and> pg_entries s' = rows"
  shows "\<exists>st'. write_entry D (postgres E D) P cfg env input st = (Inr (output_of_entry D (wr_entry res)), st')
    \<and> pg_entries (ss_repo st') = rows"
proof -
  let ?t = "we_entry_type input" and ?L = "pg_chain E (ss_repo st)"
  let ?w = "write_input_at D P cfg env input ?L 0"
  obtain n where n: "unat (cfg_chain_max_retries cfg) = Suc n"
    using assms(5) by (metis not0_implies_Suc unat_eq_0)
  have go: "\<exists>st'. append_under_lock D (postgres E D) P cfg env input st2 = (Inr (output_of_entry D (wr_entry res)), st')
      \<and> pg_entries (ss_repo st') = rows" if same: "same_tables (ss_repo st) (ss_repo st2)" for st2
  proof -
    let ?st = "chain_lock ?t st2"
    have "pg_store_inv E (ss_repo st2)" "pg_chain E (ss_repo st2) = ?L"
      using inv same_tables_meaning [OF same] pg_inv_parts(2) by auto
    with quiet_tip [OF quiet _ type, of "ss_repo st2"] obtain s3 where s3: "same_tables (ss_repo st2) s3"
      "on_repo (pg_get_chain_tip E ?t) ?st = (if ?L ?t = [] then Inl NotFound else Inr (entry_chain_tip (last (?L ?t))), ?st\<lparr>ss_repo := s3\<rparr>)"
      by (auto simp: on_repo_def)
    have w: "entry_write_input_of P input (tip_hash_of (genesis_hash D cfg) (?L ?t)) (en_now env 0) = ?w"
      by (simp add: write_input_at_def)
    have "same_tables (ss_repo st) s3" using same s3(1) by (simp add: same_tables_def)
    from ok [OF this] obtain s4 where "on_repo (pg_write_entry_with_outbox E D (en_draws env 0) ?w) (?st\<lparr>ss_repo := s3\<rparr>)
        = (Inr res, ?st\<lparr>ss_repo := s4\<rparr>)" "pg_entries s4 = rows" by (auto simp: on_repo_def)
    with s3(2) w show ?thesis
      by (cases "?L ?t = []") (simp_all add: append_under_lock_def n tip_hash_of_def entry_chain_tip_def)
  qed
  obtain st1 where st1: "check_halted cfg (en_check_time env) ?t st = Some st1" "ss_repo st1 = ss_repo st"
    using assms(4) check_halted_state by (force simp: is_halted_def)
  show ?thesis
  proof (cases "we_idempotency_key input")
    case None
    with go [of st1] st1 assms(3) show ?thesis by (auto simp: write_entry_def write_entry_impl_def)
  next
    case (Some k)
    from quiet_find [OF quiet inv type key(1) [OF Some]] key(2) [unfolded Some not_key_used_find]
    obtain s2 where s2: "on_repo (pg_find_idempotent E ?t k) st1 = (Inr None, st1\<lparr>ss_repo := s2\<rparr>)" "same_tables (ss_repo st) s2"
      by (auto simp: on_repo_def st1(2))
    with go [of "st1\<lparr>ss_repo := s2\<rparr>"] st1 assms(3) Some show ?thesis
      by (auto simp: write_entry_def write_entry_impl_def)
  qed
qed

text \<open>A repeated request is answered from the table.\<close>

lemma pg_retry_quiet:
  assumes quiet: "pg_quiet E" and inv: "pg_inv E D (ss_repo st)" and "validate_write cfg input = None"
    and "\<not> is_halted cfg (en_check_time env) (we_entry_type input) st"
    and "\<not> bad_text (we_entry_type input)" and key: "we_idempotency_key input = Some k" "\<not> bad_text k"
    and found: "List.find (with_key k) (pg_chain E (ss_repo st) (we_entry_type input)) = Some e"
      "idempotent_request_matches e input"
  shows "\<exists>st'. write_entry D (postgres E D) P cfg env input st = (Inr (output_of_entry D e), st')"
proof -
  obtain st1 where st1: "check_halted cfg (en_check_time env) (we_entry_type input) st = Some st1" "ss_repo st1 = ss_repo st"
    using assms(4) check_halted_state by (force simp: is_halted_def)
  from quiet_find [OF quiet inv assms(5) key(2)] found(1)
  obtain s2 where "on_repo (pg_find_idempotent E (we_entry_type input) k) st1 = (Inr (Some e), st1\<lparr>ss_repo := s2\<rparr>)"
    by (auto simp: on_repo_def st1(2))
  with st1(1) assms(3) key(1) found(2) show ?thesis by (simp add: write_entry_def write_entry_impl_def)
qed

section \<open>Requests that fit the columns\<close>

definition request_fits :: "write_entry_input \<Rightarrow> bool" where
  "request_fits input \<longleftrightarrow>
     text_fits 255 (we_entry_type input) \<and> text_fits 255 (we_agent_id input)
     \<and> text_fits 100 (we_content_type input) \<and> text_fits 255 (we_source_id input)
     \<and> opt_all (text_fits 255) (we_correlation_id input) \<and> opt_all (text_fits 255) (we_idempotency_key input)
     \<and> opt_all (text_fits 128) (we_input_hash input) \<and> opt_all (text_fits 255) (we_signer_key_reference input)"

lemma opt_fits_varchar: "opt_all (text_fits n) x \<Longrightarrow> opt_all (varchar_kept n) x \<and> \<not> opt_holds (varchar_error n) x"
  by (cases x) (simp_all add: text_fits_varchar)

lemma pg_tip_fits:
  assumes "pg_inv E D s" shows "text_fits 64 (tip_hash_of (genesis_hash D cfg) (pg_chain E s t))"
proof (cases "pg_chain E s t = []")
  case True
  with pg_inv_parts(1) [OF assms] show ?thesis by (simp add: tip_hash_of_def genesis_hash_def pg_env_ok_def)
next
  case False
  from last_in_set [OF this] obtain row where "row \<in> set (pg_entries s)" "last (pg_chain E s t) = map_row_entry E row"
    by (auto simp: set_pg_chain pg_chain_rows_def)
  with assms False show ?thesis by (auto simp: tip_hash_of_def pg_inv_def pg_typed_def entry_row_typed_def)
qed

text \<open>Only the agent id may be too long, by trailing spaces.\<close>

lemma pg_row_accepted:
  assumes "pg_inv E D s" and "request_fits (input\<lparr>we_agent_id := take_chars 255 (we_agent_id input)\<rparr>)"
    and "\<not> varchar_error 255 (we_agent_id input)" and "w = write_input_at D P cfg env input (pg_chain E s) k"
  shows "\<not> row_error (pg_new_row E D i w n)"
    and "row_assigned (pg_new_row E D i w n) =
      (pg_new_row E D i w n)\<lparr>er_agent_id := take_chars 255 (we_agent_id input)\<rparr>"
proof -
  have hash: "text_fits 64 (write_hash D i w n)"
    using pg_inv_parts(1) [OF assms(1)]
    by (simp add: pg_env_ok_def write_hash_def canonical_entry_hash_eq canonical_entry_hash_v3_def)
  note fits = text_fits_varchar [OF hash] text_fits_varchar [OF pg_tip_fits [OF assms(1), of cfg "we_entry_type input"]]
  show "\<not> row_error (pg_new_row E D i w n)"
    using assms(2,3) fits hash_version_kept
    by (auto simp: row_error_def request_fits_def assms(4) pg_new_row_def write_input_at_def entry_write_input_of_def
        opt_fits_varchar text_fits_varchar varchar_kept_take ENTRY_HASH_VERSION_def)
  show "row_assigned (pg_new_row E D i w n) = (pg_new_row E D i w n)\<lparr>er_agent_id := take_chars 255 (we_agent_id input)\<rparr>"
    using assms(2) fits hash_version_kept
    by (simp add: row_assigned_def request_fits_def assms(4) pg_new_row_def write_input_at_def entry_write_input_of_def
        opt_fits_varchar text_fits_varchar varchar_kept_take varchar_kept_opt)
qed

lemma pg_write_entry_accepted:
  assumes quiet: "pg_quiet E" and inv: "pg_inv E D (ss_repo st)"
    and fresh: "all_fresh env (pg_chain E (ss_repo st)) (pg_outboxes D (ss_repo st))"
    and g: "genesis_hash D cfg \<noteq> []" and "validate_write cfg input = None"
    and "\<not> is_halted cfg (en_check_time env) (we_entry_type input) st" and "cfg_chain_max_retries cfg \<noteq> 0"
    and fits: "request_fits (input\<lparr>we_agent_id := take_chars 255 (we_agent_id input)\<rparr>)"
      "\<not> varchar_error 255 (we_agent_id input)"
    and key: "\<not> key_used (we_idempotency_key input) (pg_chain E (ss_repo st) (we_entry_type input))"
    and w: "w = write_input_at D P cfg env input (pg_chain E (ss_repo st)) 0"
    and n: "n = int (length (pg_chain E (ss_repo st) (we_entry_type input))) + 1"
    and event: "event_accepted E D (en_draws env 0) w n"
  shows "\<exists>st'. write_entry D (postgres E D) P cfg env input st =
      (Inr (output_of_entry D (new_entry D (dr_entry_id (en_draws env 0)) w n)), st')
    \<and> pg_entries (ss_repo st') = pg_entries (ss_repo st) @
        [(pg_new_row E D (dr_entry_id (en_draws env 0)) w n)\<lparr>er_agent_id := take_chars 255 (we_agent_id input)\<rparr>]
    \<and> pg_store_inv E (ss_repo st')"
proof -
  let ?d = "en_draws env 0" and ?L = "pg_chain E (ss_repo st)" and ?t = "we_entry_type input"
  let ?row = "pg_new_row E D (dr_entry_id ?d) w n"
  have d: "dr_entry_id ?d \<notin> le_entry_id ` all_entries ?L" "dr_outbox_id ?d \<notin> or_outbox_id ` set (pg_outbox (ss_repo st))"
    using fresh by (simp_all add: all_fresh_def fresh_draws_def pg_outboxes_None)
  have type: "wi_entry_type w = ?t" "wi_idempotency_key w = we_idempotency_key input" by (simp_all add: w)
  note A = pg_row_accepted [OF inv fits w, of "dr_entry_id ?d" n]
  have "unique_violation (pg_entries (ss_repo st)) (row_assigned ?row) = unique_violation (pg_entries (ss_repo st)) ?row"
    by (simp add: A(2) unique_violation_def same_position_def [abs_def] same_key_def [abs_def])
  then have free: "unique_violation (pg_entries (ss_repo st)) (row_assigned ?row) = None"
    using pg_unique_violation [OF inv d(1), of ?row w] key n by (simp add: type)
  have link: "link_ok (wi_previous_hash w) (?L ?t)" using link_ok_tip_hash [OF g] by (simp add: w)
  have run: "\<exists>s'. pg_write_entry_with_outbox E D ?d w s = (Inr (pg_result D ?d w n), s')
      \<and> pg_entries s' = pg_entries (ss_repo st) @ [row_assigned ?row]" if same: "same_tables (ss_repo st) s" for s
  proof -
    note same' = same_tables_meaning [OF same]
    have tables: "pg_entries s = pg_entries (ss_repo st)" "pg_outbox s = pg_outbox (ss_repo st)"
      using same by (simp_all add: same_tables_def)
    from pg_write_quiet [OF quiet _ _ _ event refl A(1), of s] inv n link free d(2)
    show ?thesis by (simp add: same' tables type)
  qed
  have clean: "\<not> bad_text ?t" "\<And>k. we_idempotency_key input = Some k \<Longrightarrow> \<not> bad_text k"
    using fits(1) by (auto simp: request_fits_def text_fits_def bad_text_def)
  have "\<exists>st'. write_entry D (postgres E D) P cfg env input st =
      (Inr (output_of_entry D (wr_entry (pg_result D ?d w n))), st')
    \<and> pg_entries (ss_repo st') = pg_entries (ss_repo st) @ [row_assigned ?row]"
    unfolding w by (rule pg_write_entry_quiet [OF quiet inv assms(5-7) clean key run [unfolded w]])
  then show ?thesis
    using pg_store_inv_append [OF pg_inv_parts(2) [OF inv] free] by (auto simp: pg_result_def A(2))
qed

lemma pg_write_fits:
  assumes "pg_quiet E" and inv: "pg_inv E D (ss_repo st)"
    and "all_fresh env (pg_chain E (ss_repo st)) (pg_outboxes D (ss_repo st))"
    and "genesis_hash D cfg \<noteq> []" and "validate_write cfg input = None"
    and "\<not> is_halted cfg (en_check_time env) (we_entry_type input) st" and "cfg_chain_max_retries cfg \<noteq> 0"
    and fits: "request_fits input" and "\<not> key_used (we_idempotency_key input) (pg_chain E (ss_repo st) (we_entry_type input))"
    and w: "w = write_input_at D P cfg env input (pg_chain E (ss_repo st)) 0"
    and "event_accepted E D (en_draws env 0) w (int (length (pg_chain E (ss_repo st) (we_entry_type input))) + 1)"
    and clock: "timestamp_millis D (pg_clip E (en_now env 0)) = timestamp_millis D (en_now env 0)"
    and e: "e = next_entry D (pg_chain E (ss_repo st)) (en_draws env 0) (clip_input (pg_clip E) w)"
  shows "\<exists>st'. write_entry D (postgres E D) P cfg env input st = (Inr (output_of_entry D e), st')
    \<and> pg_chain E (ss_repo st') = (pg_chain E (ss_repo st))
        (we_entry_type input := pg_chain E (ss_repo st) (we_entry_type input) @ [e])"
proof -
  let ?L = "pg_chain E (ss_repo st)" and ?d = "en_draws env 0"
  let ?n = "int (length (?L (we_entry_type input))) + 1"
  have agent: "text_fits 255 (we_agent_id input)" using fits by (simp add: request_fits_def)
  note A = text_fits_varchar [OF agent]
  have store: "pg_storable E D w"
    using fits clock text_fits_varchar [OF pg_tip_fits [OF inv, of cfg "we_entry_type input"]]
    by (simp add: pg_storable_def request_fits_def w write_input_at_def entry_write_input_of_def text_fits_varchar opt_fits_varchar)
  have now: "timestamp_millis D (pg_clip E (wi_written_ts w)) = timestamp_millis D (wi_written_ts w)"
    using store by (simp add: pg_storable_def)
  have type: "wi_entry_type w = we_entry_type input" "wi_agent_id w = we_agent_id input"
    by (simp_all add: w write_input_at_def entry_write_input_of_def)
  have same: "(pg_new_row E D i w m)\<lparr>er_agent_id := we_agent_id input\<rparr> = pg_new_row E D i w m" for i m
    by (simp add: pg_new_row_def type)
  from pg_write_entry_accepted [OF assms(1-7) _ _ assms(9) w refl assms(11)] A fits
  obtain st' where st': "write_entry D (postgres E D) P cfg env input st =
      (Inr (output_of_entry D (new_entry D (dr_entry_id ?d) w ?n)), st')"
    "pg_entries (ss_repo st') = pg_entries (ss_repo st) @ [pg_new_row E D (dr_entry_id ?d) w ?n]"
    by (auto simp: same)
  have "pg_chain E (ss_repo st') = append_entry D ?L ?d (clip_input (pg_clip E) w)"
    using pg_chain_append [OF inv store] st'(2) by (simp add: type)
  moreover have "output_of_entry D (new_entry D (dr_entry_id ?d) w ?n) = output_of_entry D e"
    using now write_hash_clip(1) [where clip = "pg_clip E", of D w]
    by (simp add: e next_entry_def output_of_entry_def new_entry_def type) (simp add: clip_input_def)
  ultimately show ?thesis using st'(1) by (simp add: append_entry_def e type)
qed

section \<open>Trailing spaces\<close>

lemma commitment_agent: "commitment D a = commitment D b \<Longrightarrow> le_agent_id a = le_agent_id b"
proof -
  have "ch_agent_id (snd (commitment D e)) = le_agent_id e" for e
    by (simp add: commitment_def committed_def committed_v2_def committed_v3_def entry_hash_input_def)
  then show "commitment D a = commitment D b \<Longrightarrow> le_agent_id a = le_agent_id b" by metis
qed

lemma pg_trailing_spaces:
  assumes "pg_quiet E" and inv: "pg_inv E D (ss_repo st)"
    and "all_fresh env (pg_chain E (ss_repo st)) (pg_outboxes D (ss_repo st))"
    and "genesis_hash D cfg \<noteq> []" and "validate_write cfg input = None"
    and "\<not> is_halted cfg (en_check_time env) (we_entry_type input) st" and "cfg_chain_max_retries cfg \<noteq> 0"
    and "request_fits (input\<lparr>we_agent_id := take_chars 255 (we_agent_id input)\<rparr>)"
    and "\<not> varchar_error 255 (we_agent_id input)" and long: "drop_chars 255 (we_agent_id input) \<noteq> []"
    and "\<not> key_used (we_idempotency_key input) (pg_chain E (ss_repo st) (we_entry_type input))"
    and w: "w = write_input_at D P cfg env input (pg_chain E (ss_repo st)) 0"
    and n: "n = int (length (pg_chain E (ss_repo st) (we_entry_type input))) + 1"
    and "event_accepted E D (en_draws env 0) w n" and enc: "encodings_ok D"
    and a: "a = new_entry D (dr_entry_id (en_draws env 0)) w n"
  shows "\<exists>e st'. write_entry D (postgres E D) P cfg env input st = (Inr (output_of_entry D a), st')
    \<and> pg_chain E (ss_repo st') (we_entry_type input) = pg_chain E (ss_repo st) (we_entry_type input) @ [e]
    \<and> le_agent_id e = take_chars 255 (we_agent_id input)
    \<and> (sha256_collision D (preimage D a) (preimage D e) \<or> \<not> hash_ok D e)"
proof -
  let ?t = "we_entry_type input" and ?L = "pg_chain E (ss_repo st)"
  let ?row = "(pg_new_row E D (dr_entry_id (en_draws env 0)) w n)\<lparr>er_agent_id := take_chars 255 (we_agent_id input)\<rparr>"
  let ?e = "map_row_entry E ?row"
  from pg_write_entry_accepted [OF assms(1-9,11) w n assms(14)] obtain st' where
    st': "write_entry D (postgres E D) P cfg env input st = (Inr (output_of_entry D a), st')"
      "pg_entries (ss_repo st') = pg_entries (ss_repo st) @ [?row]" "pg_store_inv E (ss_repo st')"
    unfolding a by blast
  have row: "er_entry_type ?row = ?t" "er_chain_position ?row = n" "er_entry_hash ?row = le_entry_hash a"
    by (simp_all add: pg_new_row_def w a new_entry_def)
  have chain: "pg_chain E (ss_repo st') ?t = ?L ?t @ [?e]"
    using pg_chain_row [OF pg_inv_ordered [OF inv] st'(2), unfolded row, OF n] by simp
  have agents: "le_agent_id ?e = take_chars 255 (we_agent_id input)" "le_agent_id a = we_agent_id input"
    by (simp_all add: map_row_entry_def a new_entry_def w write_input_at_def entry_write_input_of_def)
  have "take_chars 255 (we_agent_id input) \<noteq> we_agent_id input"
    using long take_drop_chars [of 255 "we_agent_id input"] by (metis append_self_conv)
  then have "commitment D a \<noteq> commitment D ?e" using commitment_agent agents by metis
  with equal_hash_commitment [OF enc, of a ?e] have bad: "sha256_collision D (preimage D a) (preimage D ?e) \<or> \<not> hash_ok D ?e"
    by (auto simp: row a)
  with st'(1) chain agents(1) show ?thesis by blast
qed

section \<open>Queries\<close>

text \<open>
  The instant \<open>to_timestamp\<close> gives for a number of seconds up to the year 2106 is the nearest
  microsecond, up to the rounding of the product: at most three quarters of one away.
\<close>

definition instants_ok :: "pg_env \<Rightarrow> bool" where
  "instants_ok E \<longleftrightarrow> (\<forall>x. 0 \<le> x \<longrightarrow> x \<le> 2 ^ 32 \<longrightarrow> \<bar>of_int (pe_to_timestamp E x) - x * 1000000\<bar> \<le> 3 / 4)"

lemma to_timestamp_exact:
  assumes "instants_ok E" and "0 \<le> ts" and "ts < 2 ^ 32 * 1000"
  shows "pe_to_timestamp E (millis_as_seconds ts) = ts * 1000"
proof -
  let ?x = "millis_as_seconds ts"
  note M = millis_as_seconds_error [OF assms(2,3)]
  have "\<bar>of_int (pe_to_timestamp E ?x) - ?x * 1000000\<bar> \<le> 3 / 4"
    using assms(1) M(2,3) by (simp add: instants_ok_def)
  with M(1) have "\<bar>of_int (pe_to_timestamp E ?x - ts * 1000) :: rat\<bar> < 1" by (simp add: abs_if split: if_splits)
  then have "\<bar>pe_to_timestamp E ?x - ts * 1000\<bar> < 1" by (metis of_int_abs of_int_less_1_iff)
  then show ?thesis by simp
qed

text \<open>What a query asks for, on the columns of a row.\<close>

definition row_matches :: "entry_query \<Rightarrow> entry_row \<Rightarrow> bool" where
  "row_matches q row \<longleftrightarrow>
     (\<forall>p. eq_entry_type_prefix q = Some p \<longrightarrow> (\<exists>rest. er_entry_type row = p @ rest))
     \<and> (\<forall>a. eq_agent_id q = Some a \<longrightarrow> er_agent_id row = a)
     \<and> (\<forall>a. eq_source_id q = Some a \<longrightarrow> er_source_id row = a)
     \<and> (\<forall>c. eq_correlation_id q = Some c \<longrightarrow> er_correlation_id row = Some c)
     \<and> (\<forall>ts. eq_from_ts_ms q = Some ts \<longrightarrow> ts * 1000 \<le> er_written_ts row)
     \<and> (\<forall>ts. eq_to_ts_ms q = Some ts \<longrightarrow> er_written_ts row \<le> ts * 1000)"

text \<open>Prefixes without special characters, instants of this century, sizes of a \<open>usize\<close>.\<close>

definition plain_query :: "entry_query \<Rightarrow> bool" where
  "plain_query q \<longleftrightarrow> opt_all like_plain (eq_entry_type_prefix q)
     \<and> opt_all (\<lambda>ts. 0 \<le> ts \<and> ts < 2 ^ 32 * 1000) (eq_from_ts_ms q)
     \<and> opt_all (\<lambda>ts. 0 \<le> ts \<and> ts < 2 ^ 32 * 1000) (eq_to_ts_ms q)
     \<and> eq_limit q < 2 ^ 64 \<and> eq_offset q < 2 ^ 64"

lemma pg_matches_row:
  assumes "instants_ok E" and "plain_query q"
  shows "pg_matches E q row \<longleftrightarrow> row_matches q row"
  using assms(2) to_timestamp_exact [OF assms(1)]
  by (auto simp: pg_matches_def row_matches_def plain_query_def opt_all_def like_prefix split: option.splits)

lemma usize_as_i64_nonneg:
  assumes n: "n < 2 ^ 64" and pos: "0 \<le> usize_as_i64 n"
  shows "nat (usize_as_i64 n) = n"
proof -
  have "int n < 2 ^ 64" using n by (metis of_nat_less_iff of_nat_numeral of_nat_power)
  then have u: "uint (word_of_nat n :: u64) = int n" by (simp add: unsigned_of_nat take_bit_nat_eq_self)
  have "sint (word_of_nat n :: u64) = signed_take_bit 63 (int n)" by (simp add: sint_uint u)
  moreover have "\<not> bit (int n) 63"
    using pos unfolding usize_as_i64_def by (simp add: sint_uint u signed_take_bit_negative_iff flip: not_less)
  then have "signed_take_bit 63 (int n) = take_bit 63 (int n)" by (simp add: signed_take_bit_eq_if_positive)
  moreover have "take_bit 64 (int n) = take_bit 63 (int n)"
    using \<open>\<not> bit (int n) 63\<close> by (simp add: take_bit_Suc_from_most [where n = 63, simplified])
  ultimately show ?thesis using \<open>int n < 2 ^ 64\<close> by (simp add: usize_as_i64_def take_bit_int_eq_self)
qed

text \<open>Whatever a query answers is a page of one sorted list of exactly the matching rows.\<close>

lemma pg_query_page:
  assumes "pg_store_inv E s" and "instants_ok E" and "plain_query q" and "pg_query_entries E q s = (Inr res, s')"
  shows "\<exists>rows. distinct rows \<and> set rows = {row \<in> set (pg_entries s). row_matches q row}
    \<and> sorted (map (\<lambda>row. (er_written_ts row, er_chain_position row)) rows)
    \<and> qr_entries res = map (map_row_entry E) (take (eq_limit q) (drop (eq_offset q) rows))
    \<and> qr_total_count res = int (length rows)"
proof -
  let ?rows = "filter (row_matches q) (pg_entries s)"
  have m: "pg_matches E q = row_matches q" by (rule ext) (rule pg_matches_row [OF assms(2,3)])
  obtain n where n: "qr_entries res = map (map_row_entry E) (take (nat (usize_as_i64 (eq_limit q)))
      (drop (nat (usize_as_i64 (eq_offset q))) (order_by (pe_scan E n)
        (\<lambda>row. (er_written_ts row, er_chain_position row)) ?rows)))"
    "qr_total_count res = int (length ?rows)" "0 \<le> usize_as_i64 (eq_limit q)" "0 \<le> usize_as_i64 (eq_offset q)"
    using assms(4) by (auto simp: pg_query_entries_def pg_call_def Let_def m split: if_splits)
  have "eq_limit q < 2 ^ 64" "eq_offset q < 2 ^ 64" using assms(3) by (simp_all add: plain_query_def)
  with n(3,4) have size: "nat (usize_as_i64 (eq_limit q)) = eq_limit q" "nat (usize_as_i64 (eq_offset q)) = eq_offset q"
    by (simp_all only: usize_as_i64_nonneg)
  let ?sorted = "order_by (pe_scan E n) (\<lambda>row. (er_written_ts row, er_chain_position row)) ?rows"
  have "seed_ok (pe_scan E n)" "distinct ?rows" using pg_rows [OF assms(1)] by simp_all
  then have "distinct ?sorted" "set ?sorted = {row \<in> set (pg_entries s). row_matches q row}" "length ?sorted = length ?rows"
    by (simp_all add: distinct_order_by)
  with n(1,2) size show ?thesis by (intro exI [of _ ?sorted]) simp
qed

text \<open>A prefix with an underscore or a percent sign matches types it is no prefix of.\<close>

lemma like_underscore: "like_match (''agent_v'' @ ''%'') ''agent.v2'' \<and> \<not> (\<exists>rest. ''agent.v2'' = ''agent_v'' @ rest)"
proof -
  have "drop_char ''.v2'' = ''v2''" by (simp add: drop_char_def is_continuation_def)
  then have "like_match ''_v%'' ''.v2''"
    by (simp add: like_match.simps(2) [of "CHR ''_''"] like_match.simps(2) [of "CHR ''v''"] like_percent)
  then have "like_match (''agent'' @ ''_v%'') (''agent'' @ ''.v2'')"
    by (rule like_match_prefix) (simp add: like_plain_def)
  then show ?thesis by simp
qed

end
