(* ===== verification/Postgres_Sample.thy ===== *)
theory Postgres_Sample
  imports Sample Postgres_Service
begin

text \<open>
  A concrete PostgreSQL server for the model to run on: no faults, microseconds computed
  exactly, JSON kept as it is. The request of \<open>Sample\<close> is written to empty tables and
  repeated; a second request has an agent id with a trailing space beyond its column.
\<close>

definition sample_E :: pg_env where
  "sample_E =
     \<lparr>pe_fault = (\<lambda>_. No_fault), pe_scan = (\<lambda>_. sample_seed), pe_now = int,
      pe_ts_to_sql = (\<lambda>t. t * 1000), pe_ts_from_sql = (\<lambda>u. u div 1000),
      pe_to_timestamp = (\<lambda>x. \<lfloor>x * 1000000 + 1 / 2\<rfloor>),
      pe_json_from_str = (\<lambda>_. Some JNull), pe_jsonb = Some, pe_collate = (\<lambda>s. s)\<rparr>"

definition sample_pg_start :: "pg_state service_state" where
  "sample_pg_start = service_new pg_empty"

definition sample_pg_written :: "pg_state service_state" where
  "sample_pg_written =
     snd (write_entry sample_D (postgres sample_E sample_D) sample_publisher sample_cfg sample_env sample_input sample_pg_start)"

section \<open>The server behaves as documented\<close>

lemma hex_digit_char: "n < 16 \<Longrightarrow> hex_digit n \<noteq> CHR 0x00"
proof -
  assume "n < 16"
  then have "hex_digit n \<in> set ''0123456789abcdef''" unfolding hex_digit_def by (intro nth_mem) simp
  then show ?thesis by auto
qed

lemma sample_hash_fits: "text_fits 64 (sha256_hex sample_D bytes)"
proof -
  have "unat b div 16 < 16" "unat b mod 16 < 16" for b :: u8
    using unsigned_less [where 'a = nat, of b] by simp_all
  then have "CHR 0x00 \<notin> set (hex_pair b)" for b
    using hex_digit_char by (auto simp: hex_pair_def dest: sym)
  moreover have "length (hex_pair b) \<le> 64" for b by (simp add: hex_pair_def)
  ultimately show ?thesis
    unfolding text_fits_def by (simp add: drop_chars_length sha256_hex_def sample_D_def)
qed

lemma sample_pg_env: "pg_env_ok sample_E sample_D"
  using sample_hash_fits sample_seed_ok by (simp add: pg_env_ok_def sample_E_def sample_D_def)

lemma sample_quiet: "pg_quiet sample_E"
  by (simp add: pg_quiet_def sample_E_def)

lemma sample_instants: "instants_ok sample_E"
proof -
  have "\<bar>of_int \<lfloor>y + 1 / 2\<rfloor> - y\<bar> \<le> 3 / 4" for y :: rat
    using of_int_floor_le [of "y + 1 / 2"] floor_correct [of "y + 1 / 2"] by (simp add: abs_if) linarith
  then show ?thesis by (simp add: instants_ok_def sample_E_def)
qed

lemma sample_clip: "pg_clip sample_E = (\<lambda>t. t)"
  by (rule ext) (simp add: pg_clip_def sample_E_def)

lemma sample_event: "event_accepted sample_E sample_D d w n"
  by (simp add: event_accepted_def sample_E_def)

section \<open>The first write and its repetition\<close>

lemma short_fits: "length s \<le> n \<Longrightarrow> CHR 0x00 \<notin> set s \<Longrightarrow> text_fits n s"
  by (simp add: text_fits_def drop_chars_length)

lemma sample_request_fits: "request_fits sample_input"
  by (simp add: request_fits_def sample_input_def short_fits)

lemma sample_pg_empty: "pg_chain E (ss_repo sample_pg_start) = (\<lambda>_. [])"
  "pg_outboxes D (ss_repo sample_pg_start) = (\<lambda>_. None)"
  by (simp_all add: fun_eq_iff sample_pg_start_def service_new_def pg_empty_def pg_chain_def pg_chain_rows_def pg_outboxes_def)

lemma sample_pg_fresh: "all_fresh env (pg_chain E (ss_repo sample_pg_start)) (pg_outboxes D (ss_repo sample_pg_start))"
  unfolding sample_pg_empty by (simp add: all_fresh_def fresh_draws_def all_entries_def)

lemma sample_pg_not_halted: "\<not> is_halted cfg now t sample_pg_start"
  by (simp add: is_halted_def check_halted_def sample_pg_start_def service_new_def)

lemma sample_pg_start_inv: "pg_inv sample_E sample_D (ss_repo sample_pg_start)"
  using pg_inv_empty [OF sample_pg_env] by (simp add: sample_pg_start_def service_new_def)

lemma clip_input_id: "clip_input (\<lambda>t. t) w = w"
  by (simp add: clip_input_def)

lemma sample_pg_write:
  "write_entry sample_D (postgres sample_E sample_D) sample_publisher sample_cfg sample_env sample_input sample_pg_start
     = (Inr (output_of_entry sample_D sample_entry), sample_pg_written)"
  and sample_pg_chain: "pg_chain sample_E (ss_repo sample_pg_written) =
     (\<lambda>t. if t = ''agent.decision'' then [sample_entry] else [])"
proof -
  have c: "cfg_chain_max_retries sample_cfg \<noteq> 0" "\<not> key_used k []" for k
    by (simp_all add: sample_cfg_def key_used_def split: option.splits)
  have "we_entry_type sample_input = ''agent.decision''" by (simp add: sample_input_def)
  with pg_write_fits [OF sample_quiet sample_pg_start_inv sample_pg_fresh sample_genesis sample_valid
      sample_pg_not_halted c(1) sample_request_fits _ refl sample_event _ refl, where env = sample_env and P = sample_publisher] c(2)
  obtain st where "write_entry sample_D (postgres sample_E sample_D) sample_publisher sample_cfg sample_env
      sample_input sample_pg_start = (Inr (output_of_entry sample_D sample_entry), st)"
    "pg_chain sample_E (ss_repo st) = (\<lambda>t. if t = ''agent.decision'' then [sample_entry] else [])"
    by (auto simp: sample_pg_empty sample_clip clip_input_id fun_upd_def)
  then show "write_entry sample_D (postgres sample_E sample_D) sample_publisher sample_cfg sample_env sample_input sample_pg_start
     = (Inr (output_of_entry sample_D sample_entry), sample_pg_written)"
    and "pg_chain sample_E (ss_repo sample_pg_written) = (\<lambda>t. if t = ''agent.decision'' then [sample_entry] else [])"
    by (simp_all add: sample_pg_written_def)
qed

lemma sample_storable:
  assumes "pg_inv sample_E sample_D s"
  shows "all_storable (pg_storable sample_E sample_D) sample_D P cfg env sample_input (pg_chain sample_E s)"
  using text_fits_varchar [OF pg_tip_fits [OF assms]] sample_request_fits
  by (simp add: all_storable_def pg_storable_def sample_clip write_input_at_def entry_write_input_of_def
      request_fits_def text_fits_varchar opt_fits_varchar)

lemma sample_pg_ready: "write_ready sample_D (pg_model sample_E sample_D) P cfg env sample_input sample_pg_start"
  by (simp add: write_ready_def sample_pg_fresh sample_storable sample_pg_start_inv)

lemma sample_pg_reachable: "reachable sample_D (pg_model sample_E sample_D) sample_publisher sample_cfg
    (service_new pg_empty) sample_pg_written"
  by (rule reachable.later [OF reachable.here service_step.writes [of _ _ _ _ sample_env sample_input]])
    (simp_all add: sample_pg_ready sample_pg_write flip: sample_pg_start_def)

lemma sample_pg_inv: "pg_inv sample_E sample_D (ss_repo sample_pg_written)"
  using pg_reachable [OF sample_pg_env sample_genesis sample_pg_reachable] by (simp add: system_inv_def)

text \<open>The event of the entry.\<close>

definition sample_pg_event :: outbox_record where
  "sample_pg_event = next_outbox sample_D (\<lambda>_. []) (en_draws sample_env 0)
     (write_input_at sample_D sample_publisher sample_cfg sample_env sample_input (\<lambda>_. []) 0)"

lemma sample_pg_outbox: "pg_outboxes sample_D (ss_repo sample_pg_written) = [2 \<mapsto> sample_pg_event]"
proof -
  have "system_inv (pg_inv sample_E sample_D) (pg_model sample_E sample_D) sample_D sample_cfg sample_pg_start"
    using pg_system_start [OF sample_pg_env] by (simp add: sample_pg_start_def)
  from outcome_unchanged_or_appended [OF pg_system.write_outcome_of [OF this sample_pg_ready sample_genesis,
        where env = sample_env and P = sample_publisher, simplified, OF sample_pg_write]]
  have "appended sample_D sample_publisher sample_cfg (clip_env (pg_clip sample_E) sample_env) sample_input 0
      (\<lambda>_. []) (pg_outboxes sample_D (ss_repo sample_pg_start)) (pg_chain sample_E (ss_repo sample_pg_written))
      (pg_outboxes sample_D (ss_repo sample_pg_written))"
    by (auto simp: sample_pg_empty sample_pg_chain fun_eq_iff split: if_splits)
  moreover have "clip_env (pg_clip sample_E) sample_env = sample_env" by (simp add: clip_env_def sample_clip)
  moreover have "pg_outboxes sample_D (ss_repo sample_pg_start) = (\<lambda>_. None)"
    by (simp add: fun_eq_iff pg_outboxes_def sample_pg_start_def service_new_def pg_empty_def)
  ultimately show ?thesis
    by (simp add: appended_def append_outbox_def sample_pg_event_def)
      (simp add: write_input_at_def entry_write_input_of_def sample_publisher_def sample_env_def)
qed

lemma sample_pg_event_simps [simp]:
  "ob_outbox_id sample_pg_event = 2" "ob_status sample_pg_event = Pending" "ob_attempt_count sample_pg_event = 0"
  by (simp_all add: sample_pg_event_def next_outbox_def new_outbox_def sample_env_def)

lemma sample_pg_retry_ready:
  "write_ready sample_D (pg_model sample_E sample_D) P cfg sample_retry_env sample_input sample_pg_written"
proof -
  have "all_entries (pg_chain sample_E (ss_repo sample_pg_written)) = {sample_entry}"
    by (auto simp: all_entries_def sample_pg_chain split: if_splits)
  then show ?thesis
    using sample_storable [OF sample_pg_inv] sample_retry_draws
    by (simp add: write_ready_def all_fresh_def fresh_draws_def sample_env_def sample_pg_outbox)
qed

lemma sample_pg_repeat:
  assumes "ss_repo st = ss_repo sample_pg_written" and "ss_chain_halted st ''agent.decision'' = None"
  shows "\<exists>st'. write_entry sample_D (postgres sample_E sample_D) sample_publisher sample_cfg
    sample_retry_env sample_input st = (Inr (output_of_entry sample_D sample_entry), st')"
proof -
  have t: "we_entry_type sample_input = ''agent.decision''" by (simp add: sample_input_def)
  have "\<not> is_halted sample_cfg (en_check_time sample_retry_env) (we_entry_type sample_input) st"
    using assms(2) by (simp add: is_halted_def check_halted_def t)
  moreover have "\<not> bad_text (we_entry_type sample_input)" "\<not> bad_text ''k1''" "we_idempotency_key sample_input = Some ''k1''"
    by (simp_all add: sample_input_def bad_text_def)
  moreover have "List.find (with_key ''k1'') (pg_chain sample_E (ss_repo st) (we_entry_type sample_input)) = Some sample_entry"
    by (simp add: assms(1) sample_pg_chain with_key_def) (simp add: sample_input_def)
  moreover have "pg_inv sample_E sample_D (ss_repo st)" by (simp add: assms(1) sample_pg_inv)
  ultimately show ?thesis
    using pg_retry_quiet [OF sample_quiet _ sample_valid] idempotent_matches_new by blast
qed

lemma sample_pg_unhalted: "ss_chain_halted sample_pg_written t = None"
  using write_entry_keeps_unhalted [OF sample_pg_write] by (simp add: sample_pg_start_def service_new_def)

lemmas sample_pg_retry = sample_pg_repeat [OF refl sample_pg_unhalted]

section \<open>A trailing space\<close>

definition full_width :: string where
  "full_width = replicate 255 (CHR ''a'')"

definition spaced_input :: write_entry_input where
  "spaced_input = sample_input\<lparr>we_agent_id := full_width @ '' ''\<rparr>"

lemma chars_replicate:
  assumes "\<not> is_continuation c"
  shows "take_chars n (replicate n c @ s) = replicate n c @ take_chars 0 s"
    and "drop_chars n (replicate n c @ s) = drop_chars 0 s"
  by (induction n) (simp_all add: assms)

lemma full_width_chars:
  "take_chars 255 (full_width @ '' '') = full_width" "drop_chars 255 (full_width @ '' '') = '' ''"
proof -
  have c: "\<not> is_continuation (CHR ''a'')" "\<not> is_continuation (CHR '' '')" by (simp_all add: is_continuation_def)
  have "take_chars 0 '' '' = []" "drop_chars 0 '' '' = '' ''" by (simp_all add: c(2))
  then show "take_chars 255 (full_width @ '' '') = full_width" "drop_chars 255 (full_width @ '' '') = '' ''"
    unfolding full_width_def by (simp_all only: chars_replicate [OF c(1)] append_Nil2)
qed

lemma full_width_fits: "text_fits 255 full_width"
proof (rule short_fits)
  show "length full_width \<le> 255" unfolding full_width_def length_replicate ..
  show "CHR 0x00 \<notin> set full_width" unfolding full_width_def set_replicate_conv_if by simp
qed

lemma spaced_fits:
  "request_fits (spaced_input\<lparr>we_agent_id := take_chars 255 (we_agent_id spaced_input)\<rparr>)"
  "\<not> varchar_error 255 (we_agent_id spaced_input)" "drop_chars 255 (we_agent_id spaced_input) = '' ''"
  using sample_request_fits full_width_fits
  by (simp_all add: spaced_input_def full_width_chars varchar_error_def request_fits_def text_fits_def)

lemma spaced_input_simps:
  "validate_write sample_cfg spaced_input = None" "we_entry_type spaced_input = ''agent.decision''"
  by (simp_all add: validate_write_def sample_cfg_def sample_input_def spaced_input_def)


section \<open>Tables to query\<close>

definition sample_row :: "uuid \<Rightarrow> string \<Rightarrow> int \<Rightarrow> entry_row" where
  "sample_row i t ts =
     \<lparr>er_entry_id = i, er_entry_type = t, er_agent_id = ''agent-1'', er_content = [], er_content_type = ''text'',
      er_source_id = ''unit'', er_correlation_id = None, er_idempotency_key = None, er_input_hash = None,
      er_writer_signature = None, er_signer_key_reference = None, er_attestation_report = None,
      er_hash_version = ENTRY_HASH_VERSION, er_entry_hash = ''h'', er_previous_hash = ''p'',
      er_chain_position = 1, er_written_ts = ts\<rparr>"

definition sample_table :: pg_state where
  "sample_table = \<lparr>pg_entries = [sample_row 1 ''agent.decision'' 5000000, sample_row 2 ''audit'' 6000000,
     sample_row 3 ''agent.note'' 4000000], pg_outbox = [], pg_calls = 0\<rparr>"

definition sample_entry_query :: entry_query where
  "sample_entry_query =
     \<lparr>eq_entry_type_prefix = Some ''agent.'', eq_agent_id = Some ''agent-1'', eq_source_id = None,
      eq_correlation_id = None, eq_from_ts_ms = Some 4000, eq_to_ts_ms = Some 5000, eq_limit = 10, eq_offset = 0\<rparr>"

lemma sample_table_inv: "pg_store_inv sample_E sample_table"
  by (simp add: pg_store_inv_def sample_E_def sample_seed_ok sample_table_def sample_row_def position_key_def)

lemma sample_query_plain: "plain_query sample_entry_query"
  by (simp add: plain_query_def sample_entry_query_def like_plain_def)

lemma sample_query_runs: "\<exists>res s'. pg_query_entries sample_E sample_entry_query sample_table = (Inr res, s')"
proof -
  have "\<not> bad_query sample_entry_query" by (simp add: bad_query_def sample_entry_query_def bad_text_def)
  moreover have "\<not> usize_as_i64 (eq_limit sample_entry_query) < 0" "\<not> usize_as_i64 (eq_offset sample_entry_query) < 0"
    by (simp_all add: sample_entry_query_def usize_as_i64_def)
  ultimately show ?thesis by (simp add: pg_query_entries_def quiet_calls [OF sample_quiet] Let_def)
qed

end
