(* ===== verification/Writers.thy ===== *)
theory Writers
  imports Ledger_System
begin

text \<open>
  Concurrent writers. \<open>write_entry\<close> of \<open>Service\<close> runs a request to its end in one step;
  here the same request is a sequence of small steps, one per access to shared state: the
  halt table, the lock table, the lock of the chain, and each call to the repository. Any
  number of requests run interleaved, in any number of processes that share one repository:
  every process has its own halt table, lock table and locks (\<open>ImmutableLedgerService\<close> is
  one per process), the repository is common.
\<close>

section \<open>One request in small steps\<close>

text \<open>
  Where a request stands. \<open>Reading k\<close> is the head of the retry loop before attempt \<open>k\<close>;
  \<open>Appending k h\<close> has read the tip and carries the previous hash.
\<close>

datatype phase =
    Checking
  | Unhalting
  | Looking
  | Registering
  | Waiting
  | Reading nat
  | Appending nat string
  | Resolving
  | Halting
  | Returning "service_error + write_entry_output"
  | Finished "service_error + write_entry_output"

definition after_check :: "write_entry_input \<Rightarrow> phase" where
  "after_check input = (case we_idempotency_key input of None \<Rightarrow> Registering | Some _ \<Rightarrow> Looking)"

text \<open>The read of the halt table and the removal of an expired halt are two accesses.\<close>

definition step_check ::
    "app_config \<Rightarrow> write_env \<Rightarrow> write_entry_input \<Rightarrow> 's service_state \<Rightarrow> phase" where
  "step_check cfg env input st =
     (case validate_write cfg input of
        Some err \<Rightarrow> Returning (Inl err)
      | None \<Rightarrow>
          (case ss_chain_halted st (we_entry_type input) of
             None \<Rightarrow> after_check input
           | Some halted_at \<Rightarrow>
               if en_check_time env - halted_at < cfg_chain_halt_recovery_seconds cfg * 1000000000
               then Returning (Inl SvcUnavailable) else Unhalting))"

definition step_look ::
    "third_party \<Rightarrow> 's ledger_repository \<Rightarrow> write_entry_input \<Rightarrow> 's service_state \<Rightarrow> phase \<times> 's service_state" where
  "step_look D R input st =
     (case we_idempotency_key input of
        None \<Rightarrow> (Registering, st)
      | Some key \<Rightarrow>
          (case on_repo (repo_find_idempotent R (we_entry_type input) key) st of
             (Inl err, st') \<Rightarrow> (Returning (Inl (map_repo err)), st')
           | (Inr (Some existing), st') \<Rightarrow>
               (Returning (if \<not> idempotent_request_matches existing input
                           then Inl (AlreadyExists idempotency_conflict_message)
                           else Inr (output_of_entry D existing)), st')
           | (Inr None, st') \<Rightarrow> (Registering, st')))"

definition step_read ::
    "third_party \<Rightarrow> 's ledger_repository \<Rightarrow> app_config \<Rightarrow> write_entry_input \<Rightarrow> nat \<Rightarrow> 's service_state \<Rightarrow>
     phase \<times> 's service_state" where
  "step_read D R cfg input attempt st =
     (if attempt < unat (cfg_chain_max_retries cfg)
      then (case on_repo (repo_get_chain_tip R (we_entry_type input)) st of
              (Inr tip, st') \<Rightarrow> (Appending attempt (tip_hash tip), st')
            | (Inl NotFound, st') \<Rightarrow> (Appending attempt (genesis_hash D cfg), st')
            | (Inl err, st') \<Rightarrow> (Returning (Inl (map_repo err)), st'))
      else (Returning (Inl (Internal ''chain integrity violation'')), st))"

definition step_append ::
    "third_party \<Rightarrow> 's ledger_repository \<Rightarrow> publisher \<Rightarrow> app_config \<Rightarrow> write_env \<Rightarrow> write_entry_input \<Rightarrow>
     nat \<Rightarrow> string \<Rightarrow> 's service_state \<Rightarrow> phase \<times> 's service_state" where
  "step_append D R P cfg env input attempt previous_hash st =
     (case on_repo (repo_write_entry_with_outbox R (en_draws env attempt)
             (entry_write_input_of P input previous_hash (en_now env attempt))) st of
        (Inr result, st') \<Rightarrow>
          (Returning (Inr (output_of_entry D (wr_entry result))),
           st'\<lparr>ss_metrics := (ss_metrics st')
             \<lparr>m_chain_integrity_retries := m_chain_integrity_retries (ss_metrics st') @ [attempt]\<rparr>\<rparr>)
      | (Inl ChainIntegrityViolation, st') \<Rightarrow>
          if attempt + 1 < unat (cfg_chain_max_retries cfg)
          then (Reading (attempt + 1), sleep (retry_backoff attempt) st')
          else (Halting, st')
      | (Inl IdempotencyConflict, st') \<Rightarrow>
          (case we_idempotency_key input of
             None \<Rightarrow> (Returning (Inl (AlreadyExists idempotency_conflict_message)), st')
           | Some _ \<Rightarrow> (Resolving, st'))
      | (Inl err, st') \<Rightarrow> (Returning (Inl (map_repo err)), st'))"

definition task_step ::
    "third_party \<Rightarrow> 's ledger_repository \<Rightarrow> publisher \<Rightarrow> app_config \<Rightarrow> write_env \<Rightarrow> write_entry_input \<Rightarrow>
     phase \<Rightarrow> 's service_state \<Rightarrow> phase \<times> 's service_state" where
  "task_step D R P cfg env input ph st =
     (case ph of
        Checking \<Rightarrow> (step_check cfg env input st, st)
      | Unhalting \<Rightarrow>
          (after_check input, st\<lparr>ss_chain_halted := (ss_chain_halted st)(we_entry_type input := None)\<rparr>)
      | Looking \<Rightarrow> step_look D R input st
      | Registering \<Rightarrow> (Waiting, chain_lock (we_entry_type input) st)
      | Waiting \<Rightarrow> (Reading 0, st)
      | Reading attempt \<Rightarrow> step_read D R cfg input attempt st
      | Appending attempt previous_hash \<Rightarrow> step_append D R P cfg env input attempt previous_hash st
      | Resolving \<Rightarrow> (case resolve_conflict D R input st of (r, st') \<Rightarrow> (Returning r, st'))
      | Halting \<Rightarrow>
          (Returning (Inl (Internal ''chain integrity violation'')),
           st\<lparr>ss_chain_halted := (ss_chain_halted st)(we_entry_type input \<mapsto> en_halt_time env)\<rparr>)
      | Returning r \<Rightarrow> (Finished r, st\<lparr>ss_metrics := inc_write (write_label r) (ss_metrics st)\<rparr>)
      | Finished r \<Rightarrow> (Finished r, st))"

lemma task_step_simps [simp]:
  "task_step D R P cfg env input Checking st = (step_check cfg env input st, st)"
  "task_step D R P cfg env input Unhalting st =
     (after_check input, st\<lparr>ss_chain_halted := (ss_chain_halted st)(we_entry_type input := None)\<rparr>)"
  "task_step D R P cfg env input Looking st = step_look D R input st"
  "task_step D R P cfg env input Registering st = (Waiting, chain_lock (we_entry_type input) st)"
  "task_step D R P cfg env input Waiting st = (Reading 0, st)"
  "task_step D R P cfg env input (Reading k) st = step_read D R cfg input k st"
  "task_step D R P cfg env input (Appending k h) st = step_append D R P cfg env input k h st"
  "task_step D R P cfg env input Resolving st = map_prod Returning id (resolve_conflict D R input st)"
  "task_step D R P cfg env input Halting st =
     (Returning (Inl (Internal ''chain integrity violation'')),
      st\<lparr>ss_chain_halted := (ss_chain_halted st)(we_entry_type input \<mapsto> en_halt_time env)\<rparr>)"
  "task_step D R P cfg env input (Returning r) st =
     (Finished r, st\<lparr>ss_metrics := inc_write (write_label r) (ss_metrics st)\<rparr>)"
  "task_step D R P cfg env input (Finished r) st = (Finished r, st)"
  by (simp_all add: task_step_def split: prod.splits)

section \<open>Processes, locks and interleaving\<close>

text \<open>The guard of the chain's lock lives from the end of the wait to the return.\<close>

fun holds :: "phase \<Rightarrow> bool" where
  "holds (Reading _) = True"
| "holds (Appending _ _) = True"
| "holds Resolving = True"
| "holds Halting = True"
| "holds _ = False"

record task =
  tk_proc :: nat
  tk_input :: write_entry_input
  tk_env :: write_env

abbreviation tk_chain :: "task \<Rightarrow> string" where
  "tk_chain t \<equiv> we_entry_type (tk_input t)"

text \<open>
  The state of the repository, of every process (whose own \<open>ss_repo\<close> plays no role), of
  every lock (which request holds the lock of a chain in a process) and of every request.
\<close>

record 's cluster =
  cl_repo :: 's
  cl_proc :: "nat \<Rightarrow> 's service_state"
  cl_locked :: "nat \<Rightarrow> string \<Rightarrow> nat option"
  cl_phase :: "nat \<Rightarrow> phase"

definition view :: "'s cluster \<Rightarrow> nat \<Rightarrow> 's service_state" where
  "view c p = (cl_proc c p)\<lparr>ss_repo := cl_repo c\<rparr>"

definition put :: "nat \<Rightarrow> 's service_state \<Rightarrow> 's cluster \<Rightarrow> 's cluster" where
  "put p st c = c\<lparr>cl_repo := ss_repo st, cl_proc := (cl_proc c)(p := st)\<rparr>"

text \<open>A request can move unless it is done or waits for a lock that is taken.\<close>

definition enabled :: "(nat \<Rightarrow> task) \<Rightarrow> nat \<Rightarrow> 's cluster \<Rightarrow> bool" where
  "enabled ts i c \<longleftrightarrow>
     (case cl_phase c i of
        Finished _ \<Rightarrow> False
      | Waiting \<Rightarrow> cl_locked c (tk_proc (ts i)) (tk_chain (ts i)) = None
      | _ \<Rightarrow> True)"

definition lock_after :: "nat \<Rightarrow> phase \<Rightarrow> phase \<Rightarrow> nat option \<Rightarrow> nat option" where
  "lock_after i ph ph' lock =
     (if holds ph' \<and> \<not> holds ph then Some i else if holds ph \<and> \<not> holds ph' then None else lock)"

definition advance ::
    "third_party \<Rightarrow> 's ledger_repository \<Rightarrow> publisher \<Rightarrow> app_config \<Rightarrow> (nat \<Rightarrow> task) \<Rightarrow> nat \<Rightarrow> 's cluster \<Rightarrow> 's cluster" where
  "advance D R P cfg ts i c =
     (let p = tk_proc (ts i); t = tk_chain (ts i)
      in case task_step D R P cfg (tk_env (ts i)) (tk_input (ts i)) (cl_phase c i) (view c p) of
           (ph, st) \<Rightarrow>
             (put p st c)
               \<lparr>cl_locked := (cl_locked c)(p := (cl_locked c p)
                  (t := lock_after i (cl_phase c i) ph (cl_locked c p t))),
                cl_phase := (cl_phase c)(i := ph)\<rparr>)"

text \<open>
  What the model assumes of an append, as in \<open>write_ready\<close>: unused UUIDs and an input the
  repository can keep; nothing for a model that takes every run.
\<close>

definition task_ready :: "'s store_model \<Rightarrow> publisher \<Rightarrow> task \<Rightarrow> phase \<Rightarrow> 's \<Rightarrow> bool" where
  "task_ready M P t ph s \<longleftrightarrow>
     (case ph of
        Appending k h \<Rightarrow>
          (sm_unused M \<longrightarrow> fresh_draws (sm_chain M s) (sm_outbox M s) (en_draws (tk_env t) k))
          \<and> sm_storable M (entry_write_input_of P (tk_input t) h (en_now (tk_env t) k))
      | _ \<Rightarrow> True)"

inductive cluster_step ::
    "third_party \<Rightarrow> 's store_model \<Rightarrow> publisher \<Rightarrow> app_config \<Rightarrow> (nat \<Rightarrow> task) \<Rightarrow> 's cluster \<Rightarrow> 's cluster \<Rightarrow> bool"
  for D M P cfg ts where
  request: "enabled ts i c \<Longrightarrow> task_ready M P (ts i) (cl_phase c i) (cl_repo c) \<Longrightarrow>
    cluster_step D M P cfg ts c (advance D (sm_repo M) P cfg ts i c)"
| background: "background_step D M P cfg (view c p) st \<Longrightarrow> cluster_step D M P cfg ts c (put p st c)"

inductive cluster_reachable ::
    "third_party \<Rightarrow> 's store_model \<Rightarrow> publisher \<Rightarrow> app_config \<Rightarrow> (nat \<Rightarrow> task) \<Rightarrow> 's cluster \<Rightarrow> 's cluster \<Rightarrow> bool"
  for D M P cfg ts where
  start: "cluster_reachable D M P cfg ts c c"
| more: "cluster_reachable D M P cfg ts c c' \<Longrightarrow> cluster_step D M P cfg ts c' c'' \<Longrightarrow>
    cluster_reachable D M P cfg ts c c''"

text \<open>Before any request: fresh processes, free locks.\<close>

definition cluster_new :: "'s \<Rightarrow> 's cluster" where
  "cluster_new s = \<lparr>cl_repo = s, cl_proc = (\<lambda>_. service_new s), cl_locked = (\<lambda>_ _. None), cl_phase = (\<lambda>_. Checking)\<rparr>"

section \<open>Structure of the steps\<close>

lemma view_put [simp]: "view (put p st c) p = st" "view (c\<lparr>cl_locked := l\<rparr>) p = view c p"
  "view (c\<lparr>cl_phase := f\<rparr>) p = view c p"
  by (simp_all add: view_def put_def)

lemma ss_repo_view [simp]: "ss_repo (view c p) = cl_repo c"
  by (simp add: view_def)

lemma put_simps [simp]: "cl_repo (put p st c) = ss_repo st" "cl_locked (put p st c) = cl_locked c"
  "cl_phase (put p st c) = cl_phase c"
  by (simp_all add: put_def)

lemma advance_simps:
  assumes "task_step D R P cfg (tk_env (ts i)) (tk_input (ts i)) (cl_phase c i) (view c (tk_proc (ts i))) = (ph, st)"
  shows "cl_repo (advance D R P cfg ts i c) = ss_repo st"
    and "cl_phase (advance D R P cfg ts i c) = (cl_phase c)(i := ph)"
    and "view (advance D R P cfg ts i c) (tk_proc (ts i)) = st"
    and "cl_locked (advance D R P cfg ts i c) = (cl_locked c)(tk_proc (ts i) := (cl_locked c (tk_proc (ts i)))
      (tk_chain (ts i) := lock_after i (cl_phase c i) ph (cl_locked c (tk_proc (ts i)) (tk_chain (ts i)))))"
  using assms by (simp_all add: advance_def Let_def)

text \<open>The lock is taken only at the end of a wait.\<close>

lemma takes_lock:
  assumes "task_step D R P cfg env input ph st = (ph', st')" and "holds ph'" and "\<not> holds ph"
  shows "ph = Waiting"
  using assms by (cases ph) (auto simp: step_check_def after_check_def step_look_def
      split: option.splits if_splits sum.splits prod.splits)

lemma appends_after_read:
  assumes "task_step D R P cfg env input ph st = (Appending k h, st')"
  shows "\<exists>j. ph = Reading j"
  using assms by (cases ph; cases "resolve_conflict D R input st") (auto simp: step_check_def after_check_def step_look_def step_append_def
      split: option.splits if_splits sum.splits prod.splits repository_error.splits)

section \<open>Every request ends\<close>

text \<open>The number of steps a request can still take.\<close>

fun rank :: "nat \<Rightarrow> phase \<Rightarrow> nat" where
  "rank m Checking = 2 * m + 9"
| "rank m Unhalting = 2 * m + 8"
| "rank m Looking = 2 * m + 7"
| "rank m Registering = 2 * m + 6"
| "rank m Waiting = 2 * m + 5"
| "rank m (Reading k) = 2 * (m - k) + 4"
| "rank m (Appending k _) = 2 * (m - k) + 3"
| "rank m Resolving = 2"
| "rank m Halting = 2"
| "rank m (Returning _) = 1"
| "rank m (Finished _) = 0"

lemma rank_decreases:
  assumes "task_step D R P cfg env input ph st = (ph', st')" and "\<forall>r. ph \<noteq> Finished r"
  shows "rank (unat (cfg_chain_max_retries cfg)) ph' < rank (unat (cfg_chain_max_retries cfg)) ph"
  using assms by (cases ph; cases "resolve_conflict D R input st")
    (auto simp: step_check_def after_check_def step_look_def step_read_def step_append_def
      split: option.splits if_splits sum.splits prod.splits repository_error.splits)

lemma enabled_decreases:
  assumes "enabled ts i c"
  shows "rank (unat (cfg_chain_max_retries cfg)) (cl_phase (advance D R P cfg ts i c) i)
    < rank (unat (cfg_chain_max_retries cfg)) (cl_phase c i)"
proof -
  obtain ph st where s: "task_step D R P cfg (tk_env (ts i)) (tk_input (ts i)) (cl_phase c i) (view c (tk_proc (ts i))) = (ph, st)"
    by fastforce
  have "\<forall>r. cl_phase c i \<noteq> Finished r" using assms by (auto simp: enabled_def)
  from rank_decreases [OF s this] show ?thesis
    by (simp add: advance_simps [where ts = ts and i = i and c = c, OF s])
qed

section \<open>Locks exclude\<close>

definition lock_inv :: "(nat \<Rightarrow> task) \<Rightarrow> 's cluster \<Rightarrow> bool" where
  "lock_inv ts c \<longleftrightarrow>
     (\<forall>i. holds (cl_phase c i) \<longrightarrow> cl_locked c (tk_proc (ts i)) (tk_chain (ts i)) = Some i)
     \<and> (\<forall>p t i. cl_locked c p t = Some i \<longrightarrow> holds (cl_phase c i) \<and> tk_proc (ts i) = p \<and> tk_chain (ts i) = t)"

lemma lock_inv_new: "lock_inv ts (cluster_new s)"
  by (simp add: lock_inv_def cluster_new_def)

lemma lock_inv_advance:
  assumes inv: "lock_inv ts c" and en: "enabled ts i c"
  shows "lock_inv ts (advance D R P cfg ts i c)"
proof -
  let ?p = "tk_proc (ts i)" and ?t = "tk_chain (ts i)" and ?ph = "cl_phase c i"
  obtain ph st where s: "task_step D R P cfg (tk_env (ts i)) (tk_input (ts i)) ?ph (view c ?p) = (ph, st)" by fastforce
  have take: "cl_locked c ?p ?t = None" if "holds ph" "\<not> holds ?ph"
    using en takes_lock [OF s that] by (simp add: enabled_def)
  let ?lock = "lock_after i ?ph ph (cl_locked c ?p ?t)"
  have own: "cl_locked c (tk_proc (ts j)) (tk_chain (ts j)) = Some j" if "holds (cl_phase c j)" for j
    using inv that by (simp add: lock_inv_def)
  have held: "holds (cl_phase c j) \<and> tk_proc (ts j) = p \<and> tk_chain (ts j) = t" if "cl_locked c p t = Some j" for p t j
    using inv that by (simp add: lock_inv_def)
  have mine: "?lock = Some i" if "holds ph" using own [of i] that by (simp add: lock_after_def)
  have other: "?lock = Some j" if "j \<noteq> i" "cl_locked c ?p ?t = Some j" for j
    using that own [of i] take by (auto simp: lock_after_def)
  have taken: "j = i \<and> holds ph \<or> j \<noteq> i \<and> cl_locked c ?p ?t = Some j" if "?lock = Some j" for j
    using that held [of ?p ?t j] by (auto simp: lock_after_def split: if_splits)
  have "(if p = ?p \<and> t = ?t then ?lock else cl_locked c p t) = Some j" if "j \<noteq> i" "cl_locked c p t = Some j" for p t j
    using that other [of j] by auto
  with own mine have A: "(if tk_proc (ts j) = ?p \<and> tk_chain (ts j) = ?t then ?lock else cl_locked c (tk_proc (ts j)) (tk_chain (ts j))) = Some j"
    if "holds (((cl_phase c)(i := ph)) j)" for j using that by (cases "j = i") simp_all
  have B: "holds (((cl_phase c)(i := ph)) j) \<and> tk_proc (ts j) = p \<and> tk_chain (ts j) = t"
    if "(if p = ?p \<and> t = ?t then ?lock else cl_locked c p t) = Some j" for p t j
    using that held [of p t j] taken [of j] by (cases "p = ?p \<and> t = ?t"; cases "j = i") auto
  have C: "cl_locked (advance D R P cfg ts i c) p t = (if p = ?p \<and> t = ?t then ?lock else cl_locked c p t)" for p t
    unfolding advance_simps(4) [where ts = ts and i = i and c = c, OF s] by simp
  show ?thesis
    unfolding lock_inv_def C advance_simps(2) [where ts = ts and i = i and c = c, OF s]
    by (rule conjI; intro allI impI; erule A B)
qed

lemma lock_inv_step:
  assumes "cluster_step D M P cfg ts c c'" and "lock_inv ts c"
  shows "lock_inv ts c'"
  using assms by cases (simp_all add: lock_inv_advance, simp add: lock_inv_def)

lemma lock_inv_reachable:
  "cluster_reachable D M P cfg ts c c' \<Longrightarrow> lock_inv ts c \<Longrightarrow> lock_inv ts c'"
  by (induction rule: cluster_reachable.induct) (auto intro: lock_inv_step)

text \<open>Two requests in one process never hold the lock of the same chain.\<close>

lemma lock_exclusive:
  "lock_inv ts c \<Longrightarrow> holds (cl_phase c i) \<Longrightarrow> holds (cl_phase c j) \<Longrightarrow> tk_proc (ts i) = tk_proc (ts j)
    \<Longrightarrow> tk_chain (ts i) = tk_chain (ts j) \<Longrightarrow> i = j"
  unfolding lock_inv_def by (metis option.inject)

text \<open>A request that waits, waits for one that can move.\<close>

lemma writers_move:
  assumes "lock_inv ts c" and "\<forall>r. cl_phase c i \<noteq> Finished r"
  shows "\<exists>j. enabled ts j c \<and> tk_proc (ts j) = tk_proc (ts i) \<and> tk_chain (ts j) = tk_chain (ts i)"
proof (cases "enabled ts i c")
  case False
  then obtain j where "cl_locked c (tk_proc (ts i)) (tk_chain (ts i)) = Some j"
    using assms(2) by (auto simp: enabled_def split: phase.splits)
  moreover from this assms(1) have "holds (cl_phase c j)" "tk_proc (ts j) = tk_proc (ts i)" "tk_chain (ts j) = tk_chain (ts i)"
    by (auto simp: lock_inv_def)
  moreover from this(1) have "enabled ts j c" by (cases "cl_phase c j") (simp_all add: enabled_def)
  ultimately show ?thesis by blast
qed blast


text \<open>
  Reading and clearing the halt table are two accesses: a halt written in between by another
  request is cleared with the expired one.
\<close>

lemma halt_can_be_lost:
  assumes "cl_phase c i = Unhalting" and "cl_phase c j = Halting" and "i \<noteq> j"
    and "tk_proc (ts i) = tk_proc (ts j)" and "tk_chain (ts i) = tk_chain (ts j)"
  shows "ss_chain_halted (view (advance D R P cfg ts j c) (tk_proc (ts j))) (tk_chain (ts j)) = Some (en_halt_time (tk_env (ts j)))"
    and "ss_chain_halted (view (advance D R P cfg ts i (advance D R P cfg ts j c)) (tk_proc (ts j))) (tk_chain (ts j)) = None"
  using assms by (simp_all add: advance_def Let_def)

section \<open>A request alone\<close>

text \<open>The steps of one request, with nothing in between.\<close>

inductive task_runs ::
    "third_party \<Rightarrow> 's ledger_repository \<Rightarrow> publisher \<Rightarrow> app_config \<Rightarrow> write_env \<Rightarrow> write_entry_input \<Rightarrow>
     phase \<Rightarrow> 's service_state \<Rightarrow> phase \<Rightarrow> 's service_state \<Rightarrow> bool"
  for D R P cfg env input where
  stay: "task_runs D R P cfg env input ph st ph st"
| go: "\<forall>r. ph \<noteq> Finished r \<Longrightarrow> task_step D R P cfg env input ph st = (ph', st') \<Longrightarrow>
    task_runs D R P cfg env input ph' st' ph'' st'' \<Longrightarrow> task_runs D R P cfg env input ph st ph'' st''"

definition returns ::
    "third_party \<Rightarrow> 's ledger_repository \<Rightarrow> publisher \<Rightarrow> app_config \<Rightarrow> write_env \<Rightarrow> write_entry_input \<Rightarrow>
     phase \<Rightarrow> 's service_state \<Rightarrow> (service_error + write_entry_output) \<times> 's service_state \<Rightarrow> bool" where
  "returns D R P cfg env input ph st out \<longleftrightarrow>
     task_runs D R P cfg env input ph st (Finished (fst out))
       ((snd out)\<lparr>ss_metrics := inc_write (write_label (fst out)) (ss_metrics (snd out))\<rparr>)"

lemma returns_now: "returns D R P cfg env input (Returning r) st (r, st)"
  unfolding returns_def by (rule task_runs.go [OF _ _ task_runs.stay]) simp_all

lemma returns_step:
  "\<forall>r. ph \<noteq> Finished r \<Longrightarrow> task_step D R P cfg env input ph st = (ph', st') \<Longrightarrow>
    returns D R P cfg env input ph' st' out \<Longrightarrow> returns D R P cfg env input ph st out"
  unfolding returns_def by (rule task_runs.go)

lemmas returns_last = returns_step [OF _ _ returns_now]

lemma returns_resolving: "returns D R P cfg env input Resolving st (resolve_conflict D R input st)"
proof -
  obtain r st' where "resolve_conflict D R input st = (r, st')" by fastforce
  then show ?thesis by (auto intro: returns_last)
qed

lemma returns_halting:
  "returns D R P cfg env input Halting st (Inl (Internal ''chain integrity violation''),
     st\<lparr>ss_chain_halted := (ss_chain_halted st)(we_entry_type input \<mapsto> en_halt_time env)\<rparr>)"
  by (rule returns_last) simp_all

text \<open>The small steps of the loop and the recursive loop do the same.\<close>

lemma returns_appending:
  assumes w: "on_repo (repo_write_entry_with_outbox R (en_draws env k)
      (entry_write_input_of P input h (en_now env k))) st = (w, st')"
    and loop: "k + 1 < unat (cfg_chain_max_retries cfg) \<Longrightarrow>
      returns D R P cfg env input (Reading (k + 1)) (sleep (retry_backoff k) st') again"
  shows "returns D R P cfg env input (Appending k h) st
    (case w of
       Inr result \<Rightarrow> (Inr (output_of_entry D (wr_entry result)), st'\<lparr>ss_metrics := (ss_metrics st')
         \<lparr>m_chain_integrity_retries := m_chain_integrity_retries (ss_metrics st') @ [k]\<rparr>\<rparr>)
     | Inl ChainIntegrityViolation \<Rightarrow>
         if k + 1 < unat (cfg_chain_max_retries cfg) then again
         else (Inl (Internal ''chain integrity violation''),
           st'\<lparr>ss_chain_halted := (ss_chain_halted st')(we_entry_type input \<mapsto> en_halt_time env)\<rparr>)
     | Inl IdempotencyConflict \<Rightarrow> resolve_conflict D R input st'
     | Inl err \<Rightarrow> (Inl (map_repo err), st'))"
proof (cases w)
  case (Inr result)
  then show ?thesis by (auto simp: step_append_def w intro: returns_last)
next
  case (Inl err)
  show ?thesis
  proof (cases err)
    case ChainIntegrityViolation
    show ?thesis
    proof (cases "k + 1 < unat (cfg_chain_max_retries cfg)")
      case True
      then show ?thesis
        using returns_step [OF _ _ loop [OF True], of "Appending k h" st] Inl ChainIntegrityViolation
        by (simp add: step_append_def w)
    next
      case False
      then show ?thesis
        using returns_step [OF _ _ returns_halting, where ph = "Appending k h" and st = st] Inl ChainIntegrityViolation
        by (simp add: step_append_def w)
    qed
  next
    case IdempotencyConflict
    have "returns D R P cfg env input (Appending k h) st (resolve_conflict D R input st')"
    proof (cases "we_idempotency_key input")
      case None
      with Inl IdempotencyConflict show ?thesis
        by (auto simp: step_append_def w resolve_conflict_def intro: returns_last)
    next
      case (Some key)
      with Inl IdempotencyConflict show ?thesis
        by (intro returns_step [OF _ _ returns_resolving, where ph = "Appending k h" and st = st])
          (simp_all add: step_append_def w)
    qed
    with Inl IdempotencyConflict show ?thesis by simp
  qed (use Inl in \<open>auto simp: step_append_def w intro: returns_last\<close>)
qed

lemma returns_reading:
  "returns D R P cfg env input (Reading k) st
     (write_attempts D R P cfg env input k (unat (cfg_chain_max_retries cfg) - k) st)"
proof (induction "unat (cfg_chain_max_retries cfg) - k" arbitrary: k st)
  case 0
  then have "unat (cfg_chain_max_retries cfg) - k = 0" "\<not> k < unat (cfg_chain_max_retries cfg)" by simp_all
  then show ?case by (auto simp: step_read_def intro: returns_last)
next
  case (Suc n)
  have n: "unat (cfg_chain_max_retries cfg) - k = Suc n" "k < unat (cfg_chain_max_retries cfg)"
    "unat (cfg_chain_max_retries cfg) - (k + 1) = n" using Suc.hyps(2) by simp_all
  obtain tip st1 where tip: "on_repo (repo_get_chain_tip R (we_entry_type input)) st = (tip, st1)" by fastforce
  have app: "returns D R P cfg env input (Reading k) st (write_attempts D R P cfg env input k (Suc n) st)"
    if h: "(case tip of Inr t \<Rightarrow> Inr (tip_hash t) | Inl NotFound \<Rightarrow> Inr (genesis_hash D cfg)
        | Inl err \<Rightarrow> Inl (map_repo err)) = Inr h" for h
  proof -
    obtain w st2 where w: "on_repo (repo_write_entry_with_outbox R (en_draws env k)
        (entry_write_input_of P input h (en_now env k))) st1 = (w, st2)" by fastforce
    have "task_step D R P cfg env input (Reading k) st = (Appending k h, st1)"
      using h n(2) by (auto simp: step_read_def tip split: sum.splits repository_error.splits)
    from returns_step [OF _ this returns_appending [OF w]] Suc.hyps(1) [of "k + 1"] n(3)
    show ?thesis unfolding write_attempts.simps tip prod.case h sum.case w by simp
  qed
  show ?case
  proof (cases "\<exists>h. (case tip of Inr t \<Rightarrow> Inr (tip_hash t) | Inl NotFound \<Rightarrow> Inr (genesis_hash D cfg)
      | Inl err \<Rightarrow> Inl (map_repo err)) = Inr h")
    case True
    with app n(1) show ?thesis by auto
  next
    case False
    then obtain err where err: "tip = Inl err" "err \<noteq> NotFound" by (cases tip) (auto split: repository_error.splits)
    then have "write_attempts D R P cfg env input k (Suc n) st = (Inl (map_repo err), st1)"
      "task_step D R P cfg env input (Reading k) st = (Returning (Inl (map_repo err)), st1)"
      by (cases err; simp add: tip step_read_def n(2))+
    then show ?thesis using n(1) by (auto intro: returns_last)
  qed
qed


lemma returns_registering:
  "returns D R P cfg env input Registering st (append_under_lock D R P cfg env input st)"
proof -
  let ?st = "chain_lock (we_entry_type input) st"
  have "returns D R P cfg env input (Reading 0) ?st (append_under_lock D R P cfg env input st)"
    using returns_reading [of D R P cfg env input 0 ?st] by (simp add: append_under_lock_def)
  then have "returns D R P cfg env input Waiting ?st (append_under_lock D R P cfg env input st)"
    by (rule returns_step [rotated 2]) simp_all
  then show ?thesis by (rule returns_step [rotated 2]) simp_all
qed

text \<open>From the check of the halt table on.\<close>

definition lookup_and_append ::
    "third_party \<Rightarrow> 's ledger_repository \<Rightarrow> publisher \<Rightarrow> app_config \<Rightarrow> write_env \<Rightarrow> write_entry_input \<Rightarrow>
     's service_state \<Rightarrow> (service_error + write_entry_output) \<times> 's service_state" where
  "lookup_and_append D R P cfg env input st =
     (case we_idempotency_key input of
        None \<Rightarrow> append_under_lock D R P cfg env input st
      | Some key \<Rightarrow>
          (case on_repo (repo_find_idempotent R (we_entry_type input) key) st of
             (Inl err, st2) \<Rightarrow> (Inl (map_repo err), st2)
           | (Inr (Some existing), st2) \<Rightarrow>
               if \<not> idempotent_request_matches existing input
               then (Inl (AlreadyExists idempotency_conflict_message), st2)
               else (Inr (output_of_entry D existing), st2)
           | (Inr None, st2) \<Rightarrow> append_under_lock D R P cfg env input st2))"

lemma returns_after_check:
  "returns D R P cfg env input (after_check input) st (lookup_and_append D R P cfg env input st)"
proof (cases "we_idempotency_key input")
  case None
  then show ?thesis using returns_registering by (simp add: after_check_def lookup_and_append_def)
next
  case (Some key)
  obtain r st2 where r: "on_repo (repo_find_idempotent R (we_entry_type input) key) st = (r, st2)" by fastforce
  consider err where "r = Inl err" | "r = Inr None" | e where "r = Inr (Some e)" by (metis not_None_eq sum.exhaust)
  then show ?thesis
  proof cases
    case 2
    with Some r have "task_step D R P cfg env input Looking st = (Registering, st2)" by (simp add: step_look_def)
    from returns_step [OF _ this returns_registering] 2 Some r show ?thesis
      by (simp add: after_check_def lookup_and_append_def)
  qed (use Some r in \<open>auto simp: after_check_def lookup_and_append_def step_look_def intro: returns_last\<close>)
qed

theorem returns_write_entry:
  assumes "write_entry D R P cfg env input st = (r, st')"
  shows "task_runs D R P cfg env input Checking st (Finished r) st'"
proof -
  have "returns D R P cfg env input Checking st (write_entry_impl D R P cfg env input st)"
  proof (cases "validate_write cfg input")
    case (Some err)
    then show ?thesis by (auto simp: step_check_def write_entry_impl_def intro: returns_last)
  next
    case None
    note valid = None
    let ?t = "we_entry_type input"
    let ?clear = "st\<lparr>ss_chain_halted := (ss_chain_halted st)(?t := None)\<rparr>"
    have go: "write_entry_impl D R P cfg env input st = (case check_halted cfg (en_check_time env) ?t st of
        None \<Rightarrow> (Inl SvcUnavailable, st) | Some st1 \<Rightarrow> lookup_and_append D R P cfg env input st1)"
      using None by (simp add: write_entry_impl_def lookup_and_append_def [abs_def] split: option.split)
    show ?thesis
    proof (cases "ss_chain_halted st ?t")
      case None
      then have "task_step D R P cfg env input Checking st = (after_check input, st)"
        using valid by (simp add: step_check_def)
      from returns_step [OF _ this returns_after_check] None show ?thesis by (simp add: go check_halted_def)
    next
      case (Some h)
      show ?thesis
      proof (cases "en_check_time env - h < cfg_chain_halt_recovery_seconds cfg * 1000000000")
        case True
        with Some valid show ?thesis by (auto simp: go check_halted_def step_check_def intro: returns_last)
      next
        case False
        have "returns D R P cfg env input Unhalting st (lookup_and_append D R P cfg env input ?clear)"
          by (rule returns_step [OF _ _ returns_after_check]) simp_all
        moreover have "task_step D R P cfg env input Checking st = (Unhalting, st)"
          using Some False valid by (simp add: step_check_def)
        ultimately show ?thesis using Some False by (simp add: go check_halted_def returns_step)
      qed
    qed
  qed
  with assms show ?thesis by (auto simp: returns_def write_entry_def split: prod.splits)
qed

section \<open>Alone in a cluster\<close>

inductive solo ::
    "third_party \<Rightarrow> 's ledger_repository \<Rightarrow> publisher \<Rightarrow> app_config \<Rightarrow> (nat \<Rightarrow> task) \<Rightarrow> nat \<Rightarrow> 's cluster \<Rightarrow> 's cluster \<Rightarrow> bool"
  for D R P cfg ts i where
  rest: "solo D R P cfg ts i c c"
| move: "enabled ts i c \<Longrightarrow> solo D R P cfg ts i (advance D R P cfg ts i c) c' \<Longrightarrow> solo D R P cfg ts i c c'"

lemma lock_after_own: "lock_after i ph ph' (if holds ph then Some i else None) = (if holds ph' then Some i else None)"
  by (simp add: lock_after_def)

lemma solo_task_runs:
  assumes "task_runs D R P cfg (tk_env (ts i)) (tk_input (ts i)) ph st ph' st'"
    and "cl_phase c i = ph" and "view c (tk_proc (ts i)) = st"
    and "cl_locked c (tk_proc (ts i)) (tk_chain (ts i)) = (if holds ph then Some i else None)"
  shows "\<exists>c'. solo D R P cfg ts i c c' \<and> cl_phase c' = (cl_phase c)(i := ph') \<and> view c' (tk_proc (ts i)) = st'
    \<and> cl_locked c' = (cl_locked c)(tk_proc (ts i) := (cl_locked c (tk_proc (ts i)))
        (tk_chain (ts i) := if holds ph' then Some i else None))
    \<and> (\<forall>q. q \<noteq> tk_proc (ts i) \<longrightarrow> cl_proc c' q = cl_proc c q)"
  using assms
proof (induction arbitrary: c rule: task_runs.induct)
  case (stay ph st)
  then have "(cl_phase c)(i := ph) = cl_phase c" by auto
  with stay show ?case by (intro exI [of _ c]) (auto simp: fun_upd_def fun_eq_iff intro: solo.rest)
next
  case (go ph st ph1 st1 ph2 st2)
  let ?c = "advance D R P cfg ts i c" and ?p = "tk_proc (ts i)" and ?t = "tk_chain (ts i)"
  have step: "task_step D R P cfg (tk_env (ts i)) (tk_input (ts i)) (cl_phase c i) (view c ?p) = (ph1, st1)"
    using go by simp
  note A = advance_simps [where ts = ts and i = i and c = c, OF step]
  have en: "enabled ts i c" using go.hyps(1) go.prems by (cases ph) (simp_all add: enabled_def)
  have lock: "cl_locked ?c = (cl_locked c)(?p := (cl_locked c ?p)(?t := if holds ph1 then Some i else None))"
    using A(4) go.prems(1,3) lock_after_own [of i ph ph1] by simp
  have "\<forall>q. q \<noteq> ?p \<longrightarrow> cl_proc ?c q = cl_proc c q"
    by (simp add: advance_def Let_def put_def split: prod.split)
  moreover have "cl_phase ?c i = ph1" "cl_locked ?c ?p ?t = (if holds ph1 then Some i else None)"
    by (simp_all add: A(2) lock)
  from go.IH [OF this(1) A(3) this(2)] obtain c' where "solo D R P cfg ts i ?c c'" "cl_phase c' = (cl_phase ?c)(i := ph2)" "view c' ?p = st2"
    "cl_locked c' = (cl_locked ?c)(?p := (cl_locked ?c ?p)(?t := if holds ph2 then Some i else None))"
    "\<forall>q. q \<noteq> ?p \<longrightarrow> cl_proc c' q = cl_proc ?c q"
    by blast
  ultimately show ?case using solo.move [OF en] by (intro exI [of _ c']) (simp add: lock A(2) fun_eq_iff)
qed

end
