(* ===== verification/Writers_Correct.thy ===== *)
theory Writers_Correct
  imports Writers Postgres_Service System
begin

text \<open>
  What concurrent writers do over any repository that meets the interfaces: whatever the
  interleaving, the number of processes and the failing calls, chains only grow, every
  successful answer describes a stored entry, and keys are used once; within one process
  the chain locks keep writers from ever seeing a stale tip.
\<close>

section \<open>What a request may say\<close>

definition answered :: "third_party \<Rightarrow> write_entry_input \<Rightarrow> ledger \<Rightarrow> service_error + write_entry_output \<Rightarrow> bool" where
  "answered D input L r \<longleftrightarrow>
     (\<forall>out. r = Inr out \<longrightarrow> (\<exists>e \<in> set (L (we_entry_type input)).
        le_idempotency_key e = we_idempotency_key input \<and> idempotent_request_matches e input
        \<and> out = output_of_entry D e))"

definition phase_ok :: "third_party \<Rightarrow> app_config \<Rightarrow> write_entry_input \<Rightarrow> ledger \<Rightarrow> phase \<Rightarrow> bool" where
  "phase_ok D cfg input L ph \<longleftrightarrow>
     (case ph of
        Appending k h \<Rightarrow> L (we_entry_type input) = [] \<longrightarrow> h = genesis_hash D cfg
      | Returning r \<Rightarrow> answered D input L r
      | Finished r \<Rightarrow> answered D input L r
      | _ \<Rightarrow> True)"

lemma answered_Inl [simp]: "answered D input L (Inl err)"
  by (simp add: answered_def)

lemma answered_Inr:
  "e \<in> set (L (we_entry_type input)) \<Longrightarrow> le_idempotency_key e = we_idempotency_key input \<Longrightarrow>
    idempotent_request_matches e input \<Longrightarrow> answered D input L (Inr (output_of_entry D e))"
  by (auto simp: answered_def)

lemma answered_found:
  assumes "answers reliable r (Inr (List.find (with_key k) (L (we_entry_type input))))" and "r = Inr (Some e)"
    and "we_idempotency_key input = Some k" and "idempotent_request_matches e input"
  shows "answered D input L (Inr (output_of_entry D e))"
proof -
  have "List.find (with_key k) (L (we_entry_type input)) = Some e" using assms(1,2) by (simp add: answers_def)
  then have "e \<in> set (L (we_entry_type input))" "le_idempotency_key e = Some k"
    by (auto simp: find_Some_iff with_key_def)
  with assms(3,4) show ?thesis by (simp add: answered_Inr)
qed

lemma phase_ok_simps [simp]:
  "phase_ok D cfg input L Checking" "phase_ok D cfg input L Unhalting" "phase_ok D cfg input L Looking"
  "phase_ok D cfg input L Registering" "phase_ok D cfg input L Waiting" "phase_ok D cfg input L (Reading k)"
  "phase_ok D cfg input L Resolving" "phase_ok D cfg input L Halting"
  "phase_ok D cfg input L (Appending k h) = (L (we_entry_type input) = [] \<longrightarrow> h = genesis_hash D cfg)"
  "phase_ok D cfg input L (Returning r) = answered D input L r"
  "phase_ok D cfg input L (Finished r) = answered D input L r"
  by (simp_all add: phase_ok_def)

lemma phase_ok_extends:
  assumes "extends L L'" and "phase_ok D cfg input L ph"
  shows "phase_ok D cfg input L' ph"
proof -
  obtain es where es: "L' (we_entry_type input) = L (we_entry_type input) @ es"
    using assms(1) by (auto simp: extends_def)
  with assms(2) show ?thesis by (cases ph) (auto simp: answered_def)
qed

lemma phase_ok_after_check [simp]: "phase_ok D cfg input L (after_check input)"
  by (simp add: after_check_def split: option.split)

lemma rooted_append:
  assumes "rooted D cfg L" and "link_ok (wi_previous_hash w) (L (wi_entry_type w))"
    and "L (wi_entry_type w) = [] \<longrightarrow> wi_previous_hash w = genesis_hash D cfg"
  shows "rooted D cfg (append_entry D L d w)"
  using assms by (auto simp: rooted_def append_entry_apply intact_simps entry_fault_None link_ok_def tip_hash_of_def)

text \<open>What one step of a request does to the ledger.\<close>

definition step_keeps_ledger :: "third_party \<Rightarrow> app_config \<Rightarrow> write_entry_input \<Rightarrow> phase \<Rightarrow> ledger \<Rightarrow> ledger \<Rightarrow> phase \<Rightarrow> bool" where
  "step_keeps_ledger D cfg input ph L L' ph' \<longleftrightarrow> rooted D cfg L' \<and> append_only (we_entry_type input) L L'
     \<and> phase_ok D cfg input L' ph' \<and> ((\<nexists>k h. ph = Appending k h) \<longrightarrow> L' = L)"

lemma step_keeps_same:
  "rooted D cfg L \<Longrightarrow> phase_ok D cfg input L ph' \<Longrightarrow> step_keeps_ledger D cfg input ph L L ph'"
  by (simp add: step_keeps_ledger_def append_only_def)

context ledger_system
begin

abbreviation chains :: "'s service_state \<Rightarrow> ledger" where
  "chains st \<equiv> sm_chain M (ss_repo st)"

lemma step_look_keeps:
  assumes "inv (ss_repo st)" and "rooted D cfg (chains st)" and "step_look D (sm_repo M) input st = (ph', st')"
  shows "inv (ss_repo st') \<and> step_keeps_ledger D cfg input Looking (chains st) (chains st') ph'"
proof (cases "we_idempotency_key input")
  case None
  with assms show ?thesis by (simp add: step_look_def step_keeps_same)
next
  case (Some key)
  obtain r s' where r: "repo_find_idempotent (sm_repo M) (we_entry_type input) key (ss_repo st) = (r, s')" by fastforce
  note L = idempotent_law [OF assms(1) r]
  have "answered D input (sm_chain M s') (Inr (output_of_entry D e))"
    if "r = Inr (Some e)" "idempotent_request_matches e input" for e
    using answered_found [of reliable r key "sm_chain M s'"] that L Some by simp
  with assms Some r L show ?thesis
    by (auto simp: step_look_def on_repo_def step_keeps_same split: sum.splits option.splits if_splits)
qed

lemma resolve_keeps:
  assumes "inv (ss_repo st)" and "rooted D cfg (chains st)" and "resolve_conflict D (sm_repo M) input st = (r, st')"
  shows "inv (ss_repo st') \<and> step_keeps_ledger D cfg input Resolving (chains st) (chains st') (Returning r)"
proof (cases "we_idempotency_key input")
  case None
  with assms show ?thesis by (auto simp: resolve_conflict_def step_keeps_same)
next
  case (Some key)
  obtain q s' where q: "repo_find_idempotent (sm_repo M) (we_entry_type input) key (ss_repo st) = (q, s')" by fastforce
  note L = idempotent_law [OF assms(1) q]
  have "answered D input (sm_chain M s') (Inr (output_of_entry D e))"
    if "q = Inr (Some e)" "idempotent_request_matches e input" for e
    using answered_found [of reliable q key "sm_chain M s'"] that L Some by simp
  with assms Some q L show ?thesis
    by (auto simp: resolve_conflict_def on_repo_def step_keeps_same split: sum.splits option.splits if_splits)
qed

lemma step_read_keeps:
  assumes "inv (ss_repo st)" and "rooted D cfg (chains st)" and "step_read D (sm_repo M) cfg input k st = (ph', st')"
  shows "inv (ss_repo st') \<and> step_keeps_ledger D cfg input (Reading k) (chains st) (chains st') ph'
    \<and> (\<forall>j h. ph' = Appending j h \<longrightarrow> j = k \<and> h = tip_hash_of (genesis_hash D cfg) (chains st (we_entry_type input)))"
proof -
  obtain r s' where r: "repo_get_chain_tip (sm_repo M) (we_entry_type input) (ss_repo st) = (r, s')" by fastforce
  note T = tip_law [OF assms(1) r] and X = tip_exact [OF assms(1) r]
  from T have same: "inv s'" "sm_chain M s' = chains st" by simp_all
  show ?thesis
    using assms r same X
    by (auto simp: step_read_def on_repo_def step_keeps_same answers_def tip_hash_of_def entry_chain_tip_def
        split: if_splits sum.splits repository_error.splits)
qed

lemma step_append_keeps:
  assumes inv: "inv (ss_repo st)" and root: "rooted D cfg (chains st)"
    and fresh: "fresh_draws (chains st) (sm_outbox M (ss_repo st)) (en_draws env k)"
    and keep: "sm_storable M (entry_write_input_of P input h (en_now env k))"
    and h: "chains st (we_entry_type input) = [] \<longrightarrow> h = genesis_hash D cfg"
    and step: "step_append D (sm_repo M) P cfg env input k h st = (ph', st')"
  shows "inv (ss_repo st') \<and> step_keeps_ledger D cfg input (Appending k h) (chains st) (chains st') ph'"
proof -
  let ?w = "entry_write_input_of P input h (en_now env k)" and ?L = "chains st" and ?d = "en_draws env k"
  let ?kept = "clip_input clip ?w"
  let ?e = "next_entry D ?L ?d ?kept"
  obtain r s' where r: "repo_write_entry_with_outbox (sm_repo M) ?d ?w (ss_repo st) = (r, s')" by fastforce
  from write_law [OF inv fresh keep r] have W: "inv s'"
    "write_spec D clip reliable ?d ?w ?L (sm_outbox M (ss_repo st)) r (sm_chain M s') (sm_outbox M s')" by simp_all
  have w: "wi_entry_type ?w = we_entry_type input" "wi_previous_hash ?w = h"
    "wi_entry_type ?kept = we_entry_type input" "wi_previous_hash ?kept = h"
    by (simp_all add: entry_write_input_of_def clip_input_def)
  have app: "rooted D cfg (append_entry D ?L ?d ?kept)" "append_only (we_entry_type input) ?L (append_entry D ?L ?d ?kept)"
    if "link_ok h (?L (we_entry_type input))"
    using rooted_append [OF root, of ?kept ?d] that h unfolding w by (simp_all add: w append_only_def append_entry_apply)
  have e: "le_idempotency_key ?e = we_idempotency_key input" "idempotent_request_matches ?e input"
    "?e \<in> set (append_entry D ?L ?d ?kept (we_entry_type input))"
    by (simp_all add: next_entry_def new_entry_def clip_input_def entry_write_input_of_def idempotent_request_matches_def
        append_entry_apply)
  have out: "output_of_entry D (?e\<lparr>le_written_ts := wi_written_ts ?w\<rparr>) = output_of_entry D ?e"
    by (rule output_of_clipped [where clip = clip, OF storable_millis [OF keep]])
  have "ss_repo st' = s'"
    using step r by (auto simp: step_append_def on_repo_def sleep_def split: sum.splits repository_error.splits if_splits option.splits)
  moreover have "rooted D cfg (sm_chain M s') \<and> append_only (we_entry_type input) ?L (sm_chain M s')"
    using W(2) root app unfolding write_spec_def Let_def w
    by (auto simp: append_only_def split: sum.splits repository_error.splits)
  moreover have "phase_ok D cfg input (sm_chain M s') ph'"
  proof (cases r)
    case (Inr res)
    with W(2) have "sm_chain M s' = append_entry D ?L ?d ?kept" "wr_entry res = ?e\<lparr>le_written_ts := wi_written_ts ?w\<rparr>"
      by (simp_all add: write_spec_def Let_def)
    moreover have "ph' = Returning (Inr (output_of_entry D (wr_entry res)))"
      using step r Inr by (auto simp: step_append_def on_repo_def)
    ultimately show ?thesis using answered_Inr [where L = "append_entry D ?L ?d ?kept", OF e(3,1,2)] out by simp
  next
    case (Inl err)
    with step r show ?thesis
      by (auto simp: step_append_def on_repo_def split: repository_error.splits if_splits option.splits)
  qed
  ultimately show ?thesis using W(1) by (simp add: step_keeps_ledger_def)
qed

theorem task_step_keeps:
  assumes inv: "inv (ss_repo st)" and root: "rooted D cfg (chains st)" and ok: "phase_ok D cfg (tk_input tk) (chains st) ph"
    and ready: "task_ready M P tk ph (ss_repo st)"
    and step: "task_step D (sm_repo M) P cfg (tk_env tk) (tk_input tk) ph st = (ph', st')"
  shows "inv (ss_repo st') \<and> step_keeps_ledger D cfg (tk_input tk) ph (chains st) (chains st') ph'"
proof (cases ph)
  case Checking
  with assms show ?thesis
    by (auto simp: step_check_def step_keeps_same split: option.splits if_splits)
next
  case Looking
  with step_look_keeps [OF inv root] step show ?thesis by simp
next
  case (Reading k)
  with step_read_keeps [OF inv root, of "tk_input tk" k ph' st'] step show ?thesis by simp
next
  case (Appending k h)
  with step_append_keeps [OF inv root, of "tk_env tk" k P "tk_input tk" h ph' st'] step ready ok
  show ?thesis by (simp add: task_ready_def unused)
next
  case Resolving
  obtain r st2 where "resolve_conflict D (sm_repo M) (tk_input tk) st = (r, st2)" by fastforce
  with resolve_keeps [OF inv root, of "tk_input tk" r st2] step Resolving show ?thesis by simp
qed (use assms in \<open>auto simp: step_keeps_same chain_lock_def\<close>)

text \<open>The whole cluster: the store, the roots of the chains, and what every request may say.\<close>

definition cluster_inv :: "app_config \<Rightarrow> (nat \<Rightarrow> task) \<Rightarrow> 's cluster \<Rightarrow> bool" where
  "cluster_inv cfg ts c \<longleftrightarrow> inv (cl_repo c) \<and> rooted D cfg (sm_chain M (cl_repo c))
     \<and> (\<forall>i. phase_ok D cfg (tk_input (ts i)) (sm_chain M (cl_repo c)) (cl_phase c i))"

lemma cluster_step_keeps:
  assumes step: "cluster_step D M P cfg ts c c'" and ok: "cluster_inv cfg ts c"
  shows "cluster_inv cfg ts c' \<and> extends (sm_chain M (cl_repo c)) (sm_chain M (cl_repo c'))"
  using step
proof cases
  case (request i)
  let ?v = "view c (tk_proc (ts i))"
  obtain ph st where s: "task_step D (sm_repo M) P cfg (tk_env (ts i)) (tk_input (ts i)) (cl_phase c i) ?v = (ph, st)" by fastforce
  note A = advance_simps [where ts = ts and i = i and c = c, OF s]
  have K: "inv (ss_repo st)" "step_keeps_ledger D cfg (tk_input (ts i)) (cl_phase c i) (sm_chain M (cl_repo c)) (chains st) ph"
    using task_step_keeps [OF _ _ _ _ s] ok request(3) by (simp_all add: cluster_inv_def)
  then have ext: "extends (sm_chain M (cl_repo c)) (chains st)"
    by (auto simp: step_keeps_ledger_def intro: append_only_extends)
  have "phase_ok D cfg (tk_input (ts j)) (chains st) (((cl_phase c)(i := ph)) j)" for j
    using K(2) ok phase_ok_extends [OF ext] by (auto simp: step_keeps_ledger_def cluster_inv_def)
  with K ext show ?thesis by (simp add: request(1) A cluster_inv_def step_keeps_ledger_def)
next
  case (background p st)
  with background_frame [OF background(2)] ok show ?thesis by (simp add: cluster_inv_def)
qed

theorem cluster_keeps:
  assumes "cluster_reachable D M P cfg ts c c'" and "cluster_inv cfg ts c"
  shows "cluster_inv cfg ts c' \<and> extends (sm_chain M (cl_repo c)) (sm_chain M (cl_repo c'))"
  using assms
proof (induction rule: cluster_reachable.induct)
  case (more c c' c'')
  with cluster_step_keeps [OF more.hyps(2)] show ?case by (auto intro: extends_trans)
qed simp

text \<open>Requests with the same chain and key that succeed get the same answer, from the one entry with the key.\<close>

lemma cluster_answers_agree:
  assumes ok: "cluster_inv cfg ts c" and "cl_phase c i = Finished (Inr out)" and "cl_phase c j = Finished (Inr out')"
    and "tk_chain (ts i) = tk_chain (ts j)" and "we_idempotency_key (tk_input (ts i)) = Some k"
    and "we_idempotency_key (tk_input (ts j)) = Some k"
  shows "out' = out \<and> (\<exists>e. {x \<in> set (sm_chain M (cl_repo c) (tk_chain (ts i))). le_idempotency_key x = Some k} = {e})"
proof -
  let ?L = "sm_chain M (cl_repo c)"
  have "ledger_inv D ?L" using ok stored_inv by (simp add: cluster_inv_def)
  then have one: "e = e'" if "e \<in> set (?L t)" "e' \<in> set (?L t)" "le_idempotency_key e = Some k" "le_idempotency_key e' = Some k" for e e' t
    using that unfolding ledger_inv_def by (metis option.distinct(1))
  have "phase_ok D cfg (tk_input (ts i)) ?L (Finished (Inr out))" "phase_ok D cfg (tk_input (ts j)) ?L (Finished (Inr out'))"
    using ok assms(2,3) unfolding cluster_inv_def by metis+
  then obtain e e' where "e \<in> set (?L (tk_chain (ts i)))" "le_idempotency_key e = Some k" "out = output_of_entry D e"
    "e' \<in> set (?L (tk_chain (ts i)))" "le_idempotency_key e' = Some k" "out' = output_of_entry D e'"
    using assms(4-6) by (auto simp: answered_def)
  with one show ?thesis by blast
qed

end

section \<open>One process: no contention\<close>

text \<open>
  With all writers in one process, whoever is about to append carries the hash of the
  present tip, is in its first attempt, no chain is about to be halted, and no request
  ends with an internal error.
\<close>

definition calm_phase :: "string \<Rightarrow> phase \<Rightarrow> bool" where
  "calm_phase tip ph =
     (case ph of
        Reading k \<Rightarrow> k = 0
      | Appending k h \<Rightarrow> k = 0 \<and> h = tip
      | Halting \<Rightarrow> False
      | Returning r \<Rightarrow> (\<forall>m. r \<noteq> Inl (Internal m))
      | Finished r \<Rightarrow> (\<forall>m. r \<noteq> Inl (Internal m))
      | _ \<Rightarrow> True)"

lemma calm_phase_simps [simp]:
  "calm_phase tip Checking" "calm_phase tip Unhalting" "calm_phase tip Looking" "calm_phase tip Registering"
  "calm_phase tip Waiting" "calm_phase tip (Reading k) = (k = 0)" "calm_phase tip (Appending k h) = (k = 0 \<and> h = tip)"
  "calm_phase tip Resolving" "calm_phase tip Halting = False"
  "calm_phase tip (Returning r) = (\<forall>m. r \<noteq> Inl (Internal m))" "calm_phase tip (Finished r) = (\<forall>m. r \<noteq> Inl (Internal m))"
  by (simp_all add: calm_phase_def)

lemma calm_phase_other: "calm_phase tip ph \<Longrightarrow> (\<nexists>k h. ph = Appending k h) \<Longrightarrow> calm_phase tip' ph"
  by (cases ph) simp_all

lemma calm_after_check [simp]: "calm_phase tip (after_check input)"
  by (simp add: after_check_def split: option.split)

context ledger_system
begin

lemma step_append_calm:
  assumes inv: "inv (ss_repo st)" and g: "genesis_hash D cfg \<noteq> []"
    and fresh: "fresh_draws (chains st) (sm_outbox M (ss_repo st)) (en_draws env k)"
    and keep: "sm_storable M (entry_write_input_of P input h (en_now env k))"
    and h: "h = tip_hash_of (genesis_hash D cfg) (chains st (we_entry_type input))"
    and step: "step_append D (sm_repo M) P cfg env input k h st = (ph', st')"
  shows "calm_phase tip ph'"
proof -
  let ?w = "entry_write_input_of P input h (en_now env k)"
  obtain r s' where r: "repo_write_entry_with_outbox (sm_repo M) (en_draws env k) ?w (ss_repo st) = (r, s')" by fastforce
  have w: "wi_entry_type ?w = we_entry_type input" "wi_previous_hash ?w = h" by (simp_all add: entry_write_input_of_def)
  have "link_ok h (chains st (we_entry_type input))" unfolding h by (rule link_ok_tip_hash [OF g])
  with write_law [OF inv fresh keep r] have "r \<noteq> Inl ChainIntegrityViolation" "r \<noteq> Inl NotFound"
    by (auto simp: write_spec_def Let_def w)
  with step r show ?thesis
    by (auto simp: step_append_def on_repo_def split: sum.splits repository_error.splits option.splits)
qed

lemma task_step_calm:
  assumes inv: "inv (ss_repo st)" and g: "genesis_hash D cfg \<noteq> []" and limit: "cfg_chain_max_retries cfg \<noteq> 0"
    and calm: "calm_phase (tip_hash_of (genesis_hash D cfg) (chains st (tk_chain tk))) ph"
    and ready: "task_ready M P tk ph (ss_repo st)"
    and step: "task_step D (sm_repo M) P cfg (tk_env tk) (tk_input tk) ph st = (ph', st')"
    and keeps: "\<forall>k h. ph' = Appending k h \<longrightarrow> chains st' = chains st"
  shows "calm_phase (tip_hash_of (genesis_hash D cfg) (chains st' (tk_chain tk))) ph'"
proof (cases ph)
  case Checking
  with step show ?thesis
    by (auto simp: step_check_def split: option.splits if_splits dest!: validate_write_error)
next
  case Looking
  show ?thesis
  proof (cases "we_idempotency_key (tk_input tk)")
    case (Some key)
    obtain r s' where r: "repo_find_idempotent (sm_repo M) (tk_chain tk) key (ss_repo st) = (r, s')" by fastforce
    consider "r = Inl Unavailable" | x where "r = Inr x" using idempotent_law [OF inv r] by (auto simp: answers_def)
    then show ?thesis
      by cases (use Looking Some r step in \<open>auto simp: step_look_def on_repo_def split: option.splits\<close>)
  qed (use Looking step in \<open>auto simp: step_look_def\<close>)
next
  case (Reading k)
  obtain r s' where r: "repo_get_chain_tip (sm_repo M) (tk_chain tk) (ss_repo st) = (r, s')" by fastforce
  note T = tip_law [OF inv r] and X = tip_exact [OF inv r]
  have "0 < unat (cfg_chain_max_retries cfg)" using limit by (simp add: unat_gt_0)
  with Reading calm step r X T show ?thesis
    by (auto simp: step_read_def on_repo_def answers_def tip_hash_of_def entry_chain_tip_def
        split: if_splits sum.splits repository_error.splits)
next
  case (Appending k h)
  with step_append_calm [OF inv g, of "tk_env tk" k P "tk_input tk" h] ready calm step show ?thesis
    by (simp add: task_ready_def unused)
next
  case Resolving
  show ?thesis
  proof (cases "we_idempotency_key (tk_input tk)")
    case (Some key)
    obtain r s' where r: "repo_find_idempotent (sm_repo M) (tk_chain tk) key (ss_repo st) = (r, s')" by fastforce
    consider "r = Inl Unavailable" | x where "r = Inr x" using idempotent_law [OF inv r] by (auto simp: answers_def)
    then show ?thesis
      by cases (use Resolving Some r step in \<open>auto simp: resolve_conflict_def on_repo_def split: option.splits if_splits\<close>)
  qed (use Resolving step in \<open>auto simp: resolve_conflict_def\<close>)
qed (use calm step in auto)

text \<open>The lock of the chain keeps the tip where it is while a request holds it.\<close>

definition calm :: "app_config \<Rightarrow> (nat \<Rightarrow> task) \<Rightarrow> 's cluster \<Rightarrow> bool" where
  "calm cfg ts c \<longleftrightarrow> (\<forall>i. calm_phase (tip_hash_of (genesis_hash D cfg) (sm_chain M (cl_repo c) (tk_chain (ts i))))
     (cl_phase c i))"

lemma cluster_step_calm:
  assumes step: "cluster_step D M P cfg ts c c'" and ok: "cluster_inv cfg ts c" and lock: "lock_inv ts c"
    and calm: "calm cfg ts c" and g: "genesis_hash D cfg \<noteq> []" and limit: "cfg_chain_max_retries cfg \<noteq> 0"
    and one: "\<forall>i j. tk_proc (ts i) = tk_proc (ts j)"
  shows "calm cfg ts c'"
  using step
proof cases
  case (request i)
  let ?v = "view c (tk_proc (ts i))" and ?L = "sm_chain M (cl_repo c)"
  obtain ph st where s: "task_step D (sm_repo M) P cfg (tk_env (ts i)) (tk_input (ts i)) (cl_phase c i) ?v = (ph, st)" by fastforce
  note A = advance_simps [where ts = ts and i = i and c = c, OF s]
  have K: "step_keeps_ledger D cfg (tk_input (ts i)) (cl_phase c i) ?L (chains st) ph"
    using task_step_keeps [OF _ _ _ _ s] ok request(3) by (simp add: cluster_inv_def)
  then have same: "\<forall>k h. ph = Appending k h \<longrightarrow> chains st = ?L"
    using appends_after_read [of D "sm_repo M" P cfg "tk_env (ts i)" "tk_input (ts i)" "cl_phase c i" ?v] s
    by (auto simp: step_keeps_ledger_def)
  have mine: "calm_phase (tip_hash_of (genesis_hash D cfg) (chains st (tk_chain (ts i)))) ph"
    using task_step_calm [OF _ g limit _ _ s] ok calm request(3) same by (simp add: cluster_inv_def calm_def)
  have "calm_phase (tip_hash_of (genesis_hash D cfg) (chains st (tk_chain (ts j)))) (cl_phase c j)" if "j \<noteq> i" for j
  proof -
    have j: "calm_phase (tip_hash_of (genesis_hash D cfg) (?L (tk_chain (ts j)))) (cl_phase c j)"
      using calm by (simp add: calm_def)
    show ?thesis
    proof (cases "chains st (tk_chain (ts j)) = ?L (tk_chain (ts j))")
      case False
      with K obtain k h where i: "cl_phase c i = Appending k h" "tk_chain (ts j) = tk_chain (ts i)"
        by (auto simp: step_keeps_ledger_def append_only_def)
      with lock_exclusive [OF lock, of i j] that one have "\<not> holds (cl_phase c j)" by auto
      then show ?thesis by (intro calm_phase_other [OF j]) auto
    qed (use j in simp)
  qed
  with mine show ?thesis by (simp add: request(1) A calm_def)
next
  case (background p st)
  with background_frame [OF background(2)] ok calm show ?thesis by (simp add: cluster_inv_def calm_def)
qed

theorem cluster_calm:
  assumes "cluster_reachable D M P cfg ts c c'" and "cluster_inv cfg ts c" and "lock_inv ts c" and "calm cfg ts c"
    and "genesis_hash D cfg \<noteq> []" and "cfg_chain_max_retries cfg \<noteq> 0" and "\<forall>i j. tk_proc (ts i) = tk_proc (ts j)"
  shows "calm cfg ts c'"
  using assms
proof (induction rule: cluster_reachable.induct)
  case (more c c' c'')
  then show ?case
    using cluster_step_calm [OF more.hyps(2)] cluster_keeps [OF more.hyps(1)] lock_inv_reachable [OF more.hyps(1)] by blast
qed

lemma cluster_new_ok:
  assumes "inv s" and "rooted D cfg (sm_chain M s)"
  shows "cluster_inv cfg ts (cluster_new s)" and "calm cfg ts (cluster_new s)"
  using assms by (simp_all add: cluster_inv_def calm_def cluster_new_def)

section \<open>An atomic write is one interleaving\<close>

text \<open>A request that runs alone meets what its append may assume, if it could at the start.\<close>

definition alone :: "app_config \<Rightarrow> publisher \<Rightarrow> task \<Rightarrow> phase \<Rightarrow> 's service_state \<Rightarrow> bool" where
  "alone cfg P tk ph st \<longleftrightarrow> inv (ss_repo st) \<and> rooted D cfg (chains st) \<and> phase_ok D cfg (tk_input tk) (chains st) ph
     \<and> calm_phase (tip_hash_of (genesis_hash D cfg) (chains st (tk_chain tk))) ph
     \<and> (ph = Resolving \<or> (\<exists>r. ph = Returning r \<or> ph = Finished r)
        \<or> write_ready D M P cfg (tk_env tk) (tk_input tk) st)"

lemma alone_ready: "alone cfg P tk ph st \<Longrightarrow> task_ready M P tk ph (ss_repo st)"
  by (cases ph) (auto simp: alone_def task_ready_def unused write_ready_def all_fresh_def all_storable_def write_input_at_def)

lemma step_outbox:
  assumes inv: "inv (ss_repo st)" and step: "task_step D (sm_repo M) P cfg env input ph st = (ph', st')"
    and "\<nexists>k h. ph = Appending k h" and "ph \<noteq> Resolving"
  shows "sm_outbox M (ss_repo st') = sm_outbox M (ss_repo st)"
proof (cases ph)
  case Looking
  show ?thesis
  proof (cases "we_idempotency_key input")
    case (Some key)
    obtain r s' where r: "repo_find_idempotent (sm_repo M) (we_entry_type input) key (ss_repo st) = (r, s')" by fastforce
    with idempotent_law [OF inv r] Looking Some step show ?thesis
      by (auto simp: step_look_def on_repo_def split: sum.splits option.splits)
  qed (use Looking step in \<open>auto simp: step_look_def\<close>)
next
  case (Reading k)
  obtain r s' where r: "repo_get_chain_tip (sm_repo M) (we_entry_type input) (ss_repo st) = (r, s')" by fastforce
  with tip_exact [OF inv r] Reading step show ?thesis
    by (auto simp: step_read_def on_repo_def split: sum.splits repository_error.splits if_splits)
qed (use step assms(3,4) in \<open>auto simp: chain_lock_def\<close>)

lemma write_ready_cong:
  "write_ready D M P cfg env input st \<Longrightarrow> chains st' = chains st \<Longrightarrow>
    sm_outbox M (ss_repo st') = sm_outbox M (ss_repo st) \<Longrightarrow> write_ready D M P cfg env input st'"
  by (simp add: write_ready_def)

lemma alone_step:
  assumes al: "alone cfg P tk ph st" and g: "genesis_hash D cfg \<noteq> []" and limit: "cfg_chain_max_retries cfg \<noteq> 0"
    and step: "task_step D (sm_repo M) P cfg (tk_env tk) (tk_input tk) ph st = (ph', st')"
  shows "alone cfg P tk ph' st'"
proof -
  note ready = alone_ready [OF al]
  have K: "inv (ss_repo st')" "step_keeps_ledger D cfg (tk_input tk) ph (chains st) (chains st') ph'"
    using task_step_keeps [OF _ _ _ ready step] al by (simp_all add: alone_def)
  have "\<forall>k h. ph' = Appending k h \<longrightarrow> chains st' = chains st"
    using K(2) appends_after_read [of D "sm_repo M" P cfg "tk_env tk" "tk_input tk" ph st] step
    by (auto simp: step_keeps_ledger_def)
  with task_step_calm [OF _ g limit _ ready step] al
  have calm: "calm_phase (tip_hash_of (genesis_hash D cfg) (chains st' (tk_chain tk))) ph'" by (simp add: alone_def)
  have "ph' = Resolving \<or> (\<exists>r. ph' = Returning r \<or> ph' = Finished r) \<or> write_ready D M P cfg (tk_env tk) (tk_input tk) st'"
  proof (cases "\<exists>k h. ph = Appending k h")
    case True
    with step calm show ?thesis
      by (auto simp: step_append_def split: prod.splits sum.splits repository_error.splits option.splits if_splits)
  next
    case False
    show ?thesis
    proof (cases "ph = Resolving \<or> (\<exists>r. ph = Returning r \<or> ph = Finished r)")
      case True
      with step show ?thesis by (cases "resolve_conflict D (sm_repo M) (tk_input tk) st") auto
    next
      case late: False
      then have "write_ready D M P cfg (tk_env tk) (tk_input tk) st" using al by (simp add: alone_def)
      moreover have "chains st' = chains st" using K(2) False by (auto simp: step_keeps_ledger_def)
      moreover have "sm_outbox M (ss_repo st') = sm_outbox M (ss_repo st)"
        using step_outbox [OF _ step False] al late by (simp add: alone_def)
      ultimately show ?thesis by (blast intro: write_ready_cong)
    qed
  qed
  with K calm show ?thesis by (simp add: alone_def step_keeps_ledger_def)
qed

lemma cluster_reachable_trans:
  "cluster_reachable D M P cfg ts c' c'' \<Longrightarrow> cluster_reachable D M P cfg ts c c' \<Longrightarrow> cluster_reachable D M P cfg ts c c''"
  by (induction rule: cluster_reachable.induct) (auto intro: cluster_reachable.intros)

text \<open>
  A request that runs alone is ready at each of its steps, so any preorder that has these
  steps relates the start to the end.
\<close>

lemma solo_related:
  assumes "solo D (sm_repo M) P cfg ts i c c'" and "genesis_hash D cfg \<noteq> []" and "cfg_chain_max_retries cfg \<noteq> 0"
    and "alone cfg P (ts i) (cl_phase c i) (view c (tk_proc (ts i)))"
    and refl: "\<And>c. Q c c" and trans: "\<And>a b c. Q a b \<Longrightarrow> Q b c \<Longrightarrow> Q a c"
    and step: "\<And>c. enabled ts i c \<Longrightarrow> task_ready M P (ts i) (cl_phase c i) (cl_repo c) \<Longrightarrow>
      Q c (advance D (sm_repo M) P cfg ts i c)"
  shows "Q c c'"
  using assms(1,4)
proof (induction rule: solo.induct)
  case (move c c')
  let ?p = "tk_proc (ts i)"
  obtain ph st where s: "task_step D (sm_repo M) P cfg (tk_env (ts i)) (tk_input (ts i)) (cl_phase c i) (view c ?p) = (ph, st)"
    by fastforce
  note A = advance_simps [where ts = ts and i = i and c = c, OF s]
  have "alone cfg P (ts i) ph st" by (rule alone_step [OF move.prems assms(2,3) s])
  with move.IH A(2,3) have "Q (advance D (sm_repo M) P cfg ts i c) c'" by simp
  moreover have "Q c (advance D (sm_repo M) P cfg ts i c)"
    using step [OF move.hyps(1)] alone_ready [OF move.prems] by simp
  ultimately show ?case by (rule trans [rotated])
qed (rule refl)

lemma atomic_write_solo:
  assumes start: "cl_phase c i = Checking" "cl_locked c (tk_proc (ts i)) (tk_chain (ts i)) = None"
    and inv: "inv (cl_repo c)" "rooted D cfg (sm_chain M (cl_repo c))"
    and ready: "write_ready D M P cfg (tk_env (ts i)) (tk_input (ts i)) (view c (tk_proc (ts i)))"
    and run: "write_entry D (sm_repo M) P cfg (tk_env (ts i)) (tk_input (ts i)) (view c (tk_proc (ts i))) = (r, st)"
  shows "\<exists>c'. solo D (sm_repo M) P cfg ts i c c' \<and> alone cfg P (ts i) (cl_phase c i) (view c (tk_proc (ts i)))
    \<and> cl_phase c' = (cl_phase c)(i := Finished r) \<and> view c' (tk_proc (ts i)) = st \<and> cl_locked c' = cl_locked c
    \<and> (\<forall>q. q \<noteq> tk_proc (ts i) \<longrightarrow> cl_proc c' q = cl_proc c q)"
proof -
  from solo_task_runs [where ts = ts and i = i and c = c, OF returns_write_entry [OF run] start(1) refl] start(2)
  obtain c' where c': "solo D (sm_repo M) P cfg ts i c c'" "cl_phase c' = (cl_phase c)(i := Finished r)"
    "view c' (tk_proc (ts i)) = st" "cl_locked c' = (cl_locked c)(tk_proc (ts i) := (cl_locked c (tk_proc (ts i)))
        (tk_chain (ts i) := None))"
    "\<forall>q. q \<noteq> tk_proc (ts i) \<longrightarrow> cl_proc c' q = cl_proc c q" by auto
  have "cl_locked c' = cl_locked c" using c'(4) start(2) by (simp add: fun_upd_idem)
  moreover have "alone cfg P (ts i) (cl_phase c i) (view c (tk_proc (ts i)))"
    using start(1) inv ready by (simp add: alone_def)
  ultimately show ?thesis using c'(1-3,5) by blast
qed

theorem atomic_write_reachable:
  assumes start: "cl_phase c i = Checking" "cl_locked c (tk_proc (ts i)) (tk_chain (ts i)) = None"
    and inv: "inv (cl_repo c)" "rooted D cfg (sm_chain M (cl_repo c))"
    and g: "genesis_hash D cfg \<noteq> []" "cfg_chain_max_retries cfg \<noteq> 0"
    and ready: "write_ready D M P cfg (tk_env (ts i)) (tk_input (ts i)) (view c (tk_proc (ts i)))"
    and run: "write_entry D (sm_repo M) P cfg (tk_env (ts i)) (tk_input (ts i)) (view c (tk_proc (ts i))) = (r, st)"
  shows "\<exists>c'. cluster_reachable D M P cfg ts c c' \<and> cl_phase c' = (cl_phase c)(i := Finished r)
    \<and> view c' (tk_proc (ts i)) = st \<and> cl_locked c' = cl_locked c
    \<and> (\<forall>q. q \<noteq> tk_proc (ts i) \<longrightarrow> cl_proc c' q = cl_proc c q)"
proof -
  obtain c' where c': "solo D (sm_repo M) P cfg ts i c c'" "alone cfg P (ts i) (cl_phase c i) (view c (tk_proc (ts i)))"
    "cl_phase c' = (cl_phase c)(i := Finished r) \<and> view c' (tk_proc (ts i)) = st \<and> cl_locked c' = cl_locked c
      \<and> (\<forall>q. q \<noteq> tk_proc (ts i) \<longrightarrow> cl_proc c' q = cl_proc c q)"
    using atomic_write_solo [where ts = ts and i = i and c = c, OF start inv ready run] by blast
  have "cluster_reachable D M P cfg ts c c'"
    by (rule solo_related [OF c'(1) g c'(2)])
      (auto intro: cluster_reachable.intros cluster_step.request cluster_reachable_trans)
  with c'(3) show ?thesis by blast
qed

end

end
