(* ===== verification/Writers_Sample.thy ===== *)
theory Writers_Sample
  imports Postgres_Sample Writers_Correct
begin

text \<open>
  Two requests with the same key, in two processes or in one, on one PostgreSQL database:
  the first appends its entry, the second is answered from the table.
\<close>

definition sample_tasks :: "nat \<Rightarrow> nat \<Rightarrow> task" where
  "sample_tasks q i =
     (if i = 0 then \<lparr>tk_proc = 0, tk_input = sample_input, tk_env = sample_env\<rparr>
      else \<lparr>tk_proc = q, tk_input = sample_input, tk_env = sample_retry_env\<rparr>)"

lemma sample_tasks_simps [simp]:
  "tk_proc (sample_tasks q 0) = 0" "tk_env (sample_tasks q 0) = sample_env" "tk_proc (sample_tasks q (Suc i)) = q"
  "tk_env (sample_tasks q (Suc i)) = sample_retry_env" "tk_input (sample_tasks q i) = sample_input"
  by (simp_all add: sample_tasks_def)

lemma sample_chain: "we_entry_type sample_input = ''agent.decision''"
  by (simp add: sample_input_def)

lemma sample_limit: "cfg_chain_max_retries sample_cfg \<noteq> 0"
  by (simp add: sample_cfg_def)

lemma cluster_new_view: "view (cluster_new s) p = service_new s"
  by (simp add: view_def cluster_new_def service_new_def)

lemma sample_cluster_first:
  "\<exists>c. cluster_reachable sample_D (pg_model sample_E sample_D) sample_publisher sample_cfg (sample_tasks q)
      (cluster_new pg_empty) c
    \<and> cl_phase c = (\<lambda>_. Checking)(0 := Finished (Inr (output_of_entry sample_D sample_entry)))
    \<and> view c 0 = sample_pg_written \<and> cl_locked c = (\<lambda>_ _. None)
    \<and> (\<forall>p. p \<noteq> 0 \<longrightarrow> cl_proc c p = service_new pg_empty)"
proof -
  let ?c = "cluster_new pg_empty"
  have v: "view ?c 0 = sample_pg_start" by (simp add: cluster_new_view sample_pg_start_def)
  have c: "cl_phase ?c = (\<lambda>_. Checking)" "cl_locked ?c = (\<lambda>_ _. None)" "cl_repo ?c = ss_repo sample_pg_start"
    "cl_proc ?c = (\<lambda>_. service_new pg_empty)"
    by (simp_all add: cluster_new_def sample_pg_start_def service_new_def)
  have "system_inv (pg_inv sample_E sample_D) (pg_model sample_E sample_D) sample_D sample_cfg sample_pg_start"
    using pg_system_start [OF sample_pg_env] by (simp add: sample_pg_start_def)
  then have inv: "pg_inv sample_E sample_D (cl_repo ?c)"
    "rooted sample_D sample_cfg (sm_chain (pg_model sample_E sample_D) (cl_repo ?c))"
    unfolding c(3) system_inv_def by simp_all
  have "write_ready sample_D (pg_model sample_E sample_D) sample_publisher sample_cfg (tk_env (sample_tasks q 0))
      (tk_input (sample_tasks q 0)) (view ?c (tk_proc (sample_tasks q 0)))"
    by (simp add: v sample_pg_ready)
  moreover have "write_entry sample_D (sm_repo (pg_model sample_E sample_D)) sample_publisher sample_cfg
      (tk_env (sample_tasks q 0)) (tk_input (sample_tasks q 0)) (view ?c (tk_proc (sample_tasks q 0)))
      = (Inr (output_of_entry sample_D sample_entry), sample_pg_written)"
    by (simp add: v sample_pg_write)
  ultimately show ?thesis
    using pg_system.atomic_write_reachable [of ?c 0 "sample_tasks q", OF _ _ inv sample_genesis sample_limit] c
    by simp
qed


lemma sample_cluster_second:
  "\<exists>c. cluster_reachable sample_D (pg_model sample_E sample_D) sample_publisher sample_cfg (sample_tasks q)
      (cluster_new pg_empty) c
    \<and> cl_phase c = (\<lambda>_. Checking)(0 := Finished (Inr (output_of_entry sample_D sample_entry)),
        1 := Finished (Inr (output_of_entry sample_D sample_entry)))"
proof -
  let ?M = "pg_model sample_E sample_D" and ?ts = "sample_tasks q"
  obtain c where reach: "cluster_reachable sample_D ?M sample_publisher sample_cfg ?ts (cluster_new pg_empty) c"
    and c: "cl_phase c = (\<lambda>_. Checking)(0 := Finished (Inr (output_of_entry sample_D sample_entry)))"
      "view c 0 = sample_pg_written" "cl_locked c = (\<lambda>_ _. None)" "\<forall>p. p \<noteq> 0 \<longrightarrow> cl_proc c p = service_new pg_empty"
    using sample_cluster_first by blast
  let ?v = "view c (tk_proc (?ts 1))"
  have repo: "ss_repo ?v = ss_repo sample_pg_written" "cl_repo c = ss_repo sample_pg_written"
    using arg_cong [OF c(2), of ss_repo] by simp_all
  have "ss_chain_halted ?v ''agent.decision'' = None"
    using c(2,4) sample_pg_unhalted by (cases "q = 0") (simp_all add: view_def service_new_def)
  with sample_pg_repeat [OF repo(1)] obtain st where run: "write_entry sample_D (sm_repo ?M) sample_publisher sample_cfg
      (tk_env (?ts 1)) (tk_input (?ts 1)) ?v = (Inr (output_of_entry sample_D sample_entry), st)" by auto
  have ready: "write_ready sample_D ?M sample_publisher sample_cfg (tk_env (?ts 1)) (tk_input (?ts 1)) ?v"
    using sample_pg_retry_ready by (simp add: write_ready_def repo)
  have inv: "pg_inv sample_E sample_D (cl_repo c)" "rooted sample_D sample_cfg (sm_chain ?M (cl_repo c))"
    using pg_reachable [OF sample_pg_env sample_genesis sample_pg_reachable] by (simp_all add: system_inv_def repo(2))
  have "cl_phase c 1 = Checking" "cl_locked c (tk_proc (?ts 1)) (tk_chain (?ts 1)) = None" by (simp_all add: c(1,3))
  from pg_system.atomic_write_reachable [where ts = ?ts and i = 1 and c = c, OF this inv sample_genesis sample_limit ready run] obtain c' where
    "cluster_reachable sample_D ?M sample_publisher sample_cfg ?ts c c'"
    "cl_phase c' = (cl_phase c)(1 := Finished (Inr (output_of_entry sample_D sample_entry)))" by blast
  with pg_system.cluster_reachable_trans [OF this(1) reach] show ?thesis by (intro exI [of _ c']) (simp add: c(1))
qed

end
