(* ===== verification/Processors.thy ===== *)
theory Processors
  imports Writers_Correct
begin

text \<open>
  Several outbox processors on one repository. Every process runs one (the task that
  \<open>start_outbox_processor\<close> spawns in \<open>src/service/mod.rs\<close>); \<open>outbox_iteration\<close> of
  \<open>Outbox\<close> runs a whole pass in one step, here the pass is taken apart: one step for each
  call to the repository and to the publisher. Processors, writers and readers of any number
  of processes interleave. Nothing reserves an event for a processor, so two of them may hold
  the same one.
\<close>

section \<open>One processor in small steps\<close>

text \<open>
  Where a processor stands: before the next poll; in the loop with the records left, the
  first of which is published next; and after a publish call, before the updates that its
  answer asks for.
\<close>

datatype processor =
    Polling
  | Working "outbox_record list"
  | Marking outbox_record "outbox_record list"
  | Counting outbox_record "outbox_record list"
  | Giving_up outbox_record "outbox_record list"

definition step_publish :: "publisher \<Rightarrow> outbox_record \<Rightarrow> outbox_record list \<Rightarrow> 's service_state \<Rightarrow>
    processor \<times> 's service_state" where
  "step_publish P x xs st =
     (case pub_publish P (length (ss_publish_log st)) x of
        Inr _ \<Rightarrow> (Marking x xs, log_publish x True st)
      | Inl _ \<Rightarrow> (Counting x xs, log_publish x False st))"

fun processor_step :: "publisher \<Rightarrow> 's ledger_repository \<Rightarrow> u32 \<Rightarrow> processor \<Rightarrow> 's service_state \<Rightarrow>
    processor \<times> 's service_state" where
  "processor_step P R max_retries Polling st =
     (case on_repo (repo_pending_outbox R) st of
        (Inl _, st') \<Rightarrow> (Polling, sleep 500 st')
      | (Inr pending, st') \<Rightarrow> (Working pending, st'))"
| "processor_step P R max_retries (Working []) st = (Polling, sleep 500 st)"
| "processor_step P R max_retries (Working (x # xs)) st = step_publish P x xs st"
| "processor_step P R max_retries (Marking x xs) st =
     (case on_repo (repo_mark_outbox_delivered R (ob_outbox_id x)) st of
        (Inl _, st') \<Rightarrow> (Working xs, inc_publish_failure st')
      | (Inr _, st') \<Rightarrow> (Working xs, st'))"
| "processor_step P R max_retries (Counting x xs) st =
     (case on_repo (repo_increment_outbox_attempt R (ob_outbox_id x)) st of
        (_, st') \<Rightarrow>
          let next_attempt = ob_attempt_count x + 1
          in if next_attempt \<ge> sint max_retries then (Giving_up x xs, st')
             else (Working xs, inc_publish_failure (sleep (publish_backoff next_attempt) st')))"
| "processor_step P R max_retries (Giving_up x xs) st =
     (case on_repo (repo_mark_outbox_failed R (ob_outbox_id x)) st of
        (_, st') \<Rightarrow> (Working xs, inc_publish_failure st'))"

section \<open>A processor that runs alone\<close>

inductive processor_runs :: "publisher \<Rightarrow> 's ledger_repository \<Rightarrow> u32 \<Rightarrow>
    processor \<Rightarrow> 's service_state \<Rightarrow> processor \<Rightarrow> 's service_state \<Rightarrow> bool" for P R m where
  rests: "processor_runs P R m q st q st"
| moves: "processor_step P R m q st = (q1, st1) \<Longrightarrow> processor_runs P R m q1 st1 q2 st2 \<Longrightarrow>
    processor_runs P R m q st q2 st2"

lemma processor_runs_trans:
  "processor_runs P R m q st q1 st1 \<Longrightarrow> processor_runs P R m q1 st1 q2 st2 \<Longrightarrow> processor_runs P R m q st q2 st2"
  by (induction rule: processor_runs.induct) (auto intro: processor_runs.intros)

lemma processor_moves: "processor_step P R m q st = (q1, st1) \<Longrightarrow> processor_runs P R m q st q1 st1"
  by (auto intro: processor_runs.intros)

text \<open>The small steps for one record do what \<open>process_record\<close> does.\<close>

lemma processor_record:
  "processor_runs P R m (Working (x # xs)) st (Working xs) (process_record P R m x st)"
proof (cases "pub_publish P (length (ss_publish_log st)) x")
  case (Inr u)
  let ?st = "log_publish x True st"
  have "processor_step P R m (Working (x # xs)) st = (Marking x xs, ?st)" by (simp add: step_publish_def Inr)
  moreover have "processor_step P R m (Marking x xs) ?st = (Working xs, process_record P R m x st)"
    by (simp add: process_record_def publish_one_def Inr split: prod.split sum.split)
  ultimately show ?thesis by (blast intro: processor_runs.intros)
next
  case (Inl err)
  let ?st = "log_publish x False st"
  obtain r st1 where inc: "on_repo (repo_increment_outbox_attempt R (ob_outbox_id x)) ?st = (r, st1)" by fastforce
  have start: "processor_step P R m (Working (x # xs)) st = (Counting x xs, ?st)" by (simp add: step_publish_def Inl)
  show ?thesis
  proof (cases "sint m \<le> ob_attempt_count x + 1")
    case True
    have "processor_step P R m (Counting x xs) ?st = (Giving_up x xs, st1)" using True by (simp add: inc)
    moreover have "processor_step P R m (Giving_up x xs) st1 = (Working xs, process_record P R m x st)"
      using True by (simp add: process_record_def publish_one_def Inl inc split: prod.split)
    ultimately show ?thesis using start by (blast intro: processor_runs.intros)
  next
    case False
    then have "processor_step P R m (Counting x xs) ?st = (Working xs, process_record P R m x st)"
      by (simp add: process_record_def publish_one_def Inl inc)
    with start show ?thesis by (blast intro: processor_runs.intros)
  qed
qed

lemma processor_records: "processor_runs P R m (Working xs) st (Working []) (fold (process_record P R m) xs st)"
  by (induction xs arbitrary: st) (auto intro: processor_runs.rests processor_runs_trans [OF processor_record])

theorem processor_pass:
  "processor_runs P R (cfg_outbox_max_retries cfg) Polling st Polling (outbox_iteration P R cfg st)"
proof -
  obtain r st1 where poll: "on_repo (repo_pending_outbox R) st = (r, st1)" by fastforce
  show ?thesis
  proof (cases r)
    case (Inl err)
    then show ?thesis by (intro processor_moves) (simp add: outbox_iteration_def poll)
  next
    case (Inr xs)
    have "processor_runs P R (cfg_outbox_max_retries cfg) Polling st (Working xs) st1"
      by (intro processor_moves) (simp add: poll Inr)
    moreover have "processor_runs P R (cfg_outbox_max_retries cfg) (Working []) st2 Polling (sleep 500 st2)" for st2
      by (intro processor_moves) simp
    ultimately show ?thesis
      using processor_records [of P R "cfg_outbox_max_retries cfg" xs st1]
      by (auto simp: outbox_iteration_def poll Inr intro: processor_runs_trans)
  qed
qed

section \<open>Processes with writers, readers and processors\<close>

record 's fleet =
  fl_cluster :: "'s cluster"
  fl_processor :: "nat \<Rightarrow> processor"

definition fleet_new :: "'s \<Rightarrow> 's fleet" where
  "fleet_new s = \<lparr>fl_cluster = cluster_new s, fl_processor = (\<lambda>_. Polling)\<rparr>"

text \<open>The sink may answer every process differently: \<open>Ps p\<close> is the publisher of process \<open>p\<close>.\<close>

inductive fleet_step ::
    "third_party \<Rightarrow> 's store_model \<Rightarrow> (nat \<Rightarrow> publisher) \<Rightarrow> app_config \<Rightarrow> (nat \<Rightarrow> task) \<Rightarrow> 's fleet \<Rightarrow> 's fleet \<Rightarrow> bool"
  for D M Ps cfg ts where
  request: "enabled ts i (fl_cluster f) \<Longrightarrow>
    task_ready M (Ps (tk_proc (ts i))) (ts i) (cl_phase (fl_cluster f) i) (cl_repo (fl_cluster f)) \<Longrightarrow>
    fleet_step D M Ps cfg ts f
      (f\<lparr>fl_cluster := advance D (sm_repo M) (Ps (tk_proc (ts i))) cfg ts i (fl_cluster f)\<rparr>)"
| reads: "read_step D M cfg (view (fl_cluster f) p) st \<Longrightarrow>
    fleet_step D M Ps cfg ts f (f\<lparr>fl_cluster := put p st (fl_cluster f)\<rparr>)"
| publishes: "starts_outbox_processor (Ps p) \<Longrightarrow>
    processor_step (Ps p) (sm_repo M) (cfg_outbox_max_retries cfg) (fl_processor f p) (view (fl_cluster f) p) = (q, st) \<Longrightarrow>
    fleet_step D M Ps cfg ts f
      (f\<lparr>fl_cluster := put p st (fl_cluster f), fl_processor := (fl_processor f)(p := q)\<rparr>)"

inductive fleet_reachable ::
    "third_party \<Rightarrow> 's store_model \<Rightarrow> (nat \<Rightarrow> publisher) \<Rightarrow> app_config \<Rightarrow> (nat \<Rightarrow> task) \<Rightarrow> 's fleet \<Rightarrow> 's fleet \<Rightarrow> bool"
  for D M Ps cfg ts where
  start: "fleet_reachable D M Ps cfg ts f f"
| more: "fleet_reachable D M Ps cfg ts f f' \<Longrightarrow> fleet_step D M Ps cfg ts f' f'' \<Longrightarrow>
    fleet_reachable D M Ps cfg ts f f''"

lemma fleet_reachable_trans:
  "fleet_reachable D M Ps cfg ts f' f'' \<Longrightarrow> fleet_reachable D M Ps cfg ts f f' \<Longrightarrow> fleet_reachable D M Ps cfg ts f f''"
  by (induction rule: fleet_reachable.induct) (auto intro: fleet_reachable.intros)

text \<open>The publish calls a process has made.\<close>

definition calls :: "'s fleet \<Rightarrow> nat \<Rightarrow> (outbox_record \<times> bool) list" where
  "calls f p = ss_publish_log (cl_proc (fl_cluster f) p)"

lemma calls_put: "calls (f\<lparr>fl_cluster := put p st c\<rparr>) q = (if q = p then ss_publish_log st else ss_publish_log (cl_proc c q))"
  by (simp add: calls_def put_def)

lemma view_log [simp]: "ss_publish_log (view (fl_cluster f) p) = calls f p"
  by (simp add: calls_def view_def)

section \<open>What events may become\<close>

definition same_event :: "outbox_record \<Rightarrow> outbox_record \<Rightarrow> bool" where
  "same_event x y \<longleftrightarrow> ob_outbox_id x = ob_outbox_id y \<and> ob_entry_id x = ob_entry_id y
     \<and> ob_entry_type x = ob_entry_type y \<and> ob_payload x = ob_payload y"

text \<open>No event disappears or changes its contents, and none that was settled is pending again.\<close>

definition events_move :: "outboxes \<Rightarrow> outboxes \<Rightarrow> bool" where
  "events_move ob ob' \<longleftrightarrow> (\<forall>i x. ob i = Some x \<longrightarrow>
     (\<exists>y. ob' i = Some y \<and> same_event x y \<and> ob_attempt_count x \<le> ob_attempt_count y
        \<and> (ob_status x \<noteq> Pending \<longrightarrow> ob_status y \<noteq> Pending)))"

text \<open>The event describes the entry.\<close>

definition describes :: "third_party \<Rightarrow> outbox_record \<Rightarrow> ledger_entry_record \<Rightarrow> bool" where
  "describes D x e \<longleftrightarrow> ob_entry_id x = le_entry_id e \<and> ob_entry_type x = le_entry_type e
     \<and> (\<exists>event_id. ob_payload x = ledger_written_payload D event_id
          \<lparr>lp_entry_id = le_entry_id e, lp_entry_type = le_entry_type e, lp_agent_id = le_agent_id e,
           lp_source_id = le_source_id e, lp_entry_hash = le_entry_hash e, lp_hash_version = le_hash_version e,
           lp_correlation_id = le_correlation_id e, lp_written_ts_ms = timestamp_millis D (le_written_ts e)\<rparr>)"

definition events_backed :: "third_party \<Rightarrow> ledger \<Rightarrow> outboxes \<Rightarrow> bool" where
  "events_backed D L ob \<longleftrightarrow>
     (\<forall>i x. ob i = Some x \<longrightarrow> ob_outbox_id x = i \<and> (\<exists>e \<in> set (L (ob_entry_type x)). describes D x e))"

definition known :: "outboxes \<Rightarrow> outbox_record \<Rightarrow> bool" where
  "known ob y \<longleftrightarrow> (\<exists>x. ob (ob_outbox_id y) = Some x \<and> same_event x y)"

definition accepted :: "outboxes \<Rightarrow> (nat \<Rightarrow> (outbox_record \<times> bool) list) \<Rightarrow> bool" where
  "accepted ob logs \<longleftrightarrow> (\<forall>i x. ob i = Some x \<longrightarrow> ob_status x = Delivered \<longrightarrow>
     (\<exists>p y. (y, True) \<in> set (logs p) \<and> ob_outbox_id y = i))"

lemma same_event_refl [simp]: "same_event x x"
  by (simp add: same_event_def)

lemma same_event_update [simp]:
  "same_event x (x\<lparr>ob_status := s\<rparr>)" "same_event x (x\<lparr>ob_attempt_count := n\<rparr>)"
  by (simp_all add: same_event_def)

lemma events_move_refl [simp]: "events_move ob ob"
  by (simp add: events_move_def)

lemma same_event_trans: "same_event x y \<Longrightarrow> same_event y z \<Longrightarrow> same_event x z"
  by (simp add: same_event_def)

lemma same_event_sym: "same_event x y \<Longrightarrow> same_event y x"
  by (simp add: same_event_def)

lemma same_event_describes: "same_event x y \<Longrightarrow> describes D x e \<Longrightarrow> describes D y e"
  by (simp add: same_event_def describes_def)

lemma events_moveE:
  assumes "events_move ob ob'" and "ob i = Some x"
  obtains y where "ob' i = Some y" and "same_event x y" and "ob_attempt_count x \<le> ob_attempt_count y"
    and "ob_status x \<noteq> Pending \<longrightarrow> ob_status y \<noteq> Pending"
  using assms unfolding events_move_def by blast

lemma events_move_trans:
  assumes "events_move ob ob1" and "events_move ob1 ob2"
  shows "events_move ob ob2"
  unfolding events_move_def
proof (intro allI impI)
  fix i x assume "ob i = Some x"
  with assms(1) obtain y where y: "ob1 i = Some y" "same_event x y" "ob_attempt_count x \<le> ob_attempt_count y"
    "ob_status x \<noteq> Pending \<longrightarrow> ob_status y \<noteq> Pending" by (rule events_moveE)
  from assms(2) y(1) obtain z where "ob2 i = Some z" "same_event y z" "ob_attempt_count y \<le> ob_attempt_count z"
    "ob_status y \<noteq> Pending \<longrightarrow> ob_status z \<noteq> Pending" by (rule events_moveE)
  with y same_event_trans show "\<exists>z. ob2 i = Some z \<and> same_event x z \<and> ob_attempt_count x \<le> ob_attempt_count z
      \<and> (ob_status x \<noteq> Pending \<longrightarrow> ob_status z \<noteq> Pending)" by fastforce
qed

lemma events_move_new: "ob i = None \<Longrightarrow> events_move ob (ob(i \<mapsto> y))"
  by (auto simp: events_move_def)

lemma events_move_update:
  "ob i = Some x \<Longrightarrow> same_event x y \<Longrightarrow> ob_attempt_count x \<le> ob_attempt_count y \<Longrightarrow>
    (ob_status x \<noteq> Pending \<longrightarrow> ob_status y \<noteq> Pending) \<Longrightarrow> events_move ob (ob(i \<mapsto> y))"
  by (auto simp: events_move_def)

lemma known_moves: "events_move ob ob' \<Longrightarrow> known ob y \<Longrightarrow> known ob' y"
  unfolding known_def by (blast elim: events_moveE intro: same_event_trans same_event_sym)

lemma events_backed_moves:
  assumes "events_backed D L ob" and "events_move ob ob'" and "dom ob' \<subseteq> dom ob"
  shows "events_backed D L ob'"
  unfolding events_backed_def
proof (intro allI impI)
  fix i y assume y: "ob' i = Some y"
  with assms(3) obtain x where x: "ob i = Some x" by blast
  with assms(2) y have s: "same_event x y" by (auto elim: events_moveE)
  from assms(1) x obtain e where "ob_outbox_id x = i" "e \<in> set (L (ob_entry_type x))" "describes D x e"
    by (auto simp: events_backed_def)
  with s same_event_describes [OF s] show "ob_outbox_id y = i \<and> (\<exists>e \<in> set (L (ob_entry_type y)). describes D y e)"
    by (auto simp: same_event_def)
qed

lemma known_backed:
  assumes "known ob y" and "events_backed D L ob"
  shows "\<exists>e \<in> set (L (ob_entry_type y)). describes D y e"
proof -
  from assms(1) obtain x where x: "ob (ob_outbox_id y) = Some x" "same_event x y" by (auto simp: known_def)
  with assms(2) obtain e where "e \<in> set (L (ob_entry_type x))" "describes D x e" by (auto simp: events_backed_def)
  with x(2) same_event_describes [OF x(2)] show ?thesis by (auto simp: same_event_def)
qed

lemma events_backed_extends: "events_backed D L ob \<Longrightarrow> extends L L' \<Longrightarrow> events_backed D L' ob"
  unfolding events_backed_def extends_def by (metis UnI1 set_append)

lemma next_outbox_describes: "describes D (next_outbox D L d w) (next_entry D L d w)"
  by (auto simp: describes_def next_outbox_def new_outbox_def next_entry_def new_entry_def)

lemma events_backed_append:
  assumes "events_backed D L ob"
  shows "events_backed D (append_entry D L d w) (append_outbox D L ob d w)"
proof -
  have "ob_entry_type (next_outbox D L d w) = wi_entry_type w" "ob_outbox_id (next_outbox D L d w) = dr_outbox_id d"
    by (simp_all add: next_outbox_def new_outbox_def)
  moreover have "events_backed D (append_entry D L d w) ob"
    by (rule events_backed_extends [OF assms]) (auto simp: extends_def append_entry_def)
  moreover have "next_entry D L d w \<in> set (append_entry D L d w (wi_entry_type w))" by (simp add: append_entry_def)
  ultimately show ?thesis
    using next_outbox_describes [of D L d w] by (auto simp: events_backed_def append_outbox_def)
qed

section \<open>What a step does to the events\<close>

fun held :: "processor \<Rightarrow> outbox_record list" where
  "held Polling = []"
| "held (Working xs) = xs"
| "held (Marking x xs) = x # xs"
| "held (Counting x xs) = x # xs"
| "held (Giving_up x xs) = x # xs"

text \<open>A processor holds events of the outbox, and marks what it saw accepted.\<close>

definition processor_ok :: "outboxes \<Rightarrow> (outbox_record \<times> bool) list \<Rightarrow> processor \<Rightarrow> bool" where
  "processor_ok ob cs q \<longleftrightarrow> (\<forall>y \<in> set (held q). known ob y)
     \<and> (\<forall>x xs. q = Marking x xs \<longrightarrow> (x, True) \<in> set cs)"

lemma processor_ok_moves:
  "processor_ok ob cs q \<Longrightarrow> events_move ob ob' \<Longrightarrow> set cs \<subseteq> set cs' \<Longrightarrow> processor_ok ob' cs' q"
  by (auto simp: processor_ok_def intro: known_moves)

text \<open>
  Events move on, calls are made only for events of the outbox, and whatever is delivered
  now was delivered before or has been accepted.
\<close>

definition events_step :: "outboxes \<Rightarrow> (outbox_record \<times> bool) list \<Rightarrow> outboxes \<Rightarrow> (outbox_record \<times> bool) list \<Rightarrow> bool" where
  "events_step ob cs ob' cs' \<longleftrightarrow> events_move ob ob' \<and> set cs \<subseteq> set cs'
     \<and> (\<forall>(y, ok) \<in> set cs'. (y, ok) \<in> set cs \<or> known ob y)
     \<and> (\<forall>i x. ob' i = Some x \<longrightarrow> ob_status x = Delivered \<longrightarrow>
          (\<exists>z. ob i = Some z \<and> ob_status z = Delivered) \<or> (\<exists>y. (y, True) \<in> set cs' \<and> ob_outbox_id y = i))"

lemma events_step_refl [simp]: "events_step ob cs ob cs"
  by (auto simp: events_step_def)

lemma events_step_call: "known ob x \<Longrightarrow> events_step ob cs ob (cs @ [(x, ok)])"
  by (auto simp: events_step_def)

lemma events_step_update:
  assumes "ob i = Some x" and "same_event x y" and "ob_attempt_count x \<le> ob_attempt_count y"
    and "ob_status x \<noteq> Pending \<longrightarrow> ob_status y \<noteq> Pending"
    and "ob_status y = Delivered \<Longrightarrow> ob_status x = Delivered \<or> (\<exists>z. (z, True) \<in> set cs \<and> ob_outbox_id z = i)"
  shows "events_step ob cs (ob(i \<mapsto> y)) cs"
  using events_move_update [where ob = ob, OF assms(1-4)] assms(1,5) by (auto simp: events_step_def)

lemma events_step_append:
  assumes "fresh_draws L ob d"
  shows "events_step ob cs (append_outbox D L ob d w) cs"
proof -
  have "ob_status (next_outbox D L d w) = Pending" by (simp add: next_outbox_def new_outbox_def)
  with assms events_move_new [of ob "dr_outbox_id d"] show ?thesis
    by (auto simp: events_step_def append_outbox_def fresh_draws_def)
qed

lemma task_step_log:
  assumes "task_step D R P cfg env input ph st = (ph', st')"
  shows "ss_publish_log st' = ss_publish_log st"
  using assms by (cases ph)
    (auto simp: step_look_def step_read_def step_append_def resolve_conflict_def on_repo_def sleep_def chain_lock_def
      split: option.splits if_splits sum.splits prod.splits repository_error.splits)

context ledger_system
begin

text \<open>Writers add events together with the entries they describe.\<close>

lemma task_step_events:
  assumes inv: "inv (ss_repo st)" and ready: "task_ready M P tk ph (ss_repo st)"
    and same: "(\<nexists>k h. ph = Appending k h) \<Longrightarrow> chains st' = chains st"
    and step: "task_step D (sm_repo M) P cfg (tk_env tk) (tk_input tk) ph st = (ph', st')"
  shows "events_step (sm_outbox M (ss_repo st)) cs (sm_outbox M (ss_repo st')) cs
    \<and> (events_backed D (chains st) (sm_outbox M (ss_repo st)) \<longrightarrow> events_backed D (chains st') (sm_outbox M (ss_repo st')))"
proof -
  let ?ob = "sm_outbox M (ss_repo st)"
  consider k h where "ph = Appending k h" | "ph = Resolving" | "ph \<noteq> Resolving" "\<nexists>k h. ph = Appending k h" by blast
  then show ?thesis
  proof cases
    case (1 k h)
    let ?w = "entry_write_input_of P (tk_input tk) h (en_now (tk_env tk) k)" and ?d = "en_draws (tk_env tk) k"
    let ?kept = "clip_input clip ?w"
    from ready 1 have fresh: "fresh_draws (chains st) ?ob ?d" and keep: "sm_storable M ?w" by (simp_all add: task_ready_def unused)
    obtain r s' where r: "repo_write_entry_with_outbox (sm_repo M) ?d ?w (ss_repo st) = (r, s')" by fastforce
    from step 1 r have s': "ss_repo st' = s'"
      by (auto simp: step_append_def on_repo_def sleep_def split: sum.splits repository_error.splits if_splits option.splits)
    from write_law [OF inv fresh keep r] consider "sm_chain M s' = chains st" "sm_outbox M s' = ?ob"
      | "sm_chain M s' = append_entry D (chains st) ?d ?kept" "sm_outbox M s' = append_outbox D (chains st) ?ob ?d ?kept"
      by (auto simp: write_spec_def Let_def split: sum.splits repository_error.splits)
    then show ?thesis
      by cases (simp_all add: s' events_step_append [OF fresh] events_backed_append)
  next
    case 2
    have "sm_outbox M (ss_repo st') = ?ob"
    proof (cases "we_idempotency_key (tk_input tk)")
      case (Some key)
      obtain r s' where r: "repo_find_idempotent (sm_repo M) (tk_chain tk) key (ss_repo st) = (r, s')" by fastforce
      with idempotent_law [OF inv r] 2 Some step show ?thesis
        by (auto simp: resolve_conflict_def on_repo_def split: sum.splits option.splits if_splits)
    qed (use 2 step in \<open>auto simp: resolve_conflict_def\<close>)
    with same 2 show ?thesis by simp
  next
    case 3
    with step_outbox [OF inv step] same show ?thesis by simp
  qed
qed

end

text \<open>
  With several processors an event may be settled by one while another still holds it. So,
  beyond \<open>outbox_store\<close>, marking must be harmless whatever the status has become.
\<close>

locale shared_outbox = ledger_system M inv reliable D clip
  for M :: "'s store_model" and inv :: "'s \<Rightarrow> bool" and reliable :: bool and D :: third_party
    and clip :: "datetime \<Rightarrow> datetime" +
  assumes delivered_any: "inv s \<Longrightarrow> sm_outbox M s i = Some x \<Longrightarrow>
      repo_mark_outbox_delivered (sm_repo M) i s = (r, s') \<Longrightarrow>
      inv s' \<and> sm_chain M s' = sm_chain M s
      \<and> (sm_outbox M s' = sm_outbox M s \<or> sm_outbox M s' = (sm_outbox M s)(i \<mapsto> x\<lparr>ob_status := Delivered\<rparr>))"
begin

definition processor_keeps :: "'s service_state \<Rightarrow> processor \<Rightarrow> 's service_state \<Rightarrow> bool" where
  "processor_keeps st q st' \<longleftrightarrow> inv (ss_repo st') \<and> chains st' = chains st
     \<and> events_step (sm_outbox M (ss_repo st)) (ss_publish_log st) (sm_outbox M (ss_repo st')) (ss_publish_log st')
     \<and> dom (sm_outbox M (ss_repo st')) \<subseteq> dom (sm_outbox M (ss_repo st))
     \<and> processor_ok (sm_outbox M (ss_repo st')) (ss_publish_log st') q"

lemma processor_keepsI:
  assumes "inv (ss_repo st')" and "chains st' = chains st"
    and "events_step (sm_outbox M (ss_repo st)) (ss_publish_log st) (sm_outbox M (ss_repo st')) (ss_publish_log st')"
    and "dom (sm_outbox M (ss_repo st')) \<subseteq> dom (sm_outbox M (ss_repo st))"
    and "processor_ok (sm_outbox M (ss_repo st)) (ss_publish_log st) q'" and "set (held q) \<subseteq> set (held q')"
    and "\<And>x xs. q = Marking x xs \<Longrightarrow> (x, True) \<in> set (ss_publish_log st')"
  shows "processor_keeps st q st'"
proof -
  have "events_move (sm_outbox M (ss_repo st)) (sm_outbox M (ss_repo st'))" using assms(3) by (simp add: events_step_def)
  with assms(5-7) known_moves have "processor_ok (sm_outbox M (ss_repo st')) (ss_publish_log st') q"
    unfolding processor_ok_def by blast
  with assms(1-4) show ?thesis by (simp add: processor_keeps_def)
qed

lemma update_keeps:
  assumes ok: "processor_ok (sm_outbox M (ss_repo st)) (ss_publish_log st) q'" and "x \<in> set (held q')"
    and "inv s'" "sm_chain M s' = chains st" and "sm_outbox M (ss_repo st) (ob_outbox_id x) = Some z"
    and move: "sm_outbox M s' = sm_outbox M (ss_repo st) \<or> sm_outbox M s' = (sm_outbox M (ss_repo st))(ob_outbox_id x \<mapsto> y)"
    and y: "same_event z y" "ob_attempt_count z \<le> ob_attempt_count y" "ob_status z \<noteq> Pending \<longrightarrow> ob_status y \<noteq> Pending"
      "ob_status y = Delivered \<Longrightarrow> ob_status z = Delivered \<or> (x, True) \<in> set (ss_publish_log st)"
    and q: "set (held q) \<subseteq> set (held q')" "\<nexists>x xs. q = Marking x xs"
    and st': "ss_repo st' = s'" "ss_publish_log st' = ss_publish_log st"
  shows "processor_keeps st q st'"
proof (rule processor_keepsI)
  let ?ob = "sm_outbox M (ss_repo st)"
  have "events_step ?ob (ss_publish_log st) (?ob(ob_outbox_id x \<mapsto> y)) (ss_publish_log st)"
    by (rule events_step_update [where ob = ?ob, OF assms(5) y(1-3)]) (use y(4) in blast)
  with move st' show "events_step ?ob (ss_publish_log st) (sm_outbox M (ss_repo st')) (ss_publish_log st')" by auto
  show "dom (sm_outbox M (ss_repo st')) \<subseteq> dom ?ob" using move st' assms(5) by (auto split: if_splits)
qed (use assms in auto)

lemma processor_step_keeps:
  assumes inv: "inv (ss_repo st)" and ok: "processor_ok (sm_outbox M (ss_repo st)) (ss_publish_log st) q"
    and step: "processor_step P (sm_repo M) m q st = (q', st')"
  shows "processor_keeps st q' st'"
proof -
  have event: "\<exists>z. sm_outbox M (ss_repo st) (ob_outbox_id x) = Some z" if "x \<in> set (held q)" for x
    using ok that by (auto simp: processor_ok_def known_def)
  show ?thesis
  proof (cases q)
    case Polling
    obtain r s' where r: "repo_pending_outbox (sm_repo M) (ss_repo st) = (r, s')" by fastforce
    note L = pending_law [OF inv r]
    have "\<forall>y \<in> set xs. known (sm_outbox M (ss_repo st)) y" if "r = Inr xs" for xs
      using L that outbox_key [OF inv] by (fastforce simp: known_def ran_def)
    with L step r Polling show ?thesis
      by (auto simp: on_repo_def sleep_def processor_keeps_def processor_ok_def split: sum.splits)
  next
    case (Working xs)
    show ?thesis
    proof (cases xs)
      case Nil
      with Working step inv show ?thesis by (auto simp: sleep_def processor_keeps_def processor_ok_def)
    next
      case (Cons x ys)
      have x: "known (sm_outbox M (ss_repo st)) x" using ok Working Cons by (simp add: processor_ok_def)
      show ?thesis
        by (rule processor_keepsI [OF _ _ _ _ ok])
          (use step Working Cons inv events_step_call [OF x] in
            \<open>auto simp: step_publish_def log_publish_def split: sum.splits\<close>)
    qed
  next
    case (Marking x xs)
    obtain z where z: "sm_outbox M (ss_repo st) (ob_outbox_id x) = Some z" using event Marking by auto
    obtain r s' where r: "repo_mark_outbox_delivered (sm_repo M) (ob_outbox_id x) (ss_repo st) = (r, s')" by fastforce
    note L = delivered_any [OF inv z r]
    have "(x, True) \<in> set (ss_publish_log st)" using ok Marking by (simp add: processor_ok_def)
    then show ?thesis
      by (intro update_keeps [OF ok _ _ _ z, where y = "z\<lparr>ob_status := Delivered\<rparr>" and s' = s'])
        (use L step r Marking in \<open>auto simp: on_repo_def inc_publish_failure_def split: sum.splits\<close>)
  next
    case (Counting x xs)
    obtain z where z: "sm_outbox M (ss_repo st) (ob_outbox_id x) = Some z" using event Counting by auto
    obtain r s' where r: "repo_increment_outbox_attempt (sm_repo M) (ob_outbox_id x) (ss_repo st) = (r, s')" by fastforce
    note L = increment_law [OF inv z r]
    show ?thesis
      by (intro update_keeps [OF ok _ _ _ z, where y = "z\<lparr>ob_attempt_count := ob_attempt_count z + 1\<rparr>" and s' = s'])
        (use L step r Counting in \<open>auto simp: on_repo_def inc_publish_failure_def sleep_def Let_def split: if_splits\<close>)
  next
    case (Giving_up x xs)
    obtain z where z: "sm_outbox M (ss_repo st) (ob_outbox_id x) = Some z" using event Giving_up by auto
    obtain r s' where r: "repo_mark_outbox_failed (sm_repo M) (ob_outbox_id x) (ss_repo st) = (r, s')" by fastforce
    note L = failed_law [OF inv z r]
    show ?thesis
      by (intro update_keeps [OF ok _ _ _ z, where y = "z\<lparr>ob_status := Failed\<rparr>" and s' = s'])
        (use L step r Giving_up in \<open>auto simp: on_repo_def inc_publish_failure_def\<close>)
  qed
qed

section \<open>The invariant of the fleet\<close>

definition fleet_inv :: "app_config \<Rightarrow> (nat \<Rightarrow> task) \<Rightarrow> 's fleet \<Rightarrow> bool" where
  "fleet_inv cfg ts f \<longleftrightarrow> cluster_inv cfg ts (fl_cluster f)
     \<and> events_backed D (sm_chain M (cl_repo (fl_cluster f))) (sm_outbox M (cl_repo (fl_cluster f)))
     \<and> accepted (sm_outbox M (cl_repo (fl_cluster f))) (calls f)
     \<and> (\<forall>p. \<forall>(y, ok) \<in> set (calls f p). known (sm_outbox M (cl_repo (fl_cluster f))) y)
     \<and> (\<forall>p. processor_ok (sm_outbox M (cl_repo (fl_cluster f))) (calls f p) (fl_processor f p))"

text \<open>A step of one process, of whatever kind.\<close>

lemma fleet_move:
  assumes fl: "fleet_inv cfg ts f" and c': "cluster_inv cfg ts (fl_cluster f')"
    and ob: "ob = sm_outbox M (cl_repo (fl_cluster f))" "ob' = sm_outbox M (cl_repo (fl_cluster f'))"
    and backed: "events_backed D (sm_chain M (cl_repo (fl_cluster f'))) ob'"
    and ev: "events_step ob (calls f p) ob' (calls f' p)"
    and rest: "\<And>q. q \<noteq> p \<Longrightarrow> calls f' q = calls f q" "\<And>q. q \<noteq> p \<Longrightarrow> fl_processor f' q = fl_processor f q"
    and own: "processor_ok ob' (calls f' p) (fl_processor f' p)"
  shows "fleet_inv cfg ts f' \<and> events_move ob ob'"
proof -
  have mv: "events_move ob ob'" and sub: "set (calls f p) \<subseteq> set (calls f' p)" using ev by (simp_all add: events_step_def)
  have keep: "set (calls f q) \<subseteq> set (calls f' q)" for q using sub rest(1) [of q] by (cases "q = p") simp_all
  have old: "known ob y" if "(y, ok) \<in> set (calls f q)" for q y ok using fl that ob(1) by (auto simp: fleet_inv_def)
  have "known ob' y" if "(y, ok) \<in> set (calls f' q)" for q y ok
  proof (rule known_moves [OF mv])
    show "known ob y"
      using that old ev rest(1) [of q] by (cases "q = p") (auto simp: events_step_def)
  qed
  moreover have "processor_ok ob' (calls f' q) (fl_processor f' q)" for q
    using own rest(2) [of q] fl ob(1) processor_ok_moves [OF _ mv keep] by (cases "q = p") (simp_all add: fleet_inv_def)
  moreover have "accepted ob' (calls f')"
    unfolding accepted_def
  proof (intro allI impI)
    fix i x assume "ob' i = Some x" "ob_status x = Delivered"
    with ev have "(\<exists>z. ob i = Some z \<and> ob_status z = Delivered) \<or> (\<exists>y. (y, True) \<in> set (calls f' p) \<and> ob_outbox_id y = i)"
      unfolding events_step_def by blast
    then consider z where "ob i = Some z" "ob_status z = Delivered" | y where "(y, True) \<in> set (calls f' p)" "ob_outbox_id y = i"
      by blast
    then show "\<exists>p y. (y, True) \<in> set (calls f' p) \<and> ob_outbox_id y = i"
    proof cases
      case 1
      with fl ob(1) obtain q y where "(y, True) \<in> set (calls f q)" "ob_outbox_id y = i"
        unfolding fleet_inv_def accepted_def by blast
      with keep show ?thesis by blast
    qed blast
  qed
  ultimately show ?thesis using c' backed mv ob(2) by (auto simp: fleet_inv_def)
qed

lemma fleet_step_keeps:
  assumes step: "fleet_step D M Ps cfg ts f f'" and fl: "fleet_inv cfg ts f"
  shows "fleet_inv cfg ts f' \<and> events_move (sm_outbox M (cl_repo (fl_cluster f))) (sm_outbox M (cl_repo (fl_cluster f')))
    \<and> extends (sm_chain M (cl_repo (fl_cluster f))) (sm_chain M (cl_repo (fl_cluster f')))"
proof -
  let ?c = "fl_cluster f" and ?ob = "sm_outbox M (cl_repo (fl_cluster f))"
  have c: "cluster_inv cfg ts ?c" "inv (cl_repo ?c)" using fl by (simp_all add: fleet_inv_def cluster_inv_def)
  have backed: "events_backed D (sm_chain M (cl_repo ?c)) ?ob" and own: "processor_ok ?ob (calls f p) (fl_processor f p)" for p
    using fl by (simp_all add: fleet_inv_def)
  from step show ?thesis
  proof cases
    case (request i)
    let ?p = "tk_proc (ts i)"
    have up: "cluster_step D M (Ps ?p) cfg ts ?c (fl_cluster f')"
      using cluster_step.request [OF request(2,3)] by (simp add: request(1))
    note K = cluster_step_keeps [OF up c(1)]
    obtain ph st where s: "task_step D (sm_repo M) (Ps ?p) cfg (tk_env (ts i)) (tk_input (ts i)) (cl_phase ?c i) (view ?c ?p) = (ph, st)"
      by fastforce
    note A = advance_simps [where ts = ts and i = i and c = ?c, OF s]
    have T: "step_keeps_ledger D cfg (tk_input (ts i)) (cl_phase ?c i) (sm_chain M (cl_repo ?c)) (chains st) ph"
      using task_step_keeps [OF _ _ _ _ s] c(1) request(3) by (simp add: cluster_inv_def)
    have E: "events_step ?ob (calls f ?p) (sm_outbox M (ss_repo st)) (calls f ?p)
        \<and> events_backed D (chains st) (sm_outbox M (ss_repo st))"
      using task_step_events [OF _ _ _ s, where cs = "calls f ?p"] c(2) request(3) T backed by (auto simp: step_keeps_ledger_def)
    have "processor_ok (sm_outbox M (ss_repo st)) (calls f ?p) (fl_processor f ?p)"
      using processor_ok_moves [OF own _ subset_refl] E by (simp add: events_step_def)
    moreover have "cl_proc (fl_cluster f') = (cl_proc ?c)(?p := st)"
      by (simp add: request(1) advance_def s Let_def put_def)
    then have "calls f' = calls f" using task_step_log [OF s] by (auto simp: calls_def fun_eq_iff view_def)
    ultimately show ?thesis
      using fleet_move [OF fl _ refl refl, of f' ?p] K E by (simp add: request(1) A)
  next
    case (reads p st)
    note F = read_frame [OF reads(2)]
    have "cluster_step D M P cfg ts ?c (put p st ?c)" for P
      by (intro cluster_step.background background_step.reads reads(2))
    note K = cluster_step_keeps [OF this c(1)]
    have "calls f' = calls f" using F c(2) by (auto simp: reads(1) calls_put fun_eq_iff) (simp add: calls_def)
    then show ?thesis
      using fleet_move [OF fl _ refl refl, of f' p] K F c(2) backed own by (simp add: reads(1))
  next
    case (publishes p q st)
    have Q: "processor_keeps (view ?c p) q st"
      using processor_step_keeps [OF _ _ publishes(3)] c(2) own by simp
    have "cluster_inv cfg ts (put p st ?c)" using Q c(1) by (simp add: cluster_inv_def processor_keeps_def)
    moreover have "events_backed D (chains st) (sm_outbox M (ss_repo st))"
      using events_backed_moves [OF backed] Q by (simp add: processor_keeps_def events_step_def)
    ultimately show ?thesis
      using fleet_move [OF fl _ refl refl, of f' p] Q
      by (simp add: publishes(1) calls_def put_def processor_keeps_def)
  qed
qed

theorem fleet_keeps:
  assumes "fleet_reachable D M Ps cfg ts f f'" and "fleet_inv cfg ts f"
  shows "fleet_inv cfg ts f' \<and> events_move (sm_outbox M (cl_repo (fl_cluster f))) (sm_outbox M (cl_repo (fl_cluster f')))
    \<and> extends (sm_chain M (cl_repo (fl_cluster f))) (sm_chain M (cl_repo (fl_cluster f')))"
  using assms
proof (induction rule: fleet_reachable.induct)
  case (more f f' f'')
  with fleet_step_keeps [OF more.hyps(2)] show ?case by (auto intro: extends_trans events_move_trans)
qed simp

text \<open>An atomic write is a run of the fleet.\<close>

lemma solo_fleet:
  assumes "solo D (sm_repo M) (Ps (tk_proc (ts i))) cfg ts i c c'" and "genesis_hash D cfg \<noteq> []"
    and "cfg_chain_max_retries cfg \<noteq> 0" and "alone cfg (Ps (tk_proc (ts i))) (ts i) (cl_phase c i) (view c (tk_proc (ts i)))"
  shows "fleet_reachable D M Ps cfg ts (f\<lparr>fl_cluster := c\<rparr>) (f\<lparr>fl_cluster := c'\<rparr>)"
proof (rule solo_related [where ts = ts and i = i, OF assms])
  show "fleet_reachable D M Ps cfg ts (f\<lparr>fl_cluster := c\<rparr>)
      (f\<lparr>fl_cluster := advance D (sm_repo M) (Ps (tk_proc (ts i))) cfg ts i c\<rparr>)"
    if "enabled ts i c" "task_ready M (Ps (tk_proc (ts i))) (ts i) (cl_phase c i) (cl_repo c)" for c
    using fleet_step.request [of ts i "f\<lparr>fl_cluster := c\<rparr>" M Ps D cfg] that
    by (auto intro: fleet_reachable.intros)
qed (auto intro: fleet_reachable.start fleet_reachable_trans)

lemma fleet_new_ok:
  assumes "inv s" and "rooted D cfg (sm_chain M s)" and "sm_outbox M s = (\<lambda>_. None)"
  shows "fleet_inv cfg ts (fleet_new s)"
  using assms cluster_new_ok(1) [OF assms(1,2), of ts]
  by (simp add: fleet_inv_def fleet_new_def events_backed_def accepted_def calls_def processor_ok_def cluster_new_def
      service_new_def)

end

section \<open>Both repositories can be shared\<close>

lemma pg_delivered_any:
  assumes inv: "pg_inv E D s" and x: "pg_outboxes D s i = Some x" and run: "pg_mark_outbox_delivered E i s = (r, s')"
  shows "pg_inv E D s' \<and> pg_chain E s' = pg_chain E s
    \<and> (pg_outboxes D s' = pg_outboxes D s \<or> pg_outboxes D s' = (pg_outboxes D s)(i \<mapsto> x\<lparr>ob_status := Delivered\<rparr>))"
proof (cases "ob_status x = Pending")
  case True
  with pg_delivered_law [OF inv x True run] show ?thesis by auto
next
  case False
  have none: "\<not> (or_outbox_id row = i \<and> or_status row = ''PENDING'')" if "row \<in> set (pg_outbox s)" for row
    using False x pg_outboxes_row [OF inv that] outbox_pending_iff [OF pg_outbox_typed [OF inv that], of D] by auto
  have "map (\<lambda>row. if or_outbox_id row = i \<and> or_status row = ''PENDING'' then g row else row) (pg_outbox s) = pg_outbox s" for g
    by (rule map_idI) (use none in auto)
  then have "same_tables s s'"
    using run by (auto simp: pg_mark_outbox_delivered_def pg_update_outbox_def pg_call_def pg_commit_def same_tables_def
        split: if_splits pg_fault.splits)
  with inv show ?thesis by (simp add: same_tables_meaning)
qed

interpretation pg_shared: shared_outbox "pg_model E D" "pg_inv E D" False D "pg_clip E" for E D
  by unfold_locales (use pg_delivered_any in simp)

interpretation mem_shared: shared_outbox "mem_model D" "mem_inv D" True D "\<lambda>ts. ts" for D
proof unfold_locales
  fix s i x r s'
  assume inv: "mem_inv D s" and x: "sm_outbox (mem_model D) s i = Some x"
    and run: "repo_mark_outbox_delivered (sm_repo (mem_model D)) i s = (r, s')"
  from x have x': "mem_outboxes s i = Some x" by simp
  have run': "mem_update_outbox (\<lambda>x. x\<lparr>ob_status := Delivered\<rparr>) i s = (r, s')"
    using run by (simp add: mem_mark_outbox_delivered_def)
  have "ob_outbox_id (x\<lparr>ob_status := Delivered\<rparr>) = i" using mem_outbox_key [OF inv x'] by simp
  from mem_update_outbox_eq [OF x' run'] mem_inv_outbox_update [OF inv this]
  show "mem_inv D s' \<and> sm_chain (mem_model D) s' = sm_chain (mem_model D) s
    \<and> (sm_outbox (mem_model D) s' = sm_outbox (mem_model D) s
       \<or> sm_outbox (mem_model D) s' = (sm_outbox (mem_model D) s)(i \<mapsto> x\<lparr>ob_status := Delivered\<rparr>))"
    by auto
qed

section \<open>What two processors can do to one event\<close>

text \<open>A run of one processor is a run of the fleet; so is, with \<open>processor_pass\<close>, an atomic pass.\<close>

lemma processor_runs_fleet:
  assumes "processor_runs (Ps p) (sm_repo M) (cfg_outbox_max_retries cfg) q st q' st'"
    and "starts_outbox_processor (Ps p)" and "fl_processor f p = q" and "view (fl_cluster f) p = st"
  shows "\<exists>f'. fleet_reachable D M Ps cfg ts f f' \<and> fl_processor f' = (fl_processor f)(p := q')
    \<and> view (fl_cluster f') p = st' \<and> (\<forall>r. r \<noteq> p \<longrightarrow> cl_proc (fl_cluster f') r = cl_proc (fl_cluster f) r)
    \<and> cl_phase (fl_cluster f') = cl_phase (fl_cluster f)"
  using assms
proof (induction arbitrary: f rule: processor_runs.induct)
  case (rests q st)
  then show ?case by (intro exI [of _ f]) (auto intro: fleet_reachable.start)
next
  case (moves q st q1 st1 q2 st2)
  let ?f = "f\<lparr>fl_cluster := put p st1 (fl_cluster f), fl_processor := (fl_processor f)(p := q1)\<rparr>"
  have step: "fleet_step D M Ps cfg ts f ?f"
    using moves.hyps(1) moves.prems by (intro fleet_step.publishes) simp_all
  have "fl_processor ?f p = q1" "view (fl_cluster ?f) p = st1"
    and frame: "r \<noteq> p \<Longrightarrow> cl_proc (fl_cluster ?f) r = cl_proc (fl_cluster f) r" for r by (simp_all add: put_def view_def)
  from moves.IH [OF moves.prems(1) this(1,2)] obtain f' where f': "fleet_reachable D M Ps cfg ts ?f f'"
    "fl_processor f' = (fl_processor ?f)(p := q2)" "view (fl_cluster f') p = st2"
    "\<forall>r. r \<noteq> p \<longrightarrow> cl_proc (fl_cluster f') r = cl_proc (fl_cluster ?f) r"
    "cl_phase (fl_cluster f') = cl_phase (fl_cluster ?f)" by blast
  then have "fl_processor f' = (fl_processor f)(p := q2)" "cl_phase (fl_cluster f') = cl_phase (fl_cluster f)"
    "\<forall>r. r \<noteq> p \<longrightarrow> cl_proc (fl_cluster f') r = cl_proc (fl_cluster f) r" using frame by simp_all
  with fleet_reachable_trans [OF f'(1) fleet_reachable.more [OF fleet_reachable.start step]] f'(3) show ?case by blast
qed

text \<open>Without faults a pending event that was accepted is marked, and one at its last attempt fails.\<close>

lemma pg_accepted_record:
  assumes quiet: "pg_quiet E" and inv: "pg_inv E D (ss_repo st)"
    and x: "pg_outboxes D (ss_repo st) (ob_outbox_id x) = Some x" "ob_status x = Pending"
    and sink: "pub_publish P (length (ss_publish_log st)) x = Inr u"
  shows "pg_inv E D (ss_repo (process_record P (postgres E D) m x st))
    \<and> pg_outboxes D (ss_repo (process_record P (postgres E D) m x st)) (ob_outbox_id x) = Some (x\<lparr>ob_status := Delivered\<rparr>)
    \<and> ss_publish_log (process_record P (postgres E D) m x st) = ss_publish_log st @ [(x, True)]"
proof -
  obtain r s' where q: "pg_mark_outbox_delivered E (ob_outbox_id x) (ss_repo st) = (r, s')" by fastforce
  then have "r \<noteq> Inl Unavailable"
    by (auto simp: pg_mark_outbox_delivered_def pg_update_outbox_def quiet_calls [OF quiet] split: if_splits)
  with pg_delivered_law [OF inv x q] sink show ?thesis
    by (auto simp: process_record_def publish_one_def on_repo_def log_publish_def q postgres_def)
qed

lemma pg_refused_record:
  assumes quiet: "pg_quiet E" and inv: "pg_inv E D (ss_repo st)" and x: "pg_outboxes D (ss_repo st) (ob_outbox_id x) = Some z"
    and sink: "pub_publish P (length (ss_publish_log st)) x = Inl err" and last: "sint m \<le> ob_attempt_count x + 1"
  shows "\<exists>y. pg_outboxes D (ss_repo (process_record P (postgres E D) m x st)) (ob_outbox_id x) = Some y \<and> ob_status y = Failed"
proof -
  obtain r s' where q: "pg_increment_outbox_attempt E (ob_outbox_id x) (ss_repo st) = (r, s')" by fastforce
  note L = pg_increment_law [OF inv x q]
  obtain y where y: "pg_outboxes D s' (ob_outbox_id x) = Some y" using L x by auto
  obtain r2 s2 where q2: "pg_mark_outbox_failed E (ob_outbox_id x) s' = (r2, s2)" by fastforce
  then have "r2 \<noteq> Inl Unavailable"
    by (auto simp: pg_mark_outbox_failed_def pg_update_outbox_def quiet_calls [OF quiet] split: if_splits)
  with pg_failed_law [OF _ y q2] L have "pg_outboxes D s2 (ob_outbox_id x) = Some (y\<lparr>ob_status := Failed\<rparr>)" by auto
  with sink last show ?thesis
    by (simp add: process_record_def publish_one_def on_repo_def log_publish_def inc_publish_failure_def q q2 postgres_def)
qed

theorem two_processors_one_event:
  assumes quiet: "pg_quiet E" and inv: "pg_inv E D (cl_repo (fl_cluster f))" and "p \<noteq> q"
    and on: "starts_outbox_processor (Ps p)" "starts_outbox_processor (Ps q)"
    and both: "fl_processor f p = Working (x # xs)" "fl_processor f q = Working (x # ys)"
    and x: "pg_outboxes D (cl_repo (fl_cluster f)) (ob_outbox_id x) = Some x" "ob_status x = Pending"
    and sink: "pub_publish (Ps p) (length (calls f p)) x = Inr u" "pub_publish (Ps q) (length (calls f q)) x = Inl refusal"
    and last: "sint (cfg_outbox_max_retries cfg) \<le> ob_attempt_count x + 1"
  shows "\<exists>f' y. fleet_reachable D (pg_model E D) Ps cfg ts f f' \<and> (x, True) \<in> set (calls f' p)
    \<and> pg_outboxes D (cl_repo (fl_cluster f')) (ob_outbox_id x) = Some y \<and> ob_status y = Failed"
proof -
  let ?m = "cfg_outbox_max_retries cfg" and ?M = "pg_model E D"
  let ?st = "process_record (Ps p) (sm_repo ?M) ?m x (view (fl_cluster f) p)"
  obtain f1 where f1: "fleet_reachable D ?M Ps cfg ts f f1" "fl_processor f1 = (fl_processor f)(p := Working xs)"
    "view (fl_cluster f1) p = ?st" "\<forall>r. r \<noteq> p \<longrightarrow> cl_proc (fl_cluster f1) r = cl_proc (fl_cluster f) r"
    using processor_runs_fleet [where Ps = Ps and p = p and M = ?M, OF processor_record on(1) both(1) refl] by blast
  have at1: "cl_repo (fl_cluster f1) = ss_repo ?st" "calls f1 p = ss_publish_log ?st"
    using arg_cong [OF f1(3), of ss_repo] arg_cong [OF f1(3), of ss_publish_log] by simp_all
  have r1: "pg_inv E D (cl_repo (fl_cluster f1))" "(x, True) \<in> set (calls f1 p)"
    "pg_outboxes D (cl_repo (fl_cluster f1)) (ob_outbox_id x) = Some (x\<lparr>ob_status := Delivered\<rparr>)"
    using pg_accepted_record [OF quiet, of D "view (fl_cluster f) p" x "Ps p" u ?m] inv x sink(1)
    unfolding at1 by simp_all
  have q: "fl_processor f1 q = Working (x # ys)" "calls f1 q = calls f q" using f1(2,4) both(2) assms(3) by (simp_all add: calls_def)
  let ?st2 = "process_record (Ps q) (sm_repo ?M) ?m x (view (fl_cluster f1) q)"
  obtain f2 where f2: "fleet_reachable D ?M Ps cfg ts f1 f2" "view (fl_cluster f2) q = ?st2"
    "\<forall>r. r \<noteq> q \<longrightarrow> cl_proc (fl_cluster f2) r = cl_proc (fl_cluster f1) r"
    using processor_runs_fleet [where Ps = Ps and p = q and M = ?M, OF processor_record on(2) q(1) refl] by blast
  have "\<exists>y. pg_outboxes D (ss_repo ?st2) (ob_outbox_id x) = Some y \<and> ob_status y = Failed"
    using pg_refused_record [OF quiet, of D "view (fl_cluster f1) q" x "x\<lparr>ob_status := Delivered\<rparr>" "Ps q" refusal ?m] r1 sink(2) last q(2)
    by simp
  moreover have "cl_repo (fl_cluster f2) = ss_repo ?st2" using arg_cong [OF f2(2), of ss_repo] by simp
  moreover have "calls f2 p = calls f1 p" using f2(3) assms(3) by (simp add: calls_def)
  ultimately show ?thesis using fleet_reachable_trans [OF f2(1) f1(1)] r1(2) by metis
qed

end
