(* ===== verification/Postgres_Runs.thy ===== *)
theory Postgres_Runs
  imports Processors
begin

text \<open>
  Every run on PostgreSQL. The model \<open>pg_any\<close> assumes nothing of a request: texts of any
  length, with a database that cuts off excess trailing spaces, and UUIDs that may repeat.
  The tables satisfy the schema in every such run and chains only grow. A run whose requests
  draw distinct UUIDs and whose texts the columns keep is a run of \<open>pg_model\<close>, to which the
  lemmas of \<open>Writers_Correct\<close> and \<open>Processors\<close> apply.
\<close>

section \<open>The schema\<close>

definition pg_any :: "pg_env \<Rightarrow> third_party \<Rightarrow> pg_state store_model" where
  "pg_any E D = \<lparr>sm_repo = postgres E D, sm_chain = pg_chain E, sm_outbox = pg_outboxes D,
     sm_storable = (\<lambda>_. True), sm_unused = False\<rparr>"

lemma pg_any_simps [simp]:
  "sm_repo (pg_any E D) = postgres E D" "sm_chain (pg_any E D) = pg_chain E"
  "sm_outbox (pg_any E D) = pg_outboxes D" "task_ready (pg_any E D) P tk ph s"
  "write_ready D' (pg_any E D) P cfg env input st"
  by (simp_all add: pg_any_def task_ready_def write_ready_def all_storable_def split: phase.split)

text \<open>The partial unique index on the idempotency key.\<close>

definition key_index :: "entry_row list \<Rightarrow> (string \<times> string option) list" where
  "key_index rows = map (\<lambda>row. (er_entry_type row, er_idempotency_key row))
     (filter (\<lambda>row. er_idempotency_key row \<noteq> None) rows)"

definition pg_schema :: "pg_env \<Rightarrow> pg_state \<Rightarrow> bool" where
  "pg_schema E s \<longleftrightarrow> pg_ordered E s \<and> pg_typed s \<and> distinct (key_index (pg_entries s))
     \<and> distinct (map or_outbox_id (pg_outbox s))"

text \<open>
  What an operation that may draw the entry ids \<open>I\<close> and the event ids \<open>J\<close> does to the tables.
\<close>

definition pg_moves :: "pg_env \<Rightarrow> uuid set \<Rightarrow> uuid set \<Rightarrow> pg_state \<Rightarrow> pg_state \<Rightarrow> bool" where
  "pg_moves E I J s s' \<longleftrightarrow> pg_schema E s' \<and> extends (pg_chain E s) (pg_chain E s')
     \<and> er_entry_id ` set (pg_entries s') \<subseteq> er_entry_id ` set (pg_entries s) \<union> I
     \<and> or_outbox_id ` set (pg_outbox s') \<subseteq> or_outbox_id ` set (pg_outbox s) \<union> J"

lemma pg_moves_schema: "pg_moves E I J s s' \<Longrightarrow> pg_schema E s'"
  by (simp add: pg_moves_def)

lemma pg_moves_extends: "pg_moves E I J s s' \<Longrightarrow> extends (pg_chain E s) (pg_chain E s')"
  by (simp add: pg_moves_def)

lemma pg_moves_trans:
  assumes "pg_moves E I J s s'" and "pg_moves E I J s' s''"
  shows "pg_moves E I J s s''"
proof -
  have "A \<subseteq> C \<union> I'" if "A \<subseteq> B \<union> I'" "B \<subseteq> C \<union> I'" for A B C I' :: "uuid set" using that by blast
  then show ?thesis
    using assms extends_trans [OF assms [THEN pg_moves_extends]] unfolding pg_moves_def by meson
qed

lemma pg_schema_parts:
  assumes "pg_schema E s"
  shows "pg_ordered E s" and "pg_store_inv E s" and "positions_ok (pg_chain E s t)"
  using assms by (auto simp: pg_schema_def pg_ordered_def)

lemma pg_moves_same:
  assumes "pg_schema E s" and "same_tables s s'"
  shows "pg_moves E I J s s'"
  using assms same_tables_meaning [OF assms(2)]
  by (auto simp: pg_moves_def pg_schema_def pg_ordered_def pg_typed_def same_tables_def)

lemma key_index_snoc:
  "key_index (rows @ [row]) = key_index rows @
     (if er_idempotency_key row = None then [] else [(er_entry_type row, er_idempotency_key row)])"
  by (simp add: key_index_def)

text \<open>What \<open>pg_inv\<close> says of a ledger that hashes correctly includes the schema.\<close>

lemma pg_inv_schema:
  assumes "pg_inv E D s" shows "pg_schema E s"
proof -
  note R = pg_rows [OF pg_inv_parts(2) [OF assms]]
  have "x = y" if "x \<in> set (pg_entries s)" "y \<in> set (pg_entries s)" "er_idempotency_key x \<noteq> None"
    "er_entry_type x = er_entry_type y" "er_idempotency_key x = er_idempotency_key y" for x y
  proof -
    have "map_row_entry E x \<in> set (pg_chain E s (er_entry_type x))" "map_row_entry E y \<in> set (pg_chain E s (er_entry_type x))"
      using that by (simp_all add: set_pg_chain pg_chain_rows_def)
    then have "map_row_entry E x = map_row_entry E y"
      using pg_inv_parts(3) [OF assms] that(3,5) unfolding ledger_inv_def by simp
    then have "er_entry_id x = er_entry_id y" by (metis map_row_entry_simps(1))
    then show ?thesis using R(4) that(1,2) by (auto dest: inj_onD)
  qed
  then have "distinct (key_index (pg_entries s))"
    using R(1) by (auto simp: key_index_def distinct_map inj_on_def)
  then show ?thesis using assms pg_inv_ordered [OF assms] by (simp add: pg_schema_def pg_inv_def)
qed

lemma pg_schema_empty: "\<forall>n. seed_ok (pe_scan E n) \<Longrightarrow> pg_schema E pg_empty"
  by (simp add: pg_schema_def pg_ordered_def pg_store_inv_def pg_empty_def pg_typed_def key_index_def pg_chain_def
      pg_chain_rows_def)

section \<open>What an append does to the tables\<close>

text \<open>
  A row whose type was cut off lands in the chain of the shorter type, at position one: the
  chain of the longer type is empty. The unique index lets it in only if that chain is empty too.
\<close>

lemma assigned_position:
  assumes sch: "pg_schema E s" and n: "n = int (length (pg_chain E s (wi_entry_type input))) + 1"
    and row: "row = row_assigned (pg_new_row E D i input n)" "\<not> row_error (pg_new_row E D i input n)"
    and free: "unique_violation (pg_entries s) row = None"
  shows "er_chain_position row = int (length (pg_chain E s (er_entry_type row))) + 1"
proof -
  let ?t = "wi_entry_type input"
  have t: "er_entry_type row = take_chars 255 ?t" "er_chain_position row = n"
    by (simp_all add: row(1) row_assigned_def pg_new_row_def)
  show ?thesis
  proof (cases "take_chars 255 ?t = ?t")
    case True
    then show ?thesis by (simp add: t n)
  next
    case False
    have "\<not> text_fits 255 ?t" using False text_fits_varchar by blast
    then have "pg_chain_rows s ?t = []"
      using sch by (auto simp: pg_schema_def pg_typed_def entry_row_typed_def pg_chain_rows_def filter_empty_conv)
    then have one: "n = 1" using pg_chain_Nil [of E s ?t] by (simp add: n)
    have "pg_chain E s (er_entry_type row) = []"
    proof (rule ccontr)
      assume ne: "pg_chain E s (er_entry_type row) \<noteq> []"
      let ?e = "pg_chain E s (er_entry_type row) ! 0"
      have "le_chain_position ?e = 1"
        using positions_ok_nth [OF pg_schema_parts(3) [OF sch], of 0 "er_entry_type row"] ne by simp
      moreover have "?e \<in> set (pg_chain E s (er_entry_type row))" using ne by (intro nth_mem) simp
      then obtain x where "x \<in> set (pg_entries s)" "er_entry_type x = er_entry_type row" "?e = map_row_entry E x"
        by (auto simp: set_pg_chain pg_chain_rows_def)
      ultimately have "list_ex (same_position row) (pg_entries s)"
        by (auto simp: list_ex_iff same_position_def t one)
      with free show False by (simp add: unique_violation_def split: if_splits)
    qed
    then show ?thesis by (simp add: t(2) one)
  qed
qed

lemma pg_moves_append:
  assumes sch: "pg_schema E s" and n: "n = int (length (pg_chain E s (wi_entry_type input))) + 1"
    and ins: "insert_entry (pg_entries s) (pg_new_row E D (dr_entry_id d) input n) = Inr row"
    and app: "pg_appended E input row (pg_new_outbox_row d input payload now) s s'"
  shows "pg_moves E {dr_entry_id d} {dr_outbox_id d} s s'"
proof -
  note I = insert_entry_Inr [OF ins]
  have entries: "pg_entries s' = pg_entries s @ [row]" using app by (simp add: pg_appended_def)
  have free: "unique_violation (pg_entries s) row = None" using I by simp
  have chain: "pg_chain E s' = (pg_chain E s)(er_entry_type row := pg_chain E s (er_entry_type row) @ [map_row_entry E row])"
    and pos: "er_chain_position row = int (length (pg_chain E s (er_entry_type row))) + 1"
    using pg_chain_row [OF pg_schema_parts(1) [OF sch] entries] assigned_position [OF sch n I(1,2) free] by simp_all
  have "pg_store_inv E s'" by (rule pg_store_inv_append [OF pg_schema_parts(2) [OF sch] free entries])
  moreover have "positions_ok (pg_chain E s' t)" for t
    using pg_schema_parts(3) [OF sch] by (simp add: chain positions_ok_snoc pos)
  moreover have "distinct (key_index (pg_entries s'))"
    using sch free by (auto simp: entries key_index_snoc pg_schema_def key_index_def unique_violation_def same_key_def
        list_ex_iff split: if_splits)
  moreover have x: "outbox_row_typed x \<and> or_outbox_id x = dr_outbox_id d \<and> dr_outbox_id d \<notin> or_outbox_id ` set (pg_outbox s)"
    if "insert_outbox E (pg_outbox s) (pg_new_outbox_row d input payload now) = Some x" for x
    using that text_fits_take
    by (auto simp: insert_outbox_def pg_new_outbox_row_def outbox_row_typed_def list_ex_iff split: if_splits)
  have "pg_typed s'" "distinct (map or_outbox_id (pg_outbox s'))"
    "or_outbox_id ` set (pg_outbox s') \<subseteq> or_outbox_id ` set (pg_outbox s) \<union> {dr_outbox_id d}"
    using sch app row_assigned_typed [OF I(2)] x
    by (auto simp: pg_schema_def pg_typed_def entries I(1) pg_appended_def split: if_splits)
  moreover have "er_entry_id row = dr_entry_id d" by (simp add: I(1) row_assigned_def pg_new_row_def)
  moreover have "extends (pg_chain E s) (pg_chain E s')" by (auto simp: extends_def chain)
  ultimately show ?thesis by (auto simp: pg_moves_def pg_schema_def pg_ordered_def entries)
qed

lemma pg_moves_write:
  assumes sch: "pg_schema E s" and run: "pg_write_entry_with_outbox E D d input s = (r, s')"
  shows "pg_moves E {dr_entry_id d} {dr_outbox_id d} s s'"
  using pg_write_cases [OF pg_schema_parts(1) [OF sch] run]
proof (elim disjE conjE exE)
  fix n now payload
  assume n: "n = int (length (pg_chain E s (wi_entry_type input))) + 1"
    and ins: "pg_inserted E D d input n (pg_new_outbox_row d input payload now) s r s'"
  show ?thesis
  proof (cases "insert_entry (pg_entries s) (pg_new_row E D (dr_entry_id d) input n)")
    case (Inl err)
    with ins show ?thesis by (intro pg_moves_same [OF sch]) (simp add: pg_inserted_def)
  next
    case (Inr row)
    with ins have "pg_appended E input row (pg_new_outbox_row d input payload now) s s'" by (simp add: pg_inserted_def)
    then show ?thesis by (rule pg_moves_append [OF sch n Inr])
  qed
qed (use pg_moves_same [OF sch] in blast)+

section \<open>What the other operations do to the tables\<close>

lemma pg_moves_call:
  assumes "pg_schema E s" and "pg_call E rest s = (r, s')"
    and "\<And>n s1. same_tables s s1 \<Longrightarrow> rest n s1 = (r, s') \<Longrightarrow> pg_moves E I J s s'"
  shows "pg_moves E I J s s'"
  using pg_call_cases [OF assms(2)] pg_moves_same [OF assms(1)] assms(3) by blast

lemma pg_moves_update:
  assumes sch: "pg_schema E s"
    and change: "\<And>n row. row \<in> set (pg_outbox s) \<Longrightarrow> cond row \<Longrightarrow>
      or_outbox_id (g n row) = or_outbox_id row \<and> outbox_row_typed (g n row)"
    and run: "pg_update_outbox E cond g s1 = (r, s')" and same: "same_tables s s1"
  shows "pg_moves E {} {} s s'"
proof -
  let ?f = "\<lambda>row. if cond row then g (pg_calls s1) row else row"
  have rows: "same_tables s s' \<or> (pg_entries s' = pg_entries s \<and> pg_outbox s' = map ?f (pg_outbox s))"
    using run same by (auto simp: pg_update_outbox_def pg_commit_def same_tables_def split: pg_fault.splits)
  then show ?thesis
  proof
    assume new: "pg_entries s' = pg_entries s \<and> pg_outbox s' = map ?f (pg_outbox s)"
    then have "map or_outbox_id (pg_outbox s') = map or_outbox_id (pg_outbox s)" using change by auto
    then have "distinct (map or_outbox_id (pg_outbox s'))" "or_outbox_id ` set (pg_outbox s') = or_outbox_id ` set (pg_outbox s)"
      using sch by (simp add: pg_schema_def, metis list.set_map)
    moreover have "\<forall>row \<in> set (pg_outbox s'). outbox_row_typed row"
      using sch change new by (auto simp: pg_schema_def pg_typed_def)
    moreover have "pg_chain E s' = pg_chain E s"
      using new by (simp add: pg_chain_def [abs_def] pg_chain_rows_def [abs_def])
    ultimately show ?thesis
      using sch conjunct1 [OF new] by (simp add: pg_moves_def pg_schema_def pg_ordered_def pg_store_inv_def pg_typed_def)
  qed (rule pg_moves_same [OF sch])
qed

lemma pg_moves_settle:
  assumes sch: "pg_schema E s"
  shows "pg_mark_outbox_delivered E i s = (r, s') \<Longrightarrow> pg_moves E {} {} s s'"
    and "pg_mark_outbox_failed E i s = (r, s') \<Longrightarrow> pg_moves E {} {} s s'"
    and "pg_increment_outbox_attempt E i s = (r, s') \<Longrightarrow> pg_moves E {} {} s s'"
    and "pg_pending_outbox E D s = (q, s') \<Longrightarrow> pg_moves E {} {} s s'"
proof -
  have typed: "row \<in> set (pg_outbox s) \<Longrightarrow> outbox_row_typed row" for row
    using sch by (simp add: pg_schema_def pg_typed_def)
  show "pg_moves E {} {} s s'" if "pg_mark_outbox_delivered E i s = (r, s')"
    by (rule pg_moves_call [OF sch that [unfolded pg_mark_outbox_delivered_def]], erule pg_moves_update [OF sch, rotated])
      (use typed in \<open>auto simp: outbox_row_typed_def\<close>)
  show "pg_moves E {} {} s s'" if "pg_mark_outbox_failed E i s = (r, s')"
    by (rule pg_moves_call [OF sch that [unfolded pg_mark_outbox_failed_def]], erule pg_moves_update [OF sch, rotated])
      (use typed in \<open>auto simp: outbox_row_typed_def\<close>)
  show "pg_moves E {} {} s s'" if run: "pg_increment_outbox_attempt E i s = (r, s')"
  proof (cases "list_ex (\<lambda>row. or_outbox_id row = i \<and> or_attempt_count row \<ge> 2 ^ 31 - 1) (pg_outbox s)")
    case True
    with run show ?thesis
      by (intro pg_moves_same [OF sch]) (auto simp: pg_increment_outbox_attempt_def pg_call_def split: if_splits)
  next
    case False
    let ?g = "\<lambda>n row. row\<lparr>or_attempt_count := or_attempt_count row + 1, or_last_attempt_ts := Some (pe_now E n)\<rparr>"
    from False run have "pg_call E (\<lambda>_. pg_update_outbox E (\<lambda>row. or_outbox_id row = i) ?g) s = (r, s')"
      by (simp add: pg_increment_outbox_attempt_def pg_call_def split: if_splits)
    then show ?thesis
      by (rule pg_moves_call [OF sch], elim pg_moves_update [OF sch, rotated]) (use typed False in \<open>auto simp: outbox_row_typed_def list_ex_iff\<close>)
  qed
  show "pg_moves E {} {} s s'" if "pg_pending_outbox E D s = (q, s')"
    using that by (intro pg_moves_same [OF sch]) (auto simp: pg_pending_outbox_def pg_call_def split: if_splits)
qed

lemma pg_read_same:
  assumes "pg_schema E s"
  shows "pg_find_idempotent E t k s = (r, s') \<Longrightarrow> same_tables s s'"
    and "pg_get_chain_tip E t s = (r', s') \<Longrightarrow> same_tables s s'"
  by (auto simp: pg_find_idempotent_def pg_get_chain_tip_def pg_call_def split: if_splits)

lemma pg_read_step:
  assumes sch: "pg_schema E (ss_repo st)" and step: "read_step D (pg_any E D) cfg st st'"
  shows "same_tables (ss_repo st) (ss_repo st')"
proof -
  let ?ok = "\<lambda>s. pg_store_inv E s \<and> same_tables (ss_repo st) s"
  have "entry_store (postgres E D) ?ok False (pg_chain E)"
    by (rule pg_store.pin [OF pg_reads_keep]) (auto simp: same_tables_def)
  then have "observes ?ok (sm_chain (pg_any E D)) st st'"
    by (intro read_step_observes [where M = "pg_any E D", OF _ _ _ step])
      (use pg_schema_parts(2) [OF sch] in \<open>auto dest!: pg_query_keeps simp: same_tables_meaning\<close>)
  then show ?thesis by (auto simp: observes_def reads_def count_failure_def)
qed

section \<open>Steps of requests and processors\<close>

lemma ss_repo_frame [simp]:
  "ss_repo (sleep n st) = ss_repo st" "ss_repo (log_publish x b st) = ss_repo st" "ss_repo (inc_publish_failure st) = ss_repo st"
  by (simp_all add: sleep_def log_publish_def inc_publish_failure_def)

lemma task_step_moves:
  assumes sch: "pg_schema E (ss_repo st)" and step: "task_step D (postgres E D) P cfg env input ph st = (ph', st')"
  shows "case ph of
      Appending k h \<Rightarrow> pg_moves E {dr_entry_id (en_draws env k)} {dr_outbox_id (en_draws env k)} (ss_repo st) (ss_repo st')
    | _ \<Rightarrow> same_tables (ss_repo st) (ss_repo st')"
proof (cases ph)
  case Looking
  with step pg_read_same(1) [OF sch] show ?thesis
    by (cases "we_idempotency_key input") (auto simp: step_look_def on_repo_def split: sum.splits prod.splits option.splits)
next
  case (Reading k)
  with step pg_read_same(2) [OF sch] show ?thesis
    by (auto simp: step_read_def on_repo_def split: if_splits sum.splits prod.splits repository_error.splits)
next
  case (Appending k h)
  obtain r s' where r: "pg_write_entry_with_outbox E D (en_draws env k) (entry_write_input_of P input h (en_now env k)) (ss_repo st) = (r, s')"
    by fastforce
  with Appending step have "ss_repo st' = s'"
    by (auto simp: step_append_def on_repo_def split: sum.splits repository_error.splits option.splits if_splits)
  with pg_moves_write [OF sch r] Appending show ?thesis by simp
next
  case Resolving
  with step pg_read_same(1) [OF sch] show ?thesis
    by (cases "we_idempotency_key input")
      (auto simp: resolve_conflict_def on_repo_def split: sum.splits prod.splits option.splits if_splits)
qed (use step in \<open>auto simp: chain_lock_def\<close>)

lemma task_step_moves_any:
  assumes "pg_schema E (ss_repo st)" and "task_step D (postgres E D) P cfg env input ph st = (ph', st')"
  shows "pg_moves E UNIV UNIV (ss_repo st) (ss_repo st')"
  using task_step_moves [OF assms] pg_moves_same [OF assms(1)]
  by (cases ph) (auto simp: pg_moves_def)

lemma processor_step_moves:
  assumes sch: "pg_schema E (ss_repo st)" and step: "processor_step P (postgres E D) m q st = (q', st')"
  shows "pg_moves E {} {} (ss_repo st) (ss_repo st')"
proof -
  note M = pg_moves_settle [OF sch] pg_moves_same [OF sch]
  show ?thesis
  proof (cases "(P, postgres E D, m, q, st)" rule: processor_step.cases)
    case (1 P' R' m' st0)
    with step M show ?thesis by (auto simp: on_repo_def split: sum.splits prod.splits)
  next
    case (2 P' R' m' st0)
    with step M show ?thesis by auto
  next
    case (3 P' R' m' x xs st0)
    with step M show ?thesis by (auto simp: step_publish_def split: sum.splits)
  next
    case (4 P' R' m' x xs st0)
    with step M show ?thesis by (auto simp: on_repo_def split: sum.splits prod.splits)
  next
    case (5 P' R' m' x xs st0)
    with step M show ?thesis by (auto simp: on_repo_def Let_def split: prod.splits if_splits)
  next
    case (6 P' R' m' x xs st0)
    with step M show ?thesis by (auto simp: on_repo_def split: prod.splits)
  qed
qed

lemma processor_runs_moves:
  assumes "processor_runs P (postgres E D) m q st q' st'" and "pg_schema E (ss_repo st)"
  shows "pg_moves E {} {} (ss_repo st) (ss_repo st')"
  using assms
proof (induction rule: processor_runs.induct)
  case (rests q st)
  then show ?case by (simp add: pg_moves_same)
next
  case (moves q st q1 st1 q2 st2)
  from processor_step_moves [OF moves.prems moves.hyps(1)] moves.IH show ?case
    by (blast intro: pg_moves_trans pg_moves_schema)
qed

lemma background_moves:
  assumes sch: "pg_schema E (ss_repo st)" and "background_step D (pg_any E D) P cfg st st'"
  shows "pg_moves E {} {} (ss_repo st) (ss_repo st')"
  using assms(2)
proof cases
  case publishes
  then show ?thesis using processor_runs_moves [OF processor_pass sch, of P D cfg] by simp
next
  case reads
  then show ?thesis by (rule pg_moves_same [OF sch pg_read_step [OF sch]])
qed

text \<open>A write that runs to its end.\<close>

lemma task_runs_moves:
  assumes "task_runs D (postgres E D) P cfg env input ph st ph' st'" and "pg_schema E (ss_repo st)"
  shows "pg_moves E UNIV UNIV (ss_repo st) (ss_repo st')"
  using assms
proof (induction rule: task_runs.induct)
  case (stay ph st)
  then show ?case by (simp add: pg_moves_same)
next
  case (go ph st ph1 st1 ph2 st2)
  from task_step_moves_any [OF go.prems go.hyps(2)] go.IH show ?case
    by (blast intro: pg_moves_trans pg_moves_schema)
qed

section \<open>Every run keeps the schema\<close>

lemma advance_moves:
  assumes "pg_schema E (cl_repo c)"
  shows "pg_moves E UNIV UNIV (cl_repo c) (cl_repo (advance D (postgres E D) P cfg ts i c))"
proof -
  obtain ph st where s: "task_step D (postgres E D) P cfg (tk_env (ts i)) (tk_input (ts i)) (cl_phase c i)
      (view c (tk_proc (ts i))) = (ph, st)" by fastforce
  from task_step_moves_any [OF _ s] assms advance_simps(1) [where ts = ts and i = i and c = c, OF s]
  show ?thesis by simp
qed

lemma pg_moves_weaken: "pg_moves E I J s s' \<Longrightarrow> pg_moves E UNIV UNIV s s'"
  by (simp add: pg_moves_def)

theorem fleet_moves:
  assumes "fleet_reachable D (pg_any E D) Ps cfg ts f f'" and "pg_schema E (cl_repo (fl_cluster f))"
  shows "pg_moves E UNIV UNIV (cl_repo (fl_cluster f)) (cl_repo (fl_cluster f'))"
  using assms
proof (induction rule: fleet_reachable.induct)
  case (start f)
  then show ?case by (simp add: pg_moves_same)
next
  case (more f f' f'')
  then have ih: "pg_moves E UNIV UNIV (cl_repo (fl_cluster f)) (cl_repo (fl_cluster f'))" by simp
  note sch = pg_moves_schema [OF ih]
  from more.hyps(2) have "pg_moves E UNIV UNIV (cl_repo (fl_cluster f')) (cl_repo (fl_cluster f''))"
  proof cases
    case (request i)
    then show ?thesis using advance_moves [OF sch] by simp
  next
    case (reads p st)
    then show ?thesis using pg_read_step [OF _ reads(2)] sch pg_moves_same [OF sch] by simp
  next
    case (publishes p q st)
    then show ?thesis using pg_moves_weaken [OF processor_step_moves [of E "view (fl_cluster f') p"]] sch by simp
  qed
  with ih show ?case by (rule pg_moves_trans)
qed

section \<open>Requests the columns keep\<close>

text \<open>
  No text of the request exceeds its column by trailing spaces alone. (A text that exceeds it
  otherwise, or holds a zero byte, is an error of the database and not excluded here.)
\<close>

definition request_kept :: "write_entry_input \<Rightarrow> bool" where
  "request_kept input \<longleftrightarrow>
     varchar_kept 255 (we_entry_type input) \<and> varchar_kept 255 (we_agent_id input)
     \<and> varchar_kept 100 (we_content_type input) \<and> varchar_kept 255 (we_source_id input)
     \<and> opt_all (varchar_kept 255) (we_correlation_id input) \<and> opt_all (varchar_kept 255) (we_idempotency_key input)
     \<and> opt_all (varchar_kept 128) (we_input_hash input) \<and> opt_all (varchar_kept 255) (we_signer_key_reference input)"

text \<open>The microseconds of the database do not lose a millisecond of an instant.\<close>

definition clock_kept :: "pg_env \<Rightarrow> third_party \<Rightarrow> write_env \<Rightarrow> bool" where
  "clock_kept E D env \<longleftrightarrow>
     (\<forall>k. timestamp_millis D (pg_clip E (en_now env k)) = timestamp_millis D (en_now env k))"

text \<open>The requests that have started.\<close>

definition started :: "'s cluster \<Rightarrow> nat set" where
  "started c = {i. cl_phase c i \<noteq> Checking}"

definition requests_kept :: "pg_env \<Rightarrow> third_party \<Rightarrow> (nat \<Rightarrow> task) \<Rightarrow> nat set \<Rightarrow> bool" where
  "requests_kept E D ts I \<longleftrightarrow> (\<forall>i \<in> I. request_kept (tk_input (ts i)) \<and> clock_kept E D (tk_env (ts i)))"

text \<open>No UUID is drawn twice, by all attempts these requests can make.\<close>

definition draws_distinct :: "app_config \<Rightarrow> (nat \<Rightarrow> task) \<Rightarrow> nat set \<Rightarrow> bool" where
  "draws_distinct cfg ts I \<longleftrightarrow>
     inj_on (\<lambda>(i, k). dr_entry_id (en_draws (tk_env (ts i)) k)) (I \<times> {..<unat (cfg_chain_max_retries cfg)})
     \<and> inj_on (\<lambda>(i, k). dr_outbox_id (en_draws (tk_env (ts i)) k)) (I \<times> {..<unat (cfg_chain_max_retries cfg)})"

lemma task_step_starts: "task_step D R P cfg env input ph st = (ph', st') \<Longrightarrow> ph' \<noteq> Checking"
  by (cases ph; cases "resolve_conflict D R input st")
    (auto simp: step_check_def after_check_def step_look_def step_read_def step_append_def
      split: option.splits if_splits sum.splits prod.splits repository_error.splits)

lemma started_advance: "started (advance D R P cfg ts i c) = insert i (started c)"
proof -
  obtain ph st where s: "task_step D R P cfg (tk_env (ts i)) (tk_input (ts i)) (cl_phase c i) (view c (tk_proc (ts i))) = (ph, st)"
    by fastforce
  from task_step_starts [OF s] show ?thesis
    by (auto simp: started_def advance_simps(2) [where ts = ts and i = i and c = c, OF s])
qed

lemma started_put [simp]: "started (put p st c) = started c"
  by (simp add: started_def)

lemma cluster_step_started: "cluster_step D M P cfg ts c c' \<Longrightarrow> started c \<subseteq> started c'"
  by (cases rule: cluster_step.cases) (auto simp: started_advance)

lemma fleet_step_started: "fleet_step D M Ps cfg ts f f' \<Longrightarrow> started (fl_cluster f) \<subseteq> started (fl_cluster f')"
  by (cases rule: fleet_step.cases) (auto simp: started_advance)

text \<open>The attempts a request may still make.\<close>

fun may_try :: "nat \<Rightarrow> phase \<Rightarrow> bool" where
  "may_try k (Reading j) = (j \<le> k)"
| "may_try k (Appending j _) = (j \<le> k)"
| "may_try k ph = (ph \<in> {Checking, Unhalting, Looking, Registering, Waiting})"

lemma may_try_step:
  assumes "task_step D R P cfg env input ph st = (ph', st')" and "may_try k ph'"
  shows "may_try k ph \<and> (\<forall>h. ph \<noteq> Appending k h)"
  using assms by (cases ph; cases "resolve_conflict D R input st")
    (auto simp: step_check_def after_check_def step_look_def step_read_def step_append_def
      split: option.splits if_splits sum.splits prod.splits repository_error.splits)

text \<open>
  For the requests of \<open>I\<close> and attempts within the limit: the draws of these attempts are
  unused, and a previous hash that was read fits its column.
\<close>

definition unspent :: "app_config \<Rightarrow> (nat \<Rightarrow> task) \<Rightarrow> nat set \<Rightarrow> pg_state cluster \<Rightarrow> bool" where
  "unspent cfg ts I c \<longleftrightarrow> (\<forall>i k. i \<in> I \<longrightarrow> k < unat (cfg_chain_max_retries cfg) \<longrightarrow> may_try k (cl_phase c i) \<longrightarrow>
     dr_entry_id (en_draws (tk_env (ts i)) k) \<notin> er_entry_id ` set (pg_entries (cl_repo c))
     \<and> dr_outbox_id (en_draws (tk_env (ts i)) k) \<notin> or_outbox_id ` set (pg_outbox (cl_repo c)))"

definition heads_fit :: "app_config \<Rightarrow> pg_state cluster \<Rightarrow> bool" where
  "heads_fit cfg c \<longleftrightarrow> (\<forall>i k h. cl_phase c i = Appending k h \<longrightarrow> text_fits 64 h \<and> k < unat (cfg_chain_max_retries cfg))"

definition run_inv :: "pg_env \<Rightarrow> app_config \<Rightarrow> (nat \<Rightarrow> task) \<Rightarrow> nat set \<Rightarrow> pg_state cluster \<Rightarrow> bool" where
  "run_inv E cfg ts I c \<longleftrightarrow> pg_schema E (cl_repo c) \<and> unspent cfg ts I c \<and> heads_fit cfg c"

lemma run_inv_new: "\<forall>n. seed_ok (pe_scan E n) \<Longrightarrow> run_inv E cfg ts I (cluster_new pg_empty)"
  by (simp add: run_inv_def unspent_def heads_fit_def cluster_new_def pg_schema_empty) (simp add: pg_empty_def)

lemma run_inv_put:
  assumes "run_inv E cfg ts I c" and "pg_moves E {} {} (cl_repo c) (ss_repo st)"
  shows "run_inv E cfg ts I (put p st c)"
  using assms unfolding run_inv_def unspent_def heads_fit_def pg_moves_def by (simp, blast)

text \<open>A hash that was read is that of a stored row, or the genesis hash.\<close>

lemma step_read_fits:
  assumes sch: "pg_schema E (ss_repo st)" and g: "text_fits 64 (genesis_hash D cfg)"
    and step: "step_read D (postgres E D) cfg input k st = (Appending j h, st')"
  shows "text_fits 64 h \<and> j < unat (cfg_chain_max_retries cfg)"
proof -
  let ?es = "pg_chain E (ss_repo st) (we_entry_type input)"
  obtain r s' where r: "pg_get_chain_tip E (we_entry_type input) (ss_repo st) = (r, s')" by fastforce
  have "text_fits 64 (le_entry_hash (last ?es))" if ne: "?es \<noteq> []"
  proof -
    obtain row where "row \<in> set (pg_entries (ss_repo st))" "last ?es = map_row_entry E row"
      using last_in_set [OF ne] by (auto simp: set_pg_chain pg_chain_rows_def)
    then show ?thesis using sch by (simp add: pg_schema_def pg_typed_def entry_row_typed_def)
  qed
  with pg_tip_spec [OF pg_schema_parts(2) [OF sch] r] r step g show ?thesis
    by (auto simp: step_read_def on_repo_def entry_chain_tip_def split: if_splits sum.splits repository_error.splits)
qed

lemma run_inv_advance:
  assumes inv: "run_inv E cfg ts I c" and env: "pg_env_ok E D" and draws: "draws_distinct cfg ts I" and i: "i \<in> I"
  shows "run_inv E cfg ts I (advance D (postgres E D) P cfg ts i c)"
proof -
  let ?v = "view c (tk_proc (ts i))" and ?d = "\<lambda>i k. en_draws (tk_env (ts i)) k"
  obtain ph st where s: "task_step D (postgres E D) P cfg (tk_env (ts i)) (tk_input (ts i)) (cl_phase c i) ?v = (ph, st)"
    by fastforce
  note A = advance_simps [where ts = ts and i = i and c = c, OF s]
  have sch: "pg_schema E (ss_repo ?v)" using inv by (simp add: run_inv_def)
  have old: "dr_entry_id (?d j k) \<notin> er_entry_id ` set (pg_entries (cl_repo c))"
    "dr_outbox_id (?d j k) \<notin> or_outbox_id ` set (pg_outbox (cl_repo c))" if "j \<in> I" "k < unat (cfg_chain_max_retries cfg)" "may_try k (cl_phase c j)" for j k
    using inv that by (simp_all add: run_inv_def unspent_def)
  have other: "may_try k (cl_phase c j)" "(j = i \<longrightarrow> (\<forall>h. cl_phase c i \<noteq> Appending k h))"
    if "may_try k (((cl_phase c)(i := ph)) j)" for j k
    using may_try_step [OF s] that by (auto split: if_splits)
  have apart: "dr_entry_id (?d j k) \<noteq> dr_entry_id (?d i l)" "dr_outbox_id (?d j k) \<noteq> dr_outbox_id (?d i l)"
    if "j \<in> I" "k < unat (cfg_chain_max_retries cfg)" "l < unat (cfg_chain_max_retries cfg)" "j \<noteq> i \<or> k \<noteq> l" for j k l
    using draws that i by (auto simp: draws_distinct_def inj_on_def)
  have "dr_entry_id (?d j k) \<notin> er_entry_id ` set (pg_entries (ss_repo st))
      \<and> dr_outbox_id (?d j k) \<notin> or_outbox_id ` set (pg_outbox (ss_repo st))"
    if jk: "j \<in> I" "k < unat (cfg_chain_max_retries cfg)" and still: "may_try k (((cl_phase c)(i := ph)) j)" for j k
  proof (cases "\<exists>l h. cl_phase c i = Appending l h")
    case True
    then obtain l h where l: "cl_phase c i = Appending l h" by blast
    with task_step_moves [OF sch s] have "pg_moves E {dr_entry_id (?d i l)} {dr_outbox_id (?d i l)} (cl_repo c) (ss_repo st)"
      by simp
    moreover have "j \<noteq> i \<or> k \<noteq> l" using other(2) [OF still] l by blast
    moreover have lim: "l < unat (cfg_chain_max_retries cfg)" using inv l by (simp add: run_inv_def heads_fit_def)
    ultimately show ?thesis using old [OF jk other(1) [OF still]] apart [OF jk, of l] lim unfolding pg_moves_def by blast
  next
    case False
    with task_step_moves [OF sch s] have "same_tables (cl_repo c) (ss_repo st)" by (cases "cl_phase c i") auto
    then show ?thesis using old [OF jk other(1) [OF still]] by (simp add: same_tables_def)
  qed
  then have "unspent cfg ts I (advance D (postgres E D) P cfg ts i c)" by (simp add: unspent_def A(1,2))
  moreover have "text_fits 64 h \<and> k < unat (cfg_chain_max_retries cfg)" if a: "ph = Appending k h" for k h
  proof -
    obtain j where "cl_phase c i = Reading j" using appends_after_read [OF s [unfolded a]] by blast
    with s a step_read_fits [OF sch, of D cfg "tk_input (ts i)" j] env show ?thesis
      by (simp add: pg_env_ok_def genesis_hash_def)
  qed
  then have "heads_fit cfg (advance D (postgres E D) P cfg ts i c)"
    using inv by (simp add: heads_fit_def A(2) run_inv_def)
  ultimately show ?thesis
    using advance_moves [of E c D P cfg ts i] inv by (simp add: run_inv_def pg_moves_def)
qed

lemma run_inv_ready:
  assumes "run_inv E cfg ts I c" and "requests_kept E D ts I" and "i \<in> I"
  shows "task_ready (pg_model E D) P (ts i) (cl_phase c i) (cl_repo c)"
proof (cases "\<exists>k h. cl_phase c i = Appending k h")
  case True
  then obtain k h where ph: "cl_phase c i = Appending k h" by blast
  have "may_try k (cl_phase c i)" "k < unat (cfg_chain_max_retries cfg)"
    using assms(1) ph by (simp_all add: run_inv_def heads_fit_def)
  then have "fresh_draws (pg_chain E (cl_repo c)) (pg_outboxes D (cl_repo c)) (en_draws (tk_env (ts i)) k)"
    using assms(1,3) by (auto simp: run_inv_def unspent_def fresh_draws_def all_entries_pg pg_outboxes_None image_image)
  moreover have "text_fits 64 h" using assms(1) ph by (simp add: run_inv_def heads_fit_def)
  ultimately show ?thesis
    using assms(2,3) by (simp add: ph task_ready_def pg_storable_def entry_write_input_of_def requests_kept_def
        request_kept_def clock_kept_def text_fits_varchar)
qed (cases "cl_phase c i"; simp add: task_ready_def)

section \<open>Runs of kept requests are runs of the restricted model\<close>

lemma read_any: "read_step D (pg_any E D) cfg st st' = read_step D (pg_model E D) cfg st st'"
  by (simp add: read_step.simps)

lemma background_any: "background_step D (pg_any E D) P cfg st st' = background_step D (pg_model E D) P cfg st st'"
  by (simp add: background_step.simps read_any)

lemma cluster_ready:
  assumes "cluster_reachable D (pg_any E D) P cfg ts c c'" and "run_inv E cfg ts I c"
    and "pg_env_ok E D" and "draws_distinct cfg ts I" and "requests_kept E D ts I" and "started c' \<subseteq> I"
  shows "cluster_reachable D (pg_model E D) P cfg ts c c' \<and> run_inv E cfg ts I c'"
  using assms
proof (induction rule: cluster_reachable.induct)
  case (more c c' c'')
  have "started c' \<subseteq> started c''" by (rule cluster_step_started [OF more.hyps(2)])
  with more have ih: "cluster_reachable D (pg_model E D) P cfg ts c c'" "run_inv E cfg ts I c'" by simp_all
  from more.hyps(2) have "cluster_step D (pg_model E D) P cfg ts c' c'' \<and> run_inv E cfg ts I c''"
  proof cases
    case (request i)
    have "i \<in> I" using more.prems(5) by (auto simp: request(1) started_advance)
    then show ?thesis
      using request(1) cluster_step.request [where M = "pg_model E D", OF request(2) run_inv_ready [OF ih(2) more.prems(4)]]
        run_inv_advance [OF ih(2) more.prems(2,3)] by simp
  next
    case (background p st)
    have "background_step D (pg_model E D) P cfg (view c' p) st"
      using background(2) by (simp only: background_any)
    moreover have "pg_moves E {} {} (cl_repo c') (ss_repo st)"
      using background_moves [OF _ background(2)] ih(2) by (simp add: run_inv_def)
    ultimately show ?thesis using background(1) run_inv_put [OF ih(2)] by (simp add: cluster_step.background)
  qed
  with ih show ?case by (blast intro: cluster_reachable.more)
qed (simp add: cluster_reachable.start)

lemma fleet_ready:
  assumes "fleet_reachable D (pg_any E D) Ps cfg ts f f'" and "run_inv E cfg ts I (fl_cluster f)"
    and "pg_env_ok E D" and "draws_distinct cfg ts I" and "requests_kept E D ts I" and "started (fl_cluster f') \<subseteq> I"
  shows "fleet_reachable D (pg_model E D) Ps cfg ts f f' \<and> run_inv E cfg ts I (fl_cluster f')"
  using assms
proof (induction rule: fleet_reachable.induct)
  case (more f f' f'')
  have "started (fl_cluster f') \<subseteq> started (fl_cluster f'')" by (rule fleet_step_started [OF more.hyps(2)])
  with more have ih: "fleet_reachable D (pg_model E D) Ps cfg ts f f'" "run_inv E cfg ts I (fl_cluster f')" by simp_all
  have sch: "pg_schema E (cl_repo (fl_cluster f'))" using ih(2) by (simp add: run_inv_def)
  from more.hyps(2) have "fleet_step D (pg_model E D) Ps cfg ts f' f'' \<and> run_inv E cfg ts I (fl_cluster f'')"
  proof cases
    case (request i)
    have "i \<in> I" using more.prems(5) by (auto simp: request(1) started_advance)
    then show ?thesis
      using request(1) fleet_step.request [where M = "pg_model E D", OF request(2) run_inv_ready [OF ih(2) more.prems(4)]]
        run_inv_advance [OF ih(2) more.prems(2,3)] by simp
  next
    case (reads p st)
    have "read_step D (pg_model E D) cfg (view (fl_cluster f') p) st" using reads(2) by (simp only: read_any)
    moreover have "pg_moves E {} {} (cl_repo (fl_cluster f')) (ss_repo st)"
      using pg_moves_same [OF sch] pg_read_step [OF _ reads(2)] sch by simp
    ultimately show ?thesis using reads(1) run_inv_put [OF ih(2)] by (simp add: fleet_step.reads)
  next
    case (publishes p q st)
    then show ?thesis
      using fleet_step.publishes [where M = "pg_model E D" and Ps = Ps and f = f' and p = p and q = q and st = st]
        run_inv_put [OF ih(2)] processor_step_moves [of E "view (fl_cluster f') p"] sch by simp
  qed
  with ih show ?case by (blast intro: fleet_reachable.more)
qed (simp add: fleet_reachable.start)

text \<open>Restricted runs are runs.\<close>

lemma cluster_any: "cluster_reachable D (pg_model E D) P cfg ts c c' \<Longrightarrow> cluster_reachable D (pg_any E D) P cfg ts c c'"
proof (induction rule: cluster_reachable.induct)
  case (more c c' c'')
  from more.hyps(2) have "cluster_step D (pg_any E D) P cfg ts c' c''"
    by cases (use cluster_step.request [where M = "pg_any E D"] cluster_step.background [where M = "pg_any E D"] background_any in auto)
  with more.IH show ?case by (rule cluster_reachable.more)
qed (rule cluster_reachable.start)

lemma fleet_any: "fleet_reachable D (pg_model E D) Ps cfg ts f f' \<Longrightarrow> fleet_reachable D (pg_any E D) Ps cfg ts f f'"
proof (induction rule: fleet_reachable.induct)
  case (more f f' f'')
  from more.hyps(2) have "fleet_step D (pg_any E D) Ps cfg ts f' f''"
    by cases (use fleet_step.request [where M = "pg_any E D"] fleet_step.reads [where M = "pg_any E D"]
        fleet_step.publishes [where M = "pg_any E D"] read_any in auto)
  with more.IH show ?case by (rule fleet_reachable.more)
qed (rule fleet_reachable.start)

section \<open>Audits of a chain with a bad entry\<close>

text \<open>Every audit whose range or window holds the entry at position \<open>n\<close> rejects the chain, if it is answered.\<close>

definition audits_reject ::
    "third_party \<Rightarrow> 's ledger_repository \<Rightarrow> app_config \<Rightarrow> string \<Rightarrow> nat \<Rightarrow> ledger_entry_record list \<Rightarrow> 's service_state \<Rightarrow> bool" where
  "audits_reject D R cfg t n es st \<longleftrightarrow>
     (\<forall>s_id e_id i j v st'. starts_at es s_id i \<longrightarrow> ends_before es e_id j \<longrightarrow> i < n \<longrightarrow> n \<le> j \<longrightarrow>
        verify_chain D R cfg t s_id e_id st = Some (Inr v, st') \<longrightarrow> \<not> vc_chain_valid v)
     \<and> (\<forall>m v st'. int (length es) - m < int n \<longrightarrow>
        verify_recent_chain D R cfg t m st = Some (Inr v, st') \<longrightarrow> \<not> vc_chain_valid v)"

lemma audit_range_bad:
  assumes "k < length es" and "\<not> hash_ok D (es ! k)" and "i \<le> k" and "k < j" and "j \<le> length es"
  shows "\<not> vc_chain_valid (fst (audit_range D g es i j))"
proof -
  have "take (j - i) (drop i es) ! (k - i) = es ! k" "k - i < length (take (j - i) (drop i es))" using assms by simp_all
  then have "es ! k \<in> set (take (j - i) (drop i es))" by (metis nth_mem)
  with assms(2) show ?thesis by (auto simp: audit_range_def audit_valid_iff intact_def)
qed

lemma pg_audits_reject:
  assumes sch: "pg_schema E (ss_repo st)" and es: "pg_chain E (ss_repo st) t = es" and k: "k < length es"
    and bad: "\<not> hash_ok D (es ! k)" and len: "int (length es) \<le> I64_MAX"
  shows "audits_reject D (postgres E D) cfg t (k + 1) es st"
proof -
  have pos: "positions_ok es" using pg_schema_parts(3) [OF sch] es by blast
  have "\<not> vc_chain_valid v" if b: "starts_at es s_id i" "ends_before es e_id j" "i < k + 1" "k + 1 \<le> j"
    and run: "verify_chain D (postgres E D) cfg t s_id e_id st = Some (Inr v, st')" for s_id e_id i j v st'
  proof -
    have "i < j \<or> es = []" using b by simp
    from pg_store.verify_chain_range [OF pg_schema_parts(2) [OF sch] es pos len b(1,2) this, of D D cfg] run
    have "v = fst (audit_range D (genesis_hash D cfg) es i j)" by (auto simp: reports_def)
    moreover have "j \<le> length es" using b(2) by (cases e_id) auto
    ultimately show ?thesis using audit_range_bad [OF k bad] b by simp
  qed
  moreover have "\<not> vc_chain_valid v" if m: "int (length es) - m < int (k + 1)"
    and run: "verify_recent_chain D (postgres E D) cfg t m st = Some (Inr v, st')" for m v st'
  proof -
    have "0 < m" using run by (auto simp: verify_recent_chain_def split: if_splits)
    from pg_store.verify_recent_chain_window [OF pg_schema_parts(2) [OF sch] es pos len this refl, of D D cfg] run
    have "v = fst (audit_range D (genesis_hash D cfg) es (length es - nat m) (length es))" by (auto simp: reports_def)
    then show ?thesis using audit_range_bad [OF k bad, of "length es - nat m" "length es"] m k \<open>0 < m\<close> by simp
  qed
  ultimately show ?thesis unfolding audits_reject_def by blast
qed

text \<open>A bad entry at the end of a chain is never repaired: later audits that cover it reject the chain.\<close>

lemma pg_bad_entry_stays:
  assumes sch: "pg_schema E (ss_repo st)" and chain: "pg_chain E (ss_repo st) t = es @ [e]" and bad: "\<not> hash_ok D e"
    and "cl_repo (fl_cluster f) = ss_repo st" and run: "fleet_reachable D (pg_any E D) Ps cfg ts f f'"
    and len: "int (length (pg_chain E (cl_repo (fl_cluster f')) t)) \<le> I64_MAX"
  shows "audits_reject D (postgres E D) cfg' t (length es + 1) (pg_chain E (cl_repo (fl_cluster f')) t) (view (fl_cluster f') p)"
proof -
  let ?c = "fl_cluster f'"
  have m: "pg_moves E UNIV UNIV (ss_repo st) (cl_repo ?c)" using fleet_moves [OF run] assms(4) sch by simp
  from pg_moves_extends [OF m] chain obtain more where more: "pg_chain E (cl_repo ?c) t = (es @ [e]) @ more"
    unfolding extends_def by metis
  have "pg_schema E (ss_repo (view ?c p))" using pg_moves_schema [OF m] by simp
  from pg_audits_reject [OF this refl, where t = t and k = "length es" and D = D and cfg = cfg'] len bad more
  show ?thesis by (simp add: nth_append)
qed

lemma write_entry_schema:
  assumes "pg_schema E (ss_repo st)" and "write_entry D (postgres E D) P cfg env input st = (r, st')"
  shows "pg_schema E (ss_repo st')"
  using task_runs_moves [OF returns_write_entry [OF assms(2)] assms(1)] by (rule pg_moves_schema)

text \<open>A request that runs alone is a run.\<close>

lemma solo_any:
  assumes "solo D (postgres E D) (Ps (tk_proc (ts i))) cfg ts i c c'"
  shows "fleet_reachable D (pg_any E D) Ps cfg ts (f\<lparr>fl_cluster := c\<rparr>) (f\<lparr>fl_cluster := c'\<rparr>)"
  using assms
proof (induction rule: solo.induct)
  case (move c c')
  have "fleet_step D (pg_any E D) Ps cfg ts (f\<lparr>fl_cluster := c\<rparr>)
      (f\<lparr>fl_cluster := advance D (postgres E D) (Ps (tk_proc (ts i))) cfg ts i c\<rparr>)"
    using fleet_step.request [where M = "pg_any E D" and f = "f\<lparr>fl_cluster := c\<rparr>" and ts = ts and i = i] move.hyps(1) by simp
  then show ?case using fleet_reachable_trans [OF move.IH] by (blast intro: fleet_reachable.intros)
qed (rule fleet_reachable.start)

lemma write_any:
  assumes "write_entry D (postgres E D) (Ps (tk_proc (ts i))) cfg (tk_env (ts i)) (tk_input (ts i)) (service_new s) = (r, st)"
  shows "\<exists>f. fleet_reachable D (pg_any E D) Ps cfg ts (fleet_new s) f \<and> cl_repo (fl_cluster f) = ss_repo st"
proof -
  let ?c = "cluster_new s"
  have v: "view ?c p = service_new s" for p by (simp add: view_def cluster_new_def service_new_def)
  obtain c' where c': "solo D (postgres E D) (Ps (tk_proc (ts i))) cfg ts i ?c c'" "view c' (tk_proc (ts i)) = st"
    using solo_task_runs [where ts = ts and i = i and c = ?c, OF returns_write_entry [OF assms] _ v]
    by (auto simp: cluster_new_def)
  have "fleet_new s = (fleet_new s)\<lparr>fl_cluster := ?c\<rparr>" by (simp add: fleet_new_def)
  with solo_any [where Ps = Ps and ts = ts and f = "fleet_new s", OF c'(1)] have "fleet_reachable D (pg_any E D) Ps cfg ts (fleet_new s) ((fleet_new s)\<lparr>fl_cluster := c'\<rparr>)"
    by simp
  moreover have "cl_repo c' = ss_repo st" using arg_cong [OF c'(2), of ss_repo] by simp
  ultimately show ?thesis by (intro exI [of _ "(fleet_new s)\<lparr>fl_cluster := c'\<rparr>"]) simp
qed

text \<open>Runs from empty tables under the conditions on the requests that have started.\<close>

lemma cluster_ready_new:
  assumes "pg_env_ok E D" and "draws_distinct cfg ts (started c')" and "requests_kept E D ts (started c')"
    and "cluster_reachable D (pg_any E D) P cfg ts (cluster_new pg_empty) c" and "cluster_reachable D (pg_any E D) P cfg ts c c'"
  shows "cluster_reachable D (pg_model E D) P cfg ts (cluster_new pg_empty) c"
    and "cluster_reachable D (pg_model E D) P cfg ts c c'"
proof -
  have "started c \<subseteq> started c'" using assms(5)
  proof (induction rule: cluster_reachable.induct)
    case (more c c' c'')
    with cluster_step_started [OF more.hyps(2)] show ?case by blast
  qed simp
  moreover have "run_inv E cfg ts (started c') (cluster_new pg_empty)"
    using assms(1) by (intro run_inv_new) (simp add: pg_env_ok_def)
  ultimately have first: "cluster_reachable D (pg_model E D) P cfg ts (cluster_new pg_empty) c \<and> run_inv E cfg ts (started c') c"
    by (intro cluster_ready [OF assms(4) _ assms(1-3)])
  then show "cluster_reachable D (pg_model E D) P cfg ts (cluster_new pg_empty) c" by blast
  from first cluster_ready [OF assms(5) _ assms(1-3)] show "cluster_reachable D (pg_model E D) P cfg ts c c'" by blast
qed

lemma fleet_ready_new:
  assumes "pg_env_ok E D" and "draws_distinct cfg ts (started (fl_cluster f'))" and "requests_kept E D ts (started (fl_cluster f'))"
    and "fleet_reachable D (pg_any E D) Ps cfg ts (fleet_new pg_empty) f" and "fleet_reachable D (pg_any E D) Ps cfg ts f f'"
  shows "fleet_reachable D (pg_model E D) Ps cfg ts (fleet_new pg_empty) f"
    and "fleet_reachable D (pg_model E D) Ps cfg ts f f'"
proof -
  let ?I = "started (fl_cluster f')"
  have "started (fl_cluster f) \<subseteq> ?I" using assms(5)
  proof (induction rule: fleet_reachable.induct)
    case (more f f' f'')
    with fleet_step_started [OF more.hyps(2)] show ?case by blast
  qed simp
  moreover have "run_inv E cfg ts ?I (fl_cluster (fleet_new pg_empty))"
    using assms(1) run_inv_new by (simp add: fleet_new_def pg_env_ok_def)
  ultimately have first: "fleet_reachable D (pg_model E D) Ps cfg ts (fleet_new pg_empty) f \<and> run_inv E cfg ts ?I (fl_cluster f)"
    by (intro fleet_ready [OF assms(4) _ assms(1-3)])
  then show "fleet_reachable D (pg_model E D) Ps cfg ts (fleet_new pg_empty) f" by blast
  from first fleet_ready [OF assms(5) _ assms(1-3)] show "fleet_reachable D (pg_model E D) Ps cfg ts f f'" by blast
qed

end
