(* ===== verification/Processors_Sample.thy ===== *)
theory Processors_Sample
  imports Writers_Sample Postgres_Runs
begin

text \<open>
  Two processes on one PostgreSQL database: process 0 writes an entry, process 1 delivers its
  event. The sink accepts every call of process 1 and refuses the first of process 0.
\<close>

definition sample_sinks :: "nat \<Rightarrow> publisher" where
  "sample_sinks p =
     (if p = 1 then \<lparr>pub_is_enabled = True, pub_publish = (\<lambda>_ _. Inr ())\<rparr> else sample_publisher)"

lemma sample_sinks_simps [simp]:
  "sample_sinks 0 = sample_publisher" "starts_outbox_processor (sample_sinks p)"
  "pub_publish (sample_sinks 1) n x = Inr ()" "pub_publish (sample_sinks (Suc 0)) n x = Inr ()"
  "pub_publish sample_publisher 0 x = Inl ''refused''"
  by (simp_all add: sample_sinks_def starts_outbox_processor_def sample_publisher_def)

lemma sample_fleet_written:
  "\<exists>f. fleet_reachable sample_D (pg_model sample_E sample_D) sample_sinks sample_cfg (sample_tasks 0) (fleet_new pg_empty) f
    \<and> cl_repo (fl_cluster f) = ss_repo sample_pg_written \<and> fl_processor f = (\<lambda>_. Polling) \<and> calls f 1 = []
    \<and> started (fl_cluster f) = {0}"
proof -
  let ?c = "cluster_new pg_empty" and ?M = "pg_model sample_E sample_D" and ?ts = "sample_tasks 0"
  have v: "view ?c 0 = sample_pg_start" by (simp add: cluster_new_view sample_pg_start_def)
  have inv: "pg_inv sample_E sample_D (cl_repo ?c)" "rooted sample_D sample_cfg (sm_chain ?M (cl_repo ?c))"
    using pg_system_start [OF sample_pg_env, of sample_cfg] by (simp_all add: system_inv_def service_new_def cluster_new_def)
  have "cl_phase ?c 0 = Checking" "cl_locked ?c (tk_proc (?ts 0)) (tk_chain (?ts 0)) = None" by (simp_all add: cluster_new_def)
  moreover have "write_ready sample_D ?M (sample_sinks (tk_proc (?ts 0))) sample_cfg (tk_env (?ts 0)) (tk_input (?ts 0))
      (view ?c (tk_proc (?ts 0)))"
    by (simp add: v sample_pg_ready)
  moreover have "write_entry sample_D (sm_repo ?M) (sample_sinks (tk_proc (?ts 0))) sample_cfg (tk_env (?ts 0)) (tk_input (?ts 0))
      (view ?c (tk_proc (?ts 0))) = (Inr (output_of_entry sample_D sample_entry), sample_pg_written)"
    by (simp add: v sample_pg_write)
  ultimately obtain c' where c': "solo sample_D (sm_repo ?M) (sample_sinks (tk_proc (?ts 0))) sample_cfg ?ts 0 ?c c'"
    "pg_system.alone sample_E sample_D sample_cfg (sample_sinks (tk_proc (?ts 0))) (?ts 0) (cl_phase ?c 0) (view ?c (tk_proc (?ts 0)))"
    "view c' (tk_proc (?ts 0)) = sample_pg_written" "\<forall>q. q \<noteq> tk_proc (?ts 0) \<longrightarrow> cl_proc c' q = cl_proc ?c q"
    "cl_phase c' = (cl_phase ?c)(0 := Finished (Inr (output_of_entry sample_D sample_entry)))"
    using pg_system.atomic_write_solo [where ts = ?ts and i = 0 and c = ?c, OF _ _ inv] by blast
  have "fleet_reachable sample_D ?M sample_sinks sample_cfg ?ts (fleet_new pg_empty) ((fleet_new pg_empty)\<lparr>fl_cluster := c'\<rparr>)"
    using pg_shared.solo_fleet [where Ps = sample_sinks and ts = ?ts and i = 0 and f = "fleet_new pg_empty", OF c'(1) sample_genesis sample_limit c'(2)]
    by (simp add: fleet_new_def)
  moreover have "cl_repo c' = ss_repo sample_pg_written" using arg_cong [OF c'(3), of ss_repo] by simp
  moreover have "calls ((fleet_new pg_empty)\<lparr>fl_cluster := c'\<rparr>) 1 = []"
    using c'(4) by (simp add: calls_def cluster_new_def service_new_def)
  moreover have "started c' = {0}" by (auto simp: started_def c'(5) cluster_new_def)
  ultimately show ?thesis by (intro exI [of _ "(fleet_new pg_empty)\<lparr>fl_cluster := c'\<rparr>"]) (simp add: fleet_new_def)
qed

lemma sample_fleet_delivered:
  "\<exists>f. fleet_reachable sample_D (pg_model sample_E sample_D) sample_sinks sample_cfg (sample_tasks 0) (fleet_new pg_empty) f
    \<and> pg_outboxes sample_D (cl_repo (fl_cluster f)) 2 = Some (sample_pg_event\<lparr>ob_status := Delivered\<rparr>)
    \<and> (sample_pg_event, True) \<in> set (calls f 1) \<and> started (fl_cluster f) = {0}"
proof -
  let ?M = "pg_model sample_E sample_D"
  obtain f where f: "fleet_reachable sample_D ?M sample_sinks sample_cfg (sample_tasks 0) (fleet_new pg_empty) f"
    "cl_repo (fl_cluster f) = ss_repo sample_pg_written" "fl_processor f = (\<lambda>_. Polling)" "calls f 1 = []"
    "started (fl_cluster f) = {0}" using sample_fleet_written by blast
  let ?st = "view (fl_cluster f) 1"
  have polling: "fl_processor f 1 = Polling" by (simp add: f(3))
  obtain r s' where poll: "pg_pending_outbox sample_E sample_D (ss_repo ?st) = (r, s')" by fastforce
  then have "\<exists>xs. r = Inr xs"
    by (auto simp: pg_pending_outbox_def quiet_calls [OF sample_quiet])
  then obtain xs where xs: "r = Inr xs" by blast
  have inv: "pg_inv sample_E sample_D (ss_repo ?st)" by (simp add: f(2) sample_pg_inv)
  have "{x \<in> ran [2 \<mapsto> sample_pg_event]. ob_status x = Pending} = {sample_pg_event}" by (auto simp: ran_def)
  moreover have "pg_outboxes sample_D (ss_repo ?st) = [2 \<mapsto> sample_pg_event]" by (simp add: f(2) sample_pg_outbox)
  ultimately have "distinct (map ob_outbox_id xs)" and set: "set xs = {sample_pg_event}" and same: "same_tables (ss_repo ?st) s'"
    using pg_pending_spec [OF inv poll] unfolding xs by simp_all
  then have "distinct xs" by (simp add: distinct_map)
  from distinct_card [OF this] have "length xs = Suc 0" unfolding set by simp
  then obtain y where y: "xs = [y]" unfolding length_Suc_conv by blast
  then have one: "xs = [sample_pg_event]" using set by simp
  let ?st' = "?st\<lparr>ss_repo := s'\<rparr>" and ?m = "cfg_outbox_max_retries sample_cfg"
  have pass: "outbox_iteration (sample_sinks 1) (postgres sample_E sample_D) sample_cfg ?st =
      sleep 500 (process_record (sample_sinks 1) (postgres sample_E sample_D) ?m sample_pg_event ?st')"
    using poll by (simp add: outbox_iteration_def on_repo_def xs one postgres_def)
  have "pg_inv sample_E sample_D (ss_repo ?st')"
    "pg_outboxes sample_D (ss_repo ?st') (ob_outbox_id sample_pg_event) = Some sample_pg_event"
    using inv by (simp_all add: same_tables_meaning [OF same] f(2) sample_pg_outbox)
  from pg_accepted_record [where P = "sample_sinks 1", OF sample_quiet this]
  have marked: "pg_outboxes sample_D (ss_repo (process_record (sample_sinks 1) (postgres sample_E sample_D) ?m sample_pg_event ?st')) 2 =
      Some (sample_pg_event\<lparr>ob_status := Delivered\<rparr>)"
    "(sample_pg_event, True) \<in> set (ss_publish_log (process_record (sample_sinks 1) (postgres sample_E sample_D) ?m sample_pg_event ?st'))"
    by simp_all
  obtain f' where f': "fleet_reachable sample_D ?M sample_sinks sample_cfg (sample_tasks 0) f f'"
    "view (fl_cluster f') 1 = outbox_iteration (sample_sinks 1) (postgres sample_E sample_D) sample_cfg ?st"
    "cl_phase (fl_cluster f') = cl_phase (fl_cluster f)"
    using processor_runs_fleet [where Ps = sample_sinks and p = 1 and M = ?M and f = f and D = sample_D and ts = "sample_tasks 0",
        OF processor_pass _ polling refl] by auto
  let ?r = "process_record (sample_sinks 1) (postgres sample_E sample_D) ?m sample_pg_event ?st'"
  have "cl_repo (fl_cluster f') = ss_repo ?r" "calls f' 1 = ss_publish_log ?r"
    using arg_cong [OF f'(2) [unfolded pass], of ss_repo] arg_cong [OF f'(2) [unfolded pass], of ss_publish_log]
    by (simp_all add: sleep_def)
  with marked have "pg_outboxes sample_D (cl_repo (fl_cluster f')) 2 = Some (sample_pg_event\<lparr>ob_status := Delivered\<rparr>)"
    "(sample_pg_event, True) \<in> set (calls f' 1)" by simp_all
  moreover have "started (fl_cluster f') = {0}" using f(5) f'(3) by (simp add: started_def)
  ultimately show ?thesis using fleet_reachable_trans [OF f'(1) f(1)] by blast
qed

text \<open>The sample requests draw distinct UUIDs, and the columns keep their texts.\<close>

lemma sample_kept: "requests_kept sample_E sample_D (sample_tasks q) I"
proof -
  have "request_kept sample_input"
    by (simp add: request_kept_def sample_input_def varchar_kept_length)
  moreover have "clock_kept sample_E sample_D (tk_env (sample_tasks q i))" for i
    by (simp add: clock_kept_def sample_clip)
  ultimately show ?thesis by (simp add: requests_kept_def)
qed

lemma sample_draws:
  assumes "i \<in> {0, 1}" and "k < 10"
  shows "dr_entry_id (en_draws (tk_env (sample_tasks q i)) k) = word_of_nat (1000 * i + 3 * k + 1)"
    and "dr_outbox_id (en_draws (tk_env (sample_tasks q i)) k) = word_of_nat (1000 * i + 3 * k + 2)"
  using assms by (auto simp: sample_tasks_def sample_env_def sample_retry_env_def)

lemma small_uuid_inj:
  assumes "\<And>i k. i \<in> {0, 1} \<Longrightarrow> k < 10 \<Longrightarrow> f i k = (word_of_nat (1000 * i + 3 * k + m) :: uuid)" and "m < 10"
  shows "inj_on (\<lambda>(i, k). f i k) ({0, 1} \<times> {..<10})"
proof (rule inj_onI, clarify)
  fix i k j l :: nat
  assume b: "i \<in> {0, 1}" "k < 10" "j \<in> {0, 1}" "l < 10" and "f i k = f j l"
  then have "1000 * i + 3 * k + m = 1000 * j + 3 * l + m"
    using assms small_uuid_eq [of "1000 * i + 3 * k + m" "1000 * j + 3 * l + m"] by auto
  with b show "i = j \<and> k = l" by auto
qed

lemma sample_distinct: "draws_distinct sample_cfg (sample_tasks q) {0, 1}"
  using small_uuid_inj [OF sample_draws(1)] small_uuid_inj [OF sample_draws(2)]
  by (simp add: draws_distinct_def sample_cfg_def)

lemma draws_distinct_subset: "draws_distinct cfg ts J \<Longrightarrow> I \<subseteq> J \<Longrightarrow> draws_distinct cfg ts I"
  unfolding draws_distinct_def by (meson inj_on_subset Sigma_mono order_refl)

text \<open>The request whose agent id ends with a space too many: it is stored shortened.\<close>

lemma spaced_long: "drop_chars 255 (we_agent_id spaced_input) \<noteq> []"
  by (simp add: spaced_fits(3))

lemma spaced_short: "take_chars 255 (we_agent_id spaced_input) = full_width"
  by (simp add: spaced_input_def full_width_chars)

lemma sample_pg_unused: "\<not> key_used k (pg_chain sample_E (ss_repo sample_pg_start) t)"
  by (simp add: sample_pg_empty key_used_def split: option.splits)

lemma spaced_write:
  "\<exists>out e st'. write_entry sample_D (postgres sample_E sample_D) sample_publisher sample_cfg sample_env spaced_input
      sample_pg_start = (Inr out, st')
    \<and> pg_chain sample_E (ss_repo st') ''agent.decision'' = [e] \<and> le_agent_id e = full_width"
proof -
  from pg_trailing_spaces [OF sample_quiet sample_pg_start_inv sample_pg_fresh sample_genesis
      spaced_input_simps(1) sample_pg_not_halted sample_limit spaced_fits(1,2) spaced_long sample_pg_unused refl refl
      sample_event sample_encodings_ok refl, where env = sample_env and P = sample_publisher]
  obtain out e st' where "write_entry sample_D (postgres sample_E sample_D) sample_publisher sample_cfg sample_env spaced_input
      sample_pg_start = (Inr out, st')"
    "pg_chain sample_E (ss_repo st') (we_entry_type spaced_input) = pg_chain sample_E (ss_repo sample_pg_start) (we_entry_type spaced_input) @ [e]"
    "le_agent_id e = take_chars 255 (we_agent_id spaced_input)" by blast
  then show ?thesis unfolding spaced_input_simps(2) spaced_short sample_pg_empty append_Nil by blast
qed

end
