(* ===== verification/Mcp_Classify.thy ===== *)
theory Mcp_Classify
  imports Ledger_Prelude
begin

text \<open>
  The request filter of the demo gateway
  (\<open>demo/praxis-audit/gateway/src/mcp_classify.rs\<close>): it buffers a JSON-RPC body, stamps the
  method and the tool name on the request and releases the body unchanged. The filter
  framework's metadata update and JSON parsing are parameters.
\<close>

datatype filter_action = Continue | Release

datatype body_mode = StreamBuffer "nat option"

definition MAX_BODY_BYTES :: nat where
  "MAX_BODY_BYTES = 256 * 1024"

definition request_body_mode :: body_mode where
  "request_body_mode = StreamBuffer (Some MAX_BODY_BYTES)"

text \<open>\<open>Value::get\<close> with a text key, and \<open>Value::as_str\<close>.\<close>

definition json_get :: "string \<Rightarrow> json \<Rightarrow> json option" where
  "json_get key v = (case v of JObject members \<Rightarrow> map_of members key | _ \<Rightarrow> None)"

definition json_as_str :: "json \<Rightarrow> string option" where
  "json_as_str v = (case v of JString s \<Rightarrow> Some s | _ \<Rightarrow> None)"

definition rpc_method :: "json \<Rightarrow> string option" where
  "rpc_method rpc = Option.bind (json_get ''method'' rpc) json_as_str"

definition rpc_name :: "json \<Rightarrow> string option" where
  "rpc_name rpc =
     Option.bind
       (Option.bind (json_get ''params'' rpc)
         (\<lambda>p. case json_get ''name'' p of Some v \<Rightarrow> Some v | None \<Rightarrow> json_get ''uri'' p))
       json_as_str"

definition on_request_body ::
    "(u8 list \<Rightarrow> json option) \<Rightarrow> (string \<Rightarrow> string \<Rightarrow> 'ctx \<Rightarrow> 'ctx) \<Rightarrow> 'ctx \<Rightarrow> u8 list option \<Rightarrow> bool \<Rightarrow>
     filter_action \<times> 'ctx \<times> u8 list option" where
  "on_request_body from_slice set_metadata ctx body end_of_stream =
     (if \<not> end_of_stream then (Continue, ctx, body)
      else
        (case Option.bind body from_slice of
           None \<Rightarrow> (Release, ctx, body)
         | Some rpc \<Rightarrow>
             let ctx = (case rpc_method rpc of
                          None \<Rightarrow> ctx
                        | Some m \<Rightarrow> set_metadata ''mcp.method'' m (set_metadata ''json_rpc.method'' m ctx));
                 ctx = (case rpc_name rpc of None \<Rightarrow> ctx | Some n \<Rightarrow> set_metadata ''mcp.name'' n ctx)
             in (Release, ctx, body)))"

text \<open>The body is never changed, and it is held back exactly until it is complete.\<close>

lemma body_released_unchanged:
  "\<exists>ctx'. on_request_body from_slice set_metadata ctx body end_of_stream =
     (if end_of_stream then Release else Continue, ctx', body)"
  by (auto simp: on_request_body_def Let_def split: option.split)

text \<open>
  With metadata as a map: exactly the three keys can change, and the name is stamped only
  from a text, so a body that is not JSON-RPC leaves the policy filter nothing to accept.
\<close>

lemma metadata_stamped:
  "on_request_body from_slice (\<lambda>k v m. m(k \<mapsto> v)) ctx body True =
     (Release,
      (case Option.bind body from_slice of
         None \<Rightarrow> ctx
       | Some rpc \<Rightarrow>
           (\<lambda>k. if k = ''mcp.name'' \<and> rpc_name rpc \<noteq> None then rpc_name rpc
                else if k \<in> {''mcp.method'', ''json_rpc.method''} \<and> rpc_method rpc \<noteq> None then rpc_method rpc
                else ctx k)),
      body)"
proof (cases "Option.bind body from_slice")
  case (Some rpc)
  then show ?thesis
    by (cases "rpc_method rpc"; cases "rpc_name rpc") (simp_all add: on_request_body_def Let_def fun_eq_iff)
qed (simp add: on_request_body_def)

end
