(* ===== verification/Gateway.thy ===== *)
theory Gateway
  imports Mcp_Classify
begin

text \<open>
  The start-up of the demo gateway (\<open>demo/praxis-audit/gateway/src/main.rs\<close>): the choice of
  the configuration file, the registrations made before the server starts, and the order in
  which failures end the process. The functions of the praxis crates are the fields of the
  record \<open>praxis\<close>; what they did is a trace of calls.
\<close>

section \<open>Arguments\<close>

text \<open>
  \<open>args().skip_while(..).nth(1)\<close>, or else the environment variable: the argument after the
  first \<open>-c\<close> or \<open>--config\<close>.
\<close>

definition is_config_flag :: "string \<Rightarrow> bool" where
  "is_config_flag a \<longleftrightarrow> a = ''-c'' \<or> a = ''--config''"

definition explicit_config :: "string list \<Rightarrow> (string \<Rightarrow> string option) \<Rightarrow> string option" where
  "explicit_config args env =
     (case drop 1 (dropWhile (\<lambda>a. \<not> is_config_flag a) args) of
        path # _ \<Rightarrow> Some path
      | [] \<Rightarrow> env ''PRAXIS_CONFIG'')"

section \<open>Start-up\<close>

text \<open>Calls with effects, in the order in which they are made.\<close>

datatype gateway_call =
    Install_crypto_provider
  | Register_policy_plugin string
  | Init_tracing
  | Register_filter string
  | Run_server

text \<open>
  The functions of the praxis crates: \<open>resolve_config_path\<close>, \<open>ConfigFile::read\<close>,
  \<open>Config::from_config_file_or\<close> (with the built-in configuration, under bootstrap logging),
  \<open>init_tracing\<close> with the log level state of its guard, the configured log output,
  \<open>try_run_server_with_registry\<close>, and the exit codes of \<open>fatal\<close> and \<open>report_fatal\<close>;
  \<open>fatal\<close> does not return. A registry is the list of the names added to the built-in
  filters. The plug-in kinds are constants of other crates.
\<close>

record ('file, 'config, 'level, 'output, 'err) praxis =
  px_ocsf_audit_kind :: string
  px_pii_scanner_kind :: string
  px_resolve_config_path :: "string option \<Rightarrow> string option"
  px_read :: "string \<Rightarrow> 'err + 'file"
  px_from_config_file_or :: "'file option \<Rightarrow> 'err + 'config"
  px_init_tracing :: "'config \<Rightarrow> 'err + 'level"
  px_run_server :: "'config \<Rightarrow> string list \<Rightarrow> 'file option \<Rightarrow> 'level option \<Rightarrow> 'err option"
  px_logging_output :: "'config \<Rightarrow> 'output"
  px_fatal :: "'err \<Rightarrow> nat"
  px_report_fatal :: "'err \<Rightarrow> 'output \<Rightarrow> nat"

definition EXIT_SUCCESS :: nat where
  "EXIT_SUCCESS = 0"

text \<open>\<open>mcp_classify::register_filters\<close>.\<close>

definition register_filters :: "string list \<Rightarrow> string list" where
  "register_filters registry = registry @ [''mcp_classify'']"

text \<open>\<open>config_path.map(ConfigFile::read).transpose()\<close>\<close>

definition read_config_file ::
    "('file, 'config, 'level, 'output, 'err) praxis \<Rightarrow> string option \<Rightarrow> 'err + 'file option" where
  "read_config_file X config_path =
     (case config_path of
        None \<Rightarrow> Inr None
      | Some path \<Rightarrow> (case px_read X path of Inl e \<Rightarrow> Inl e | Inr file \<Rightarrow> Inr (Some file)))"

definition registrations :: "('file, 'config, 'level, 'output, 'err) praxis \<Rightarrow> gateway_call list" where
  "registrations X =
     [Install_crypto_provider, Register_policy_plugin (px_ocsf_audit_kind X),
      Register_policy_plugin (px_pii_scanner_kind X)]"

definition gateway_main ::
    "('file, 'config, 'level, 'output, 'err) praxis \<Rightarrow> string list \<Rightarrow> (string \<Rightarrow> string option) \<Rightarrow>
     nat \<times> gateway_call list" where
  "gateway_main X args env =
     (let calls = registrations X;
          config_path = px_resolve_config_path X (explicit_config args env)
      in
        (case read_config_file X config_path of
           Inl e \<Rightarrow> (px_fatal X e, calls)
         | Inr config_file \<Rightarrow>
             (case px_from_config_file_or X config_file of
                Inl e \<Rightarrow> (px_fatal X e, calls)
              | Inr config \<Rightarrow>
                  (case px_init_tracing X config of
                     Inl e \<Rightarrow> (px_fatal X e, calls @ [Init_tracing])
                   | Inr log_level \<Rightarrow>
                       let log_output = px_logging_output X config;
                           registry = register_filters [];
                           calls = calls @ [Init_tracing] @ map Register_filter registry @ [Run_server]
                       in
                         (case px_run_server X config registry config_file (Some log_level) of
                            Some e \<Rightarrow> (px_report_fatal X e log_output, calls)
                          | None \<Rightarrow> (EXIT_SUCCESS, calls))))))"

section \<open>What the start-up guarantees\<close>

text \<open>The argument after the first flag wins, whatever the environment says.\<close>

lemma explicit_config_flag:
  assumes "is_config_flag flag" and "\<forall>a \<in> set before. \<not> is_config_flag a"
  shows "explicit_config (before @ flag # path # rest) env = Some path"
  using assms by (simp add: explicit_config_def)

lemma explicit_config_env:
  assumes "\<forall>a \<in> set before. \<not> is_config_flag a" and "flags = [] \<or> flags = [flag]" and "is_config_flag flag"
  shows "explicit_config (before @ flags) env = env ''PRAXIS_CONFIG''"
  using assms by (auto simp: explicit_config_def)

text \<open>A second flag is taken for the path when it follows the first one.\<close>

lemma explicit_config_flag_as_path: "explicit_config [''gateway'', ''-c'', ''--config'', p] env = Some ''--config''"
  by (simp add: explicit_config_def is_config_flag_def)

text \<open>
  Whatever the libraries answer, the server is started at most once, last, and only after
  all registrations: the audit sink and the scanner are known and the classifier is in the
  registry before the first request can come. If the server was not started, the process
  ended in \<open>fatal\<close>.
\<close>

lemma gateway_registers_first:
  assumes "gateway_main X args env = (code, calls)"
  shows "take 3 calls = registrations X
    \<and> (Run_server \<in> set calls \<longrightarrow>
         calls = registrations X @ [Init_tracing, Register_filter ''mcp_classify'', Run_server])
    \<and> (Run_server \<notin> set calls \<longrightarrow> (\<exists>e. code = px_fatal X e))"
  using assms
  by (auto simp: gateway_main_def registrations_def register_filters_def Let_def split: sum.splits option.splits)

text \<open>The configuration that is served is the one of the explicit file, if it was read.\<close>

lemma gateway_serves_explicit_file:
  assumes "explicit_config args env = Some p" and "px_resolve_config_path X (Some p) = Some p"
    and "px_read X p = Inr file" and "px_from_config_file_or X (Some file) = Inr config"
    and "px_init_tracing X config = Inr level"
    and "px_run_server X config [''mcp_classify''] (Some file) (Some level) = None"
  shows "fst (gateway_main X args env) = EXIT_SUCCESS"
  using assms by (simp add: gateway_main_def read_config_file_def register_filters_def Let_def)

text \<open>An explicit file that cannot be read ends the process; there is no fall-back to the default.\<close>

lemma gateway_unreadable_file:
  assumes "explicit_config args env = Some p" and "px_resolve_config_path X (Some p) = Some p"
    and "px_read X p = Inl e"
  shows "gateway_main X args env = (px_fatal X e, registrations X)"
  using assms by (simp add: gateway_main_def read_config_file_def Let_def)

end
