(* ===== verification/Shutdown.thy ===== *)
theory Shutdown
  imports Server
begin

text \<open>
  The serving part of \<open>src/main.rs\<close>: the shutdown channel, the signal task, the three
  servers that \<open>main\<close> starts one after the other, and the join that ends the process. An
  event is one thing that can happen; \<open>process_step\<close> is what it does, or \<open>None\<close> when it
  cannot happen. The watch channel is tokio's: a record of functions.
\<close>

section \<open>The watch channel\<close>

text \<open>
  \<open>wl_channel\<close> is the channel whose first receiver has been dropped, \<open>wl_send\<close> sends
  \<open>true\<close> and ignores the result, \<open>wl_changed\<close> says whether waiting for a change would
  return, \<open>wl_drop\<close> drops a receiver.
\<close>

record ('ch, 'rx) watch_library =
  wl_channel :: 'ch
  wl_send :: "'ch \<Rightarrow> 'ch"
  wl_subscribe :: "'ch \<Rightarrow> 'rx \<times> 'ch"
  wl_changed :: "'rx \<Rightarrow> 'ch \<Rightarrow> bool"
  wl_drop :: "'rx \<Rightarrow> 'ch \<Rightarrow> 'ch"

text \<open>
  What tokio documents, with \<open>alive rx ch\<close> for a receiver of the channel that has not been
  dropped: a new receiver has seen the present value; a send is seen by every receiver there
  is; subscribing and dropping leave the others alone.
\<close>

definition watch_ok :: "('ch, 'rx) watch_library \<Rightarrow> ('rx \<Rightarrow> 'ch \<Rightarrow> bool) \<Rightarrow> bool" where
  "watch_ok W alive \<longleftrightarrow>
     (\<forall>ch r. alive r ch \<longrightarrow> alive r (wl_send W ch) \<and> wl_changed W r (wl_send W ch))
     \<and> (\<forall>ch rx ch'. wl_subscribe W ch = (rx, ch') \<longrightarrow>
          \<not> alive rx ch \<and> alive rx ch' \<and> \<not> wl_changed W rx ch'
          \<and> (\<forall>r. alive r ch \<longrightarrow> alive r ch' \<and> wl_changed W r ch' = wl_changed W r ch))
     \<and> (\<forall>ch rx r. alive r ch \<longrightarrow> r \<noteq> rx \<longrightarrow>
          alive r (wl_drop W rx ch) \<and> wl_changed W r (wl_drop W rx ch) = wl_changed W r ch)"

section \<open>The process\<close>

datatype server_name = Grpc | Health | Metrics

datatype server_outcome = Completed | Serve_error string | Panicked

datatype 'rx server_task = Not_started | Serving 'rx | Stopped server_outcome

datatype main_error = Bind_health_error string | Bind_metrics_error string | Join_error
  | Server_error server_name string

datatype main_point = At_grpc | At_health | At_metrics | At_join | Exited "main_error + unit"

record ('ch, 'rx) process =
  pr_channel :: 'ch
  pr_signal_pending :: bool
  pr_point :: main_point
  pr_servers :: "server_name \<Rightarrow> 'rx server_task"

definition process_new :: "('ch, 'rx) watch_library \<Rightarrow> ('ch, 'rx) process" where
  "process_new W =
     \<lparr>pr_channel = wl_channel W, pr_signal_pending = True, pr_point = At_grpc, pr_servers = (\<lambda>_. Not_started)\<rparr>"

text \<open>Subscribe and spawn: the receiver is taken just before the task of the server.\<close>

definition spawn_server ::
    "('ch, 'rx) watch_library \<Rightarrow> server_name \<Rightarrow> main_point \<Rightarrow> ('ch, 'rx) process \<Rightarrow> ('ch, 'rx) process" where
  "spawn_server W s next_point p =
     (case wl_subscribe W (pr_channel p) of
        (rx, ch) \<Rightarrow>
          p\<lparr>pr_channel := ch, pr_servers := (pr_servers p)(s := Serving rx), pr_point := next_point\<rparr>)"

text \<open>
  The join of the three tasks and the three results, in this order. A panic ends the join at
  once; an error of a server is looked at only when all three have returned.
\<close>

definition join_result :: "(server_name \<Rightarrow> 'rx server_task) \<Rightarrow> (main_error + unit) option" where
  "join_result ts =
     (if list_ex (\<lambda>s. ts s = Stopped Panicked) [Grpc, Health, Metrics] then Some (Inl Join_error)
      else
        (case (ts Grpc, ts Health, ts Metrics) of
           (Stopped g, Stopped h, Stopped m) \<Rightarrow>
             Some (case (g, h, m) of
                 (Serve_error e, _, _) \<Rightarrow> Inl (Server_error Grpc e)
               | (_, Serve_error e, _) \<Rightarrow> Inl (Server_error Health e)
               | (_, _, Serve_error e) \<Rightarrow> Inl (Server_error Metrics e)
               | _ \<Rightarrow> Inr ())
         | _ \<Rightarrow> None))"

text \<open>
  What can happen. \<open>Signal\<close> is the return of \<open>wait_for_shutdown_signal\<close>, by either signal
  or because the handler could not be installed; the task that waits for it runs once.
  \<open>Bound None\<close> is a listener that could be bound. \<open>Posted\<close> is a request to \<open>/shutdownz\<close>.
  A server ends by itself with an error or a panic, or finishes after its receiver changed.
\<close>

datatype process_event = Signal | Spawned | Bound "string option" | Posted header_map
  | Ended server_name server_outcome | Joined

fun process_step ::
    "('ch, 'rx) watch_library \<Rightarrow> header_text \<Rightarrow> app_config \<Rightarrow> process_event \<Rightarrow> ('ch, 'rx) process \<Rightarrow>
     ('ch, 'rx) process option" where
  "process_step W to_str cfg Signal p =
     (case pr_point p of
        Exited _ \<Rightarrow> None
      | _ \<Rightarrow>
          if pr_signal_pending p
          then Some (p\<lparr>pr_signal_pending := False, pr_channel := wl_send W (pr_channel p)\<rparr>)
          else None)"
| "process_step W to_str cfg Spawned p =
     (case pr_point p of At_grpc \<Rightarrow> Some (spawn_server W Grpc At_health p) | _ \<Rightarrow> None)"
| "process_step W to_str cfg (Bound failure) p =
     (case (pr_point p, failure) of
        (At_health, None) \<Rightarrow> Some (spawn_server W Health At_metrics p)
      | (At_health, Some e) \<Rightarrow> Some (p\<lparr>pr_point := Exited (Inl (Bind_health_error e))\<rparr>)
      | (At_metrics, None) \<Rightarrow> Some (spawn_server W Metrics At_join p)
      | (At_metrics, Some e) \<Rightarrow> Some (p\<lparr>pr_point := Exited (Inl (Bind_metrics_error e))\<rparr>)
      | _ \<Rightarrow> None)"
| "process_step W to_str cfg (Posted headers) p =
     (case (pr_point p, pr_servers p Health) of
        (Exited _, _) \<Rightarrow> None
      | (_, Serving _) \<Rightarrow>
          Some (if snd (shutdownz to_str cfg headers False)
                then p\<lparr>pr_channel := wl_send W (pr_channel p)\<rparr> else p)
      | _ \<Rightarrow> None)"
| "process_step W to_str cfg (Ended s result) p =
     (case (pr_point p, pr_servers p s) of
        (Exited _, _) \<Rightarrow> None
      | (_, Serving rx) \<Rightarrow>
          if result = Completed \<and> \<not> wl_changed W rx (pr_channel p) then None
          else Some (p\<lparr>pr_servers := (pr_servers p)(s := Stopped result),
                       pr_channel := wl_drop W rx (pr_channel p)\<rparr>)
      | _ \<Rightarrow> None)"
| "process_step W to_str cfg Joined p =
     (case pr_point p of
        At_join \<Rightarrow> map_option (\<lambda>r. p\<lparr>pr_point := Exited r\<rparr>) (join_result (pr_servers p))
      | _ \<Rightarrow> None)"

fun process_run ::
    "('ch, 'rx) watch_library \<Rightarrow> header_text \<Rightarrow> app_config \<Rightarrow> process_event list \<Rightarrow> ('ch, 'rx) process \<Rightarrow>
     ('ch, 'rx) process option" where
  "process_run W to_str cfg [] p = Some p"
| "process_run W to_str cfg (x # xs) p =
     Option.bind (process_step W to_str cfg x p) (process_run W to_str cfg xs)"

section \<open>Who is told to stop\<close>

text \<open>The events that ask for a shutdown, and those that start a server.\<close>

definition asks_stop :: "header_text \<Rightarrow> app_config \<Rightarrow> process_event \<Rightarrow> bool" where
  "asks_stop to_str cfg x =
     (case x of Signal \<Rightarrow> True | Posted headers \<Rightarrow> snd (shutdownz to_str cfg headers False) | _ \<Rightarrow> False)"

definition starts :: "process_event list \<Rightarrow> nat" where
  "starts xs = length (filter (\<lambda>x. x = Spawned \<or> x = Bound None) xs)"

fun start_number :: "server_name \<Rightarrow> nat" where
  "start_number Grpc = 1"
| "start_number Health = 2"
| "start_number Metrics = 3"

text \<open>The starts that a point of \<open>main\<close> comes after.\<close>

fun at_point :: "main_point \<Rightarrow> nat \<Rightarrow> bool" where
  "at_point At_grpc n \<longleftrightarrow> n = 0"
| "at_point At_health n \<longleftrightarrow> n = 1"
| "at_point At_metrics n \<longleftrightarrow> n = 2"
| "at_point At_join n \<longleftrightarrow> n = 3"
| "at_point (Exited r) n \<longleftrightarrow> True"

lemma start_number_pos [simp]: "0 < start_number s"
  by (cases s) simp_all

text \<open>A shutdown was asked for after the \<open>n\<close>-th start.\<close>

fun asked_after :: "header_text \<Rightarrow> app_config \<Rightarrow> nat \<Rightarrow> process_event list \<Rightarrow> bool" where
  "asked_after to_str cfg n [] \<longleftrightarrow> False"
| "asked_after to_str cfg 0 (x # xs) \<longleftrightarrow> asks_stop to_str cfg x \<or> asked_after to_str cfg 0 xs"
| "asked_after to_str cfg (Suc n) (x # xs) \<longleftrightarrow>
     asked_after to_str cfg (if x = Spawned \<or> x = Bound None then n else Suc n) xs"

lemma asks_stop_simps [simp]:
  "asks_stop to_str cfg Signal"
  "\<not> asks_stop to_str cfg Spawned"
  "\<not> asks_stop to_str cfg (Bound b)"
  "\<not> asks_stop to_str cfg (Ended s r)"
  "\<not> asks_stop to_str cfg Joined"
  "asks_stop to_str cfg (Posted headers) \<longleftrightarrow> snd (shutdownz to_str cfg headers False)"
  by (simp_all add: asks_stop_def)

lemma starts_simps [simp]:
  "starts [] = 0"
  "starts (x # xs) = (if x = Spawned \<or> x = Bound None then 1 else 0) + starts xs"
  "starts (xs @ ys) = starts xs + starts ys"
  by (simp_all add: starts_def)

lemma asked_after_snoc:
  "asked_after to_str cfg n (xs @ [x]) \<longleftrightarrow>
     asked_after to_str cfg n xs \<or> n \<le> starts xs \<and> asks_stop to_str cfg x"
proof (induction xs arbitrary: n)
  case Nil
  show ?case by (cases n) simp_all
next
  case (Cons y ys)
  show ?case by (cases n) (simp_all add: Cons.IH)
qed

lemma asked_after_starts: "asked_after to_str cfg n xs \<Longrightarrow> n \<le> starts xs"
  by (induction to_str cfg n xs rule: asked_after.induct) (auto split: if_splits)

lemma process_run_append:
  "process_run W to_str cfg (xs @ ys) p =
     Option.bind (process_run W to_str cfg xs p) (process_run W to_str cfg ys)"
proof (induction xs arbitrary: p)
  case (Cons x xs)
  then show ?case by (cases "process_step W to_str cfg x p") simp_all
qed simp

definition process_inv ::
    "('ch, 'rx) watch_library \<Rightarrow> ('rx \<Rightarrow> 'ch \<Rightarrow> bool) \<Rightarrow> header_text \<Rightarrow> app_config \<Rightarrow> process_event list \<Rightarrow>
     ('ch, 'rx) process \<Rightarrow> bool" where
  "process_inv W alive to_str cfg xs p \<longleftrightarrow>
     (\<forall>s rx. pr_servers p s = Serving rx \<longrightarrow>
        alive rx (pr_channel p)
        \<and> (wl_changed W rx (pr_channel p) \<longleftrightarrow> asked_after to_str cfg (start_number s) xs))
     \<and> (\<forall>s s' rx. pr_servers p s = Serving rx \<longrightarrow> pr_servers p s' = Serving rx \<longrightarrow> s = s')
     \<and> (\<forall>s. pr_servers p s = Not_started \<longleftrightarrow> starts xs < start_number s)
     \<and> at_point (pr_point p) (starts xs)"

lemma process_invI:
  assumes "\<And>s rx. pr_servers p s = Serving rx \<Longrightarrow> alive rx (pr_channel p)"
    and "\<And>s rx. pr_servers p s = Serving rx \<Longrightarrow>
      wl_changed W rx (pr_channel p) \<longleftrightarrow> asked_after to_str cfg (start_number s) xs"
    and "\<And>s s' rx. pr_servers p s = Serving rx \<Longrightarrow> pr_servers p s' = Serving rx \<Longrightarrow> s = s'"
    and "\<And>s. pr_servers p s = Not_started \<longleftrightarrow> starts xs < start_number s"
    and "at_point (pr_point p) (starts xs)"
  shows "process_inv W alive to_str cfg xs p"
  unfolding process_inv_def using assms by blast

lemma process_invD:
  assumes "process_inv W alive to_str cfg xs p"
  shows "pr_servers p s = Serving rx \<Longrightarrow> alive rx (pr_channel p)"
    and "pr_servers p s = Serving rx \<Longrightarrow>
      wl_changed W rx (pr_channel p) \<longleftrightarrow> asked_after to_str cfg (start_number s) xs"
    and "pr_servers p s = Serving rx \<Longrightarrow> pr_servers p s' = Serving rx \<Longrightarrow> s = s'"
    and "pr_servers p s = Not_started \<longleftrightarrow> starts xs < start_number s"
    and "at_point (pr_point p) (starts xs)"
  using assms unfolding process_inv_def by blast+

lemma watch_okD:
  assumes "watch_ok W alive"
  shows "alive r ch \<Longrightarrow> alive r (wl_send W ch)"
    and "alive r ch \<Longrightarrow> wl_changed W r (wl_send W ch)"
    and "wl_subscribe W ch = (rx, ch') \<Longrightarrow> \<not> alive rx ch \<and> alive rx ch' \<and> \<not> wl_changed W rx ch'"
    and "wl_subscribe W ch = (rx, ch') \<Longrightarrow> alive r ch \<Longrightarrow> alive r ch' \<and> wl_changed W r ch' = wl_changed W r ch"
    and "alive r ch \<Longrightarrow> r \<noteq> rx \<Longrightarrow>
      alive r (wl_drop W rx ch) \<and> wl_changed W r (wl_drop W rx ch) = wl_changed W r ch"
  using assms unfolding watch_ok_def by blast+

lemma process_inv_new: "process_inv W alive to_str cfg [] (process_new W)"
  by (rule process_invI) (simp_all add: process_new_def)

text \<open>A send is seen by the servers that have started; a start adds a receiver that has seen nothing.\<close>

lemma send_keeps:
  assumes "watch_ok W alive" and "process_inv W alive to_str cfg xs p" and "asks_stop to_str cfg x"
    and "pr_channel q = wl_send W (pr_channel p)" and "pr_servers q = pr_servers p" and "pr_point q = pr_point p"
  shows "process_inv W alive to_str cfg (xs @ [x]) q"
proof -
  note I = process_invD [OF assms(2)]
  have x: "starts (xs @ [x]) = starts xs" using assms(3) by auto
  have "start_number s \<le> starts xs" if "pr_servers p s = Serving rx" for s rx
    using I(4) [of s] that by simp
  then show ?thesis
    using I(5) by (intro process_invI)
      (auto simp: x assms(3-) asked_after_snoc I(4) intro: watch_okD [OF assms(1)] I(1) dest: I(3) simp del: starts_simps)
qed

lemma spawn_keeps:
  assumes "watch_ok W alive" and "process_inv W alive to_str cfg xs p" and "x = Spawned \<or> x = Bound None"
    and "start_number s = Suc (starts xs)"
    and "at_point next_point (Suc (starts xs))"
  shows "process_inv W alive to_str cfg (xs @ [x]) (spawn_server W s next_point p)"
proof -
  note I = process_invD [OF assms(2)]
  obtain rx ch where sub: "wl_subscribe W (pr_channel p) = (rx, ch)" by fastforce
  note new = watch_okD(3) [OF assms(1) sub] and old = watch_okD(4) [OF assms(1) sub]
  have silent: "\<not> asks_stop to_str cfg x" using assms(3) by auto
  have num: "start_number s' < Suc (Suc (starts xs)) \<longleftrightarrow> start_number s' < Suc (starts xs) \<or> s' = s" for s'
    using assms(4) by (cases s; cases s') auto
  show ?thesis
  proof (rule process_invI)
    fix s' r assume a: "pr_servers (spawn_server W s next_point p) s' = Serving r"
    show "alive r (pr_channel (spawn_server W s next_point p))"
      using a new I(1) old by (auto simp: spawn_server_def sub split: if_splits)
    show "wl_changed W r (pr_channel (spawn_server W s next_point p)) \<longleftrightarrow>
        asked_after to_str cfg (start_number s') (xs @ [x])"
      using a new I(1,2) old silent asked_after_starts [of to_str cfg "start_number s" xs] assms(4)
      by (auto simp: spawn_server_def sub asked_after_snoc split: if_splits)
  next
    fix s' s'' r
    assume "pr_servers (spawn_server W s next_point p) s' = Serving r"
      and "pr_servers (spawn_server W s next_point p) s'' = Serving r"
    then show "s' = s''" using new I(1,3) by (auto simp: spawn_server_def sub split: if_splits)
  next
    fix s'
    show "pr_servers (spawn_server W s next_point p) s' = Not_started \<longleftrightarrow> starts (xs @ [x]) < start_number s'"
      using I(4) [of s'] assms(3,4) num [of s'] by (auto simp: spawn_server_def sub)
  next
    show "at_point (pr_point (spawn_server W s next_point p)) (starts (xs @ [x]))"
      using assms(3,5) by (auto simp: spawn_server_def sub)
  qed
qed

lemma end_keeps:
  assumes "watch_ok W alive" and "process_inv W alive to_str cfg xs p" and "pr_servers p s = Serving rx"
  shows "process_inv W alive to_str cfg (xs @ [Ended s r])
    (p\<lparr>pr_servers := (pr_servers p)(s := Stopped r), pr_channel := wl_drop W rx (pr_channel p)\<rparr>)"
proof -
  note I = process_invD [OF assms(2)]
  have rest: "alive r' (wl_drop W rx (pr_channel p)) \<and>
      wl_changed W r' (wl_drop W rx (pr_channel p)) = wl_changed W r' (pr_channel p)"
    if "pr_servers p s' = Serving r'" "s' \<noteq> s" for s' r'
    using watch_okD(5) [OF assms(1) I(1) [OF that(1)], of rx] I(3) [OF that(1), of s] assms(3) that(2) by auto
  moreover have "\<not> starts xs < start_number s" using assms(3) I(4) [of s] by simp
  ultimately show ?thesis
    using I by (intro process_invI) (auto simp: asked_after_snoc split: if_splits)
qed

lemma process_step_keeps:
  assumes "watch_ok W alive" and "process_inv W alive to_str cfg xs p" and "process_step W to_str cfg x p = Some p'"
  shows "process_inv W alive to_str cfg (xs @ [x]) p'"
proof -
  note I = process_invD [OF assms(2)]
  have still: "process_inv W alive to_str cfg (xs @ [x]) (p\<lparr>pr_point := Exited e\<rparr>)"
    if "\<not> asks_stop to_str cfg x" "x \<noteq> Spawned" "x \<noteq> Bound None" for e
    using that I by (intro process_invI) (auto simp: asked_after_snoc)
  show ?thesis
  proof (cases x)
    case Signal
    then show ?thesis
      using assms(3) send_keeps [OF assms(1,2), of Signal p'] by (auto split: main_point.splits if_splits)
  next
    case Spawned
    then show ?thesis
      using assms(3) I(5) spawn_keeps [OF assms(1,2), of Spawned Grpc At_health] by (auto split: main_point.splits)
  next
    case (Bound b)
    then show ?thesis
      using assms(3) I(5) still spawn_keeps [OF assms(1,2), of "Bound None" Health At_metrics]
        spawn_keeps [OF assms(1,2), of "Bound None" Metrics At_join]
      by (auto split: main_point.splits option.splits)
  next
    case (Posted h)
    have "process_inv W alive to_str cfg (xs @ [Posted h]) p" if "\<not> asks_stop to_str cfg (Posted h)"
      using that I by (intro process_invI) (auto simp: asked_after_snoc)
    then show ?thesis
      using assms(3) Posted send_keeps [OF assms(1,2), of "Posted h" p']
      by (auto split: main_point.splits server_task.splits if_splits)
  next
    case (Ended s r)
    then show ?thesis
      using assms(3) end_keeps [OF assms(1,2)] by (auto split: main_point.splits server_task.splits if_splits)
  next
    case Joined
    then show ?thesis using assms(3) still by (auto split: main_point.splits)
  qed
qed

lemma process_run_keeps:
  assumes "watch_ok W alive" and "process_inv W alive to_str cfg xs p" and "process_run W to_str cfg ys p = Some p'"
  shows "process_inv W alive to_str cfg (xs @ ys) p'"
  using assms(2,3)
proof (induction ys arbitrary: xs p)
  case (Cons y ys)
  then obtain q where "process_step W to_str cfg y p = Some q" "process_run W to_str cfg ys q = Some p'"
    by (auto simp: bind_eq_Some_conv)
  with Cons.IH [OF process_step_keeps [OF assms(1) Cons.prems(1)]] show ?case by simp
qed simp

section \<open>When the process ends\<close>

text \<open>
  \<open>drain p\<close>: every server that is still serving finishes, then the join returns.
  \<open>quiet\<close> events neither ask for a shutdown nor are failures of a server.
\<close>

definition serving :: "('ch, 'rx) process \<Rightarrow> server_name list" where
  "serving p = filter (\<lambda>s. case pr_servers p s of Serving _ \<Rightarrow> True | _ \<Rightarrow> False) [Grpc, Health, Metrics]"

definition drain :: "('ch, 'rx) process \<Rightarrow> process_event list" where
  "drain p = map (\<lambda>s. Ended s Completed) (serving p) @ [Joined]"

definition quiet :: "header_text \<Rightarrow> app_config \<Rightarrow> process_event \<Rightarrow> bool" where
  "quiet to_str cfg x \<longleftrightarrow>
     \<not> asks_stop to_str cfg x \<and> (case x of Ended s r \<Rightarrow> r = Completed | _ \<Rightarrow> True)"

lemma serving_iff: "s \<in> set (serving p) \<longleftrightarrow> (\<exists>rx. pr_servers p s = Serving rx)"
  by (cases s; cases "pr_servers p s") (auto simp: serving_def)

lemma distinct_serving: "distinct (serving p)"
  by (simp add: serving_def)

lemma drain_run:
  assumes "watch_ok W alive" and "process_inv W alive to_str cfg xs p" and "pr_point p = At_join" and "distinct ss"
    and "\<And>s. s \<in> set ss \<Longrightarrow> (\<exists>rx. pr_servers p s = Serving rx) \<and> asked_after to_str cfg (start_number s) xs"
  shows "\<exists>q. process_run W to_str cfg (map (\<lambda>s. Ended s Completed) ss) p = Some q \<and> pr_point q = At_join
    \<and> pr_servers q = (\<lambda>s. if s \<in> set ss then Stopped Completed else pr_servers p s)"
  using assms(2-)
proof (induction ss arbitrary: xs p)
  case (Cons s ss)
  from Cons.prems(4) [of s] obtain rx where rx: "pr_servers p s = Serving rx"
    and asked: "asked_after to_str cfg (start_number s) xs" by auto
  let ?q = "p\<lparr>pr_servers := (pr_servers p)(s := Stopped Completed), pr_channel := wl_drop W rx (pr_channel p)\<rparr>"
  have step: "process_step W to_str cfg (Ended s Completed) p = Some ?q"
    using rx asked Cons.prems(2) process_invD(2) [OF Cons.prems(1) rx] by simp
  have "\<exists>q. process_run W to_str cfg (map (\<lambda>s. Ended s Completed) ss) ?q = Some q \<and> pr_point q = At_join
    \<and> pr_servers q = (\<lambda>s. if s \<in> set ss then Stopped Completed else pr_servers ?q s)"
    by (rule Cons.IH [OF process_step_keeps [OF assms(1) Cons.prems(1) step]])
      (use Cons.prems in \<open>auto simp: asked_after_snoc\<close>)
  with step Cons.prems(3) show ?case by (auto simp: fun_eq_iff)
qed auto

lemma join_result_done:
  assumes "\<And>s. \<exists>r. ts s = Stopped r" and "\<And>s. ts s \<noteq> Stopped Panicked"
  shows "\<exists>r. join_result ts = Some r \<and> (r = Inr () \<longleftrightarrow> (\<forall>s e. ts s \<noteq> Stopped (Serve_error e)))"
proof -
  obtain g h m where "ts Grpc = Stopped g" "ts Health = Stopped h" "ts Metrics = Stopped m" using assms(1) by metis
  moreover have "(\<forall>s e. ts s \<noteq> Stopped (Serve_error e)) \<longleftrightarrow>
      (\<forall>e. ts Grpc \<noteq> Stopped (Serve_error e) \<and> ts Health \<noteq> Stopped (Serve_error e) \<and> ts Metrics \<noteq> Stopped (Serve_error e))"
    by (metis server_name.exhaust)
  ultimately show ?thesis
    using assms(2) [of Grpc] assms(2) [of Health] assms(2) [of Metrics]
    by (cases g; cases h; cases m) (auto simp: join_result_def)
qed

lemma join_result_waits:
  assumes "ts s = Serving rx" and "\<And>s. ts s \<noteq> Stopped Panicked"
  shows "join_result ts = None"
  using assms by (cases s) (auto simp: join_result_def split: server_task.split)

lemma asked_process_drains:
  assumes "watch_ok W alive" and "process_inv W alive to_str cfg xs p" and "pr_point p = At_join"
    and "\<And>s. pr_servers p s \<noteq> Stopped Panicked"
    and "\<And>s rx. pr_servers p s = Serving rx \<Longrightarrow> asked_after to_str cfg (start_number s) xs"
  shows "\<exists>q r. process_run W to_str cfg (drain p) p = Some q \<and> pr_point q = Exited r
    \<and> (r = Inr () \<longleftrightarrow> (\<forall>s e. pr_servers p s \<noteq> Stopped (Serve_error e)))"
proof -
  have "\<exists>q. process_run W to_str cfg (map (\<lambda>s. Ended s Completed) (serving p)) p = Some q \<and> pr_point q = At_join
    \<and> pr_servers q = (\<lambda>s. if s \<in> set (serving p) then Stopped Completed else pr_servers p s)"
    by (rule drain_run [OF assms(1-3)]) (use assms(5) in \<open>auto simp: serving_iff distinct_serving\<close>)
  then obtain q where run: "process_run W to_str cfg (map (\<lambda>s. Ended s Completed) (serving p)) p = Some q"
      and at: "pr_point q = At_join"
      and ts: "pr_servers q = (\<lambda>s. if s \<in> set (serving p) then Stopped Completed else pr_servers p s)"
    by blast
  have "pr_servers p s \<noteq> Not_started" for s
    using process_invD(4,5) [OF assms(2)] assms(3) by (cases s) auto
  then have "\<exists>r. pr_servers q s = Stopped r" for s
    by (cases "pr_servers p s") (auto simp: ts serving_iff)
  moreover have "pr_servers q s \<noteq> Stopped Panicked" for s using assms(4) by (simp add: ts)
  moreover have "pr_servers q s = Stopped (Serve_error e) \<longleftrightarrow> pr_servers p s = Stopped (Serve_error e)" for s e
    by (auto simp: ts serving_iff)
  ultimately obtain r where "join_result (pr_servers q) = Some r"
      "r = Inr () \<longleftrightarrow> (\<forall>s e. pr_servers p s \<noteq> Stopped (Serve_error e))"
    using join_result_done [of "pr_servers q"] by auto
  with run at show ?thesis by (simp add: drain_def process_run_append)
qed

lemma unasked_step:
  assumes "watch_ok W alive" and "process_inv W alive to_str cfg xs p" and "pr_point p = At_join"
    and "pr_servers p s = Serving rx" and "\<not> asked_after to_str cfg (start_number s) xs"
    and "\<And>s. pr_servers p s \<noteq> Stopped Panicked"
    and "quiet to_str cfg x" and "process_step W to_str cfg x p = Some q"
  shows "pr_point q = At_join \<and> pr_servers q s = Serving rx \<and> (\<forall>s. pr_servers q s \<noteq> Stopped Panicked)
    \<and> \<not> asked_after to_str cfg (start_number s) (xs @ [x])"
  using assms(3-8) process_invD(2) [OF assms(2,4)] join_result_waits [where ts = "pr_servers p", OF assms(4,6)]
  by (cases x) (auto simp: quiet_def asked_after_snoc split: if_splits server_task.splits)

lemma unasked_process_stays:
  assumes "watch_ok W alive" and "process_inv W alive to_str cfg xs p" and "pr_point p = At_join"
    and "pr_servers p s = Serving rx" and "\<not> asked_after to_str cfg (start_number s) xs"
    and "\<forall>s. pr_servers p s \<noteq> Stopped Panicked"
    and "list_all (quiet to_str cfg) ys" and "process_run W to_str cfg ys p = Some q"
  shows "pr_point q = At_join"
  using assms(2-)
proof (induction ys arbitrary: xs p)
  case (Cons y ys)
  then obtain p' where step: "process_step W to_str cfg y p = Some p'"
    and run: "process_run W to_str cfg ys p' = Some q" by (auto simp: bind_eq_Some_conv)
  have "quiet to_str cfg y" using Cons.prems(6) by simp
  note keeps = unasked_step [OF assms(1) Cons.prems(1-4) _ this step] process_step_keeps [OF assms(1) Cons.prems(1) step]
  show ?case using Cons.IH [OF keeps(2)] keeps(1) Cons.prems(5,6) run by simp
qed simp

text \<open>
  An error of the gRPC server, an occupied port for instance, does not end the process: the
  join waits for the other two servers, and the readiness route does not ask.
\<close>

lemma grpc_error_waits:
  assumes "pr_servers p Grpc = Stopped (Serve_error e)" and "pr_servers p Health = Serving rx"
    and "pr_servers p Metrics \<noteq> Stopped Panicked"
  shows "process_step W to_str cfg Joined p = None"
proof -
  have "pr_servers p s \<noteq> Stopped Panicked" for s using assms by (cases s) simp_all
  then show ?thesis using join_result_waits [where ts = "pr_servers p", OF assms(2)] by (simp split: main_point.split)
qed

section \<open>A channel with a version counter\<close>

text \<open>
  An instance of the library: a channel is its version and its receivers, a receiver its
  number and the version it has seen.
\<close>

type_synonym version_channel = "nat \<times> (nat \<times> nat) list"

definition version_watch :: "(version_channel, nat \<times> nat) watch_library" where
  "version_watch =
     \<lparr>wl_channel = (0, []),
      wl_send = (\<lambda>(v, rs). if rs = [] then (v, rs) else (Suc v, rs)),
      wl_subscribe = (\<lambda>(v, rs). let rx = (Suc (sum_list (map fst rs)), v) in (rx, (v, rx # rs))),
      wl_changed = (\<lambda>rx (v, rs). snd rx < v),
      wl_drop = (\<lambda>rx (v, rs). (v, filter (\<lambda>r. r \<noteq> rx) rs))\<rparr>"

definition version_alive :: "nat \<times> nat \<Rightarrow> version_channel \<Rightarrow> bool" where
  "version_alive rx ch \<longleftrightarrow> rx \<in> set (snd ch) \<and> snd rx \<le> fst ch"

lemma version_watch_ok: "watch_ok version_watch version_alive"
proof -
  have fresh: "(Suc (sum_list (map fst rs)), v) \<notin> set rs" for rs and v :: nat
  proof
    assume "(Suc (sum_list (map fst rs)), v) \<in> set rs"
    then have "Suc (sum_list (map fst rs)) \<in> set (map fst rs)" by force
    from member_le_sum_list [OF this] show False by simp
  qed
  show ?thesis
    using fresh by (fastforce simp: watch_ok_def version_watch_def version_alive_def Let_def)
qed

lemma signal_in_time:
  "\<exists>p. process_run version_watch to_str cfg [Spawned, Bound None, Bound None, Signal] (process_new version_watch) = Some p
    \<and> pr_point p = At_join \<and> (\<forall>s. \<exists>rx. pr_servers p s = Serving rx)"
proof -
  have "s \<noteq> Grpc \<Longrightarrow> s \<noteq> Health \<Longrightarrow> s = Metrics" for s by (cases s) simp_all
  then show ?thesis by (simp add: version_watch_def process_new_def spawn_server_def Let_def)
qed

lemma signal_too_early:
  "\<exists>p rx. process_run version_watch to_str cfg [Signal, Spawned, Bound None, Bound None] (process_new version_watch) = Some p
    \<and> pr_point p = At_join \<and> pr_servers p Health = Serving rx \<and> (\<forall>s. pr_servers p s \<noteq> Stopped Panicked)"
  by (simp add: version_watch_def process_new_def spawn_server_def Let_def)

end
