(* ===== verification/Spec2Isabelle.thy ===== *)
theory Spec2Isabelle
  imports Processors_Sample Gateway Shutdown
begin

text \<open>
  The immutable ledger service of this repository: append-only chains of entries, one chain
  per entry type, each entry holding the hash of its predecessor; audits that recompute the
  hashes; receipts; an outbox that announces every write; a gRPC front and a background
  verifier. The Rust sources are under \<open>src/src/\<close>; file names below are relative to it.

  \<^bold>\<open>Theories, in the order of their dependencies.\<close>
  \<^item> \<open>Ledger_Prelude\<close>: machine integers, byte strings, decimal text, hash maps with an
    arbitrary iteration order, and the record \<open>third_party\<close> of the functions of other crates
    (SHA-256, hex, UUID text, timestamps, JSON). A Rust string is the list of its UTF-8 bytes.
  \<^item> \<open>Crypto\<close> (\<open>crypto/mod.rs\<close>): the two hash envelopes byte by byte and their
    unique decodability.
  \<^item> \<open>Repository\<close> (\<open>repository/mod.rs\<close>): the structs as records; the trait
    \<open>LedgerRepository\<close> as a record of state-passing operations; the specification of a
    repository as functions on chains; the interfaces as locales: \<open>entry_store\<close> (what audits
    rely on: nothing about hashes, so it covers tampered stores), \<open>ledger_store\<close> (what
    writes rely on), \<open>outbox_store\<close>, \<open>query_store\<close>. The parameter \<open>reliable\<close> says whether
    operations may fail with \<open>Unavailable\<close>.
  \<^item> \<open>Chains\<close>: links, positions, pages, and that appending keeps a ledger well formed.
  \<^item> \<open>Rust_Strings\<close>, \<open>Config\<close> (\<open>config/mod.rs\<close>): the standard library's string functions
    and \<open>AppConfig::from_env\<close>.
  \<^item> \<open>Service\<close> (\<open>service/mod.rs\<close>, \<open>metrics.rs\<close>): data, publishers, service state, the
    write path (validation, halt table, idempotency, lock table, retry loop), reads, queries.
  \<^item> \<open>Verification\<close>: \<open>verify_entry\<close>, \<open>verify_chain\<close>, \<open>verify_recent_chain\<close>,
    \<open>issue_receipt\<close>, \<open>verify_proof\<close>. \<open>Outbox\<close>: \<open>publish_one\<close> and the processor loop.
    \<open>Verifier\<close> (\<open>verifier.rs\<close>), \<open>Grpc\<close> (\<open>grpc/mod.rs\<close>), \<open>Tls\<close> (\<open>tls.rs\<close>),
    \<open>Server\<close> (\<open>db_permissions/mod.rs\<close> and the start-up, bearer checks and routes of
    \<open>main.rs\<close>), \<open>Shutdown\<close> (the servers, the shutdown channel and the join of \<open>main.rs\<close>
    as a function on events).
  \<^item> \<open>Verification_Correct\<close>, \<open>Write_Correct\<close>, \<open>Query\<close>, and the second halves of
    \<open>Outbox\<close> and \<open>Verifier\<close>: what the service does over any repository that meets the
    interfaces, proved once inside the locales. \<open>Tamper_Evidence\<close>: what an accepted chain
    proves about its contents.
  \<^item> \<open>In_Memory\<close>, \<open>In_Memory_Correct\<close>: \<open>InMemoryLedgerRepository\<close> on its five hash maps,
    and the interpretations of the four interfaces on it.
  \<^item> \<open>Sql\<close>, \<open>Postgres\<close>, \<open>Postgres_Correct\<close>: \<open>PostgresLedgerRepository\<close>
    (\<open>repository/postgres.rs\<close>) on the two tables of the migrations, with calls that fail
    before or after they took effect, and the interpretations of the interfaces on it.
  \<^item> \<open>Ledger_System\<close>: the step relation of a service over any repository
    (\<open>service_step\<close>, \<open>reachable\<close>) and, in the locale \<open>ledger_system\<close>, what every step
    keeps. A \<open>store_model\<close> is a repository with its meaning and with what is asked of the
    requests of a run. \<open>System\<close> and \<open>Postgres_Service\<close>: the service on either repository.
    \<open>Sample\<close>, \<open>Postgres_Sample\<close>, \<open>Writers_Sample\<close>, \<open>Processors_Sample\<close>: concrete
    instances.
  \<^item> \<open>Writers\<close>, \<open>Writers_Correct\<close>: \<open>write_entry\<close> in small steps, one for each access to
    shared state, and the interleavings of any number of requests in any number of processes
    over one repository; locks and halt tables are per process.
  \<^item> \<open>Processors\<close>: the outbox processor (\<open>start_outbox_processor\<close> and \<open>publish_one\<close>) in
    small steps, one for each call to the repository and to the publisher; \<open>fleet_step\<close>
    interleaves one processor per process with the writers and readers. The locale
    \<open>shared_outbox\<close> holds what every interleaving keeps, interpreted on both repositories.
  \<^item> \<open>Postgres_Runs\<close>: all runs of writers, readers and processors on PostgreSQL. The model
    \<open>pg_any\<close> asks nothing of a request, \<open>pg_model\<close> asks for unused UUIDs and for texts the
    columns keep. The schema and the growth of chains hold in every run of \<open>pg_any\<close>, and a run
    whose requests satisfy \<open>draws_distinct\<close> and \<open>requests_kept\<close> is a run of \<open>pg_model\<close>, so
    that the properties of concurrent runs name these two conditions and nothing else.
  \<^item> \<open>Mcp_Classify\<close>, \<open>Gateway\<close>: the request filter and the start-up of the demo gateway
    (\<open>demo/praxis-audit/gateway\<close>).
  \<^item> This theory: the properties C1 to C40.

  \<^bold>\<open>State and effects.\<close> \<open>service_state\<close> holds the repository state, the halt table, the lock
  table, the metrics, and the sequences of sleeps and of publish calls made. Clock readings,
  random UUIDs and the answers of the event sink are arguments (\<open>write_env\<close>,
  \<open>publisher\<close>). Errors are the left values of a sum. Each repository call is one atomic
  step, as it is under the lock of the in-memory repository and in a transaction. In
  \<open>service_step\<close> a request runs to its end before the next one starts; \<open>cluster_step\<close>
  takes this apart, and C31 shows that the small steps of a request that runs alone are
  \<open>write_entry\<close>; likewise \<open>fleet_step\<close> and \<open>processor_pass\<close> for \<open>outbox_iteration\<close>.

  \<^bold>\<open>Loops.\<close> The retry loop recurses on the attempts left. The batch loop of
  \<open>verify_chain\<close> is a \<open>partial_function\<close> into \<open>option\<close>, and C16 shows that it always
  returns. The processor and verifier loops never end; one pass of each is a function, and
  \<open>outbox_settled\<close> iterates it. \<open>all_pages\<close> models a client and takes fuel; C23 shows that
  the number of matching entries plus one is enough. \<open>rank\<close> bounds the small steps that a
  request has left (C40).

  \<^bold>\<open>Integers.\<close> Positions, counters and timestamps are \<open>int\<close>: a position would need 2 to the
  63 appends to overflow, and the audits carry the hypothesis that a chain is not longer.
  Retry limits are 32-bit words and backoffs 64-bit words, because the code casts and wraps
  them (C10, C28, \<open>huge_outbox_limit_fails_early\<close>).

  \<^bold>\<open>Hypotheses.\<close> \<open>encodings_ok\<close>: hex encoding is injective and UUID text parses back.
  \<open>genesis_hash D cfg \<noteq> []\<close>: a SHA-256 digest in hex is not empty. \<open>all_fresh\<close>: the UUIDs
  drawn by a write are unused. \<open>seed_ok\<close>: iterating over a hash map visits every slot once.
  \<open>pg_env_ok\<close>: the documented behaviour of the database server and its driver.
  \<open>pg_storable\<close>: the columns keep the texts of an append unchanged. \<open>draws_distinct\<close>: the
  requests of a concurrent run draw no UUID twice. \<open>requests_kept\<close>: no text of theirs exceeds
  its column by trailing spaces alone (such a text is cut off silently; C39 shows the
  consequence), and the database keeps the milliseconds of their clock readings; longer texts
  and zero bytes are not excluded, the database answers them with an error. C38 and the later
  runs of C39 have neither condition. \<open>watch_ok\<close>: the documented behaviour of a tokio watch channel. No
  property assumes that SHA-256 has no collisions; where it matters the collision is a
  disjunct of the conclusion.

  \<^bold>\<open>Groups of properties.\<close> C1 to C5 the ledger and its audits; C6 to C8 and C10 to C12
  writing; C9, C31 and C40 concurrent writers; C13 to C17 receipts, single entries, windows,
  termination and errors of audits; C18 to C20 the outbox, with the exact accounting of
  publish calls in C20; C21 to C23 the repository, the envelope, queries; C24 and C25 the
  verifier; C26 and C30 the gRPC layer; C27 to C29 and C32 configuration, start-up, shutdown;
  C33 and C36 to C39 the PostgreSQL repository; C34 and C35 several outbox processors on one
  database. The lemmas of \<open>Mcp_Classify\<close> and \<open>Gateway\<close> stand in those theories.

  \<^bold>\<open>Not modelled.\<close> Sockets, tracing, duration histograms and the text of \<open>/metrics\<close>;
  the interleaving of audits with writers call by call (an audit or a read is one step
  between the small steps of writers and processors); a commit that takes effect only after
  the client has seen its error (a lost answer takes effect at once, or not at all) and
  requests that are cancelled between two calls; a debug build, where an
  overflow in \<open>retry_backoff\<close> panics instead of wrapping; the praxis crates behind the demo
  gateway; the clients and tools in other directories and languages.
\<close>

section \<open>The ledger is append-only and verifiable\<close>

text \<open>
  C1. Immutability. Whatever sequence of writes, receipts, outbox passes, verification runs
  and queries the service executes, no stored entry is ever changed, removed or reordered:
  every chain of an earlier state is a prefix of the same chain in every later state.
\<close>

theorem ledger_immutable:
  assumes "seed_ok seed" and "genesis_hash D cfg \<noteq> []"
    and "reachable D (mem_model D) P cfg (service_new (mem_default seed)) st" and "reachable D (mem_model D) P cfg st st'"
  shows "\<exists>es. mem_chain (ss_repo st') t = mem_chain (ss_repo st) t @ es"
proof -
  have "service_inv D cfg st"
    using reachable_inv [OF assms(3) service_inv_new [OF assms(1)] assms(2)] by blast
  from reachable_inv [OF assms(4) this assms(2)] show ?thesis by (simp add: extends_def)
qed

theorem ledger_immutable_witness:
  "\<exists>es. mem_chain (ss_repo sample_written) ''agent.decision'' =
     mem_chain (ss_repo sample_start) ''agent.decision'' @ es"
  by (rule ledger_immutable [OF sample_seed_ok sample_genesis _ sample_reachable])
    (simp add: sample_start_new reachable.here)

text \<open>
  C2. No false alarms. In every reachable state the full audit of every chain returns,
  accepts the chain, counts exactly its entries and changes nothing.
\<close>

theorem reachable_chain_verifies:
  assumes "seed_ok seed" and "genesis_hash D cfg \<noteq> []"
    and "reachable D (mem_model D) P cfg (service_new (mem_default seed)) st"
    and "int (length (mem_chain (ss_repo st) t)) \<le> I64_MAX"
  shows "verify_chain D (in_memory D) cfg t None None st =
    Some (Inr (chain_ok (int (length (mem_chain (ss_repo st) t)))), st)"
  by (rule service_inv_verifies [OF _ assms(4)])
    (use reachable_inv [OF assms(3) service_inv_new [OF assms(1)] assms(2)] in blast)

theorem reachable_chain_verifies_witness:
  "verify_chain sample_D (in_memory sample_D) sample_cfg ''agent.decision'' None None sample_written =
     Some (Inr (chain_ok 1), sample_written)"
  using reachable_chain_verifies [OF sample_seed_ok sample_genesis sample_reachable [folded sample_start_new],
      of "''agent.decision''"]
  by (simp add: sample_written_chains I64_MAX_def)

text \<open>
  C3. The batched audit decides integrity. On any store with consistent indexes and
  contiguous positions (its hashes, links and contents may be forged), auditing the range
  between two boundary entries returns, leaves the store alone, and accepts exactly when
  every entry of the range links to its predecessor (the genesis hash for the first
  position) and recomputes to its stored hash; an accepted range is counted in full.
\<close>

theorem verify_chain_decides:
  assumes "mem_store_inv (ss_repo st)" and "mem_chain (ss_repo st) t = es" and "positions_ok es"
    and "int (length es) \<le> I64_MAX" and "starts_at es s_id i" and "ends_before es e_id j"
    and "i < j \<or> es = []"
  shows "\<exists>out st'. verify_chain D (in_memory D) cfg t s_id e_id st = Some (Inr out, st')
    \<and> ss_repo st' = ss_repo st
    \<and> (vc_chain_valid out \<longleftrightarrow>
         linked (tip_hash_of (genesis_hash D cfg) (take i es)) (take (j - i) (drop i es))
         \<and> (\<forall>e \<in> set (take (j - i) (drop i es)). recompute_hash D e = Some (le_entry_hash e)))
    \<and> (vc_chain_valid out \<longrightarrow> vc_entries_checked out = int (j - i))"
proof -
  let ?A = "audit_range D (genesis_hash D cfg) es i j"
  have "j \<le> length es" using assms(6) by (cases e_id) auto
  then have n: "length (take (j - i) (drop i es)) = j - i" by simp
  have "vc_chain_valid (fst ?A) \<longleftrightarrow> intact D (tip_hash_of (genesis_hash D cfg) (take i es)) (take (j - i) (drop i es))"
    by (simp add: audit_range_def audit_valid_iff)
  moreover have "vc_chain_valid (fst ?A) \<longrightarrow> vc_entries_checked (fst ?A) = int (j - i)"
    using n by (simp add: audit_range_def audit_valid_iff audit_intact)
  ultimately show ?thesis
    using mem_verify_chain_range [OF assms, of D cfg]
    by (intro exI [of _ "fst ?A"] exI [of _ "count_failure (snd ?A) st"])
      (simp add: intact_def hash_ok_def count_failure_def)
qed

theorem verify_chain_decides_witness:
  "\<exists>out st'. verify_chain sample_D (in_memory sample_D) sample_cfg ''agent.decision'' None
      (Some (le_entry_id sample_entry)) sample_written = Some (Inr out, st')
    \<and> ss_repo st' = ss_repo sample_written
    \<and> (vc_chain_valid out \<longleftrightarrow> linked (genesis_hash sample_D sample_cfg) [sample_entry]
         \<and> recompute_hash sample_D sample_entry = Some (le_entry_hash sample_entry))
    \<and> (vc_chain_valid out \<longrightarrow> vc_entries_checked out = 1)"
  using verify_chain_decides [where st = sample_written and t = "''agent.decision''" and es = "[sample_entry]"
      and s_id = None and i = 0 and e_id = "Some (le_entry_id sample_entry)" and j = 1
      and D = sample_D and cfg = sample_cfg]
  by (simp add: sample_written_store_inv sample_written_chains positions_ok_def I64_MAX_def tip_hash_of_simps
      del: next_entry_id)

text \<open>
  C4. The audit names the first fault. When the first \<open>n\<close> entries of a chain check and
  entry \<open>n + 1\<close> does not, the audit reports entry \<open>n + 1\<close>: its id, the count \<open>n + 1\<close> and
  which check failed, and it counts one verification failure.
\<close>

theorem verify_chain_first_fault:
  assumes "mem_store_inv (ss_repo st)" and es: "mem_chain (ss_repo st) t = xs @ e # ys"
    and "positions_ok (xs @ e # ys)" and "int (length (xs @ e # ys)) \<le> I64_MAX"
    and "intact D (genesis_hash D cfg) xs"
    and "entry_fault D (tip_hash_of (genesis_hash D cfg) xs) e = Some reason"
  shows "verify_chain D (in_memory D) cfg t None None st =
    Some (Inr \<lparr>vc_chain_valid = False, vc_entries_checked = int (length xs) + 1,
               vc_first_invalid_entry_id = Some (le_entry_id e), vc_failure_reason = reason\<rparr>,
          st\<lparr>ss_metrics := (ss_metrics st)
            \<lparr>m_chain_verify_failure_total := m_chain_verify_failure_total (ss_metrics st) + 1\<rparr>\<rparr>)"
  using mem_verify_chain_range [OF assms(1) es assms(3,4), of None 0 None "length (xs @ e # ys)" D cfg]
  by (simp add: audit_range_def tip_hash_of_simps audit_fault [OF assms(5,6)] chain_bad_def
      count_failure_def inc_chain_verify_failure_def)

theorem verify_chain_first_fault_witness:
  "verify_chain sample_D (in_memory sample_D) sample_cfg ''agent.decision'' None None forged_state =
    Some (Inr \<lparr>vc_chain_valid = False, vc_entries_checked = 1,
               vc_first_invalid_entry_id = Some 1, vc_failure_reason = ''chain_link_mismatch''\<rparr>,
          forged_state\<lparr>ss_metrics := metrics_init\<lparr>m_chain_verify_failure_total := 1\<rparr>\<rparr>)"
  using verify_chain_first_fault [where st = forged_state and t = "''agent.decision''" and xs = "[]"
      and e = forged_entry and ys = "[]" and D = sample_D and cfg = sample_cfg
      and reason = "''chain_link_mismatch''", OF forged_store_inv]
  by (simp add: one_entry_chain forged_entry_simps forged_fault positions_ok_def I64_MAX_def tip_hash_of_simps
      intact_simps one_entry_metrics metrics_init_def)

text \<open>
  C5. Tamper evidence. If the audit accepts a chain in two stores (say, before and after an
  attack on the database) and the last hashes agree, then the two chains have the same
  length and agree entry by entry on everything the hashes commit to, unless two of the
  byte strings that were hashed are an explicit SHA-256 collision. The encoding facts are
  those of \<open>hex::encode\<close> and the UUID text; the genesis input is shorter than the envelope
  header.
\<close>

theorem accepted_chains_agree:
  assumes "encodings_ok D" and "short_genesis (cfg_genesis_hash_input cfg)"
    and "mem_store_inv (ss_repo st)" and es: "mem_chain (ss_repo st) t = es" "positions_ok es"
      "int (length es) \<le> I64_MAX"
    and "mem_store_inv (ss_repo st')" and es': "mem_chain (ss_repo st') t = es'" "positions_ok es'"
      "int (length es') \<le> I64_MAX"
    and "verify_chain D (in_memory D) cfg t None None st = Some (Inr out, st1)" and "vc_chain_valid out"
    and "verify_chain D (in_memory D) cfg t None None st' = Some (Inr out', st1')" and "vc_chain_valid out'"
    and "tip_hash_of (genesis_hash D cfg) es = tip_hash_of (genesis_hash D cfg) es'"
  shows "map (commitment D) es = map (commitment D) es'
    \<or> (\<exists>x \<in> preimages D (cfg_genesis_hash_input cfg) es. \<exists>y \<in> preimages D (cfg_genesis_hash_input cfg) es'.
         sha256_collision D x y)"
proof -
  have intact: "intact D (genesis_hash D cfg) zs"
    if "mem_store_inv (ss_repo s)" "mem_chain (ss_repo s) t = zs" "positions_ok zs" "int (length zs) \<le> I64_MAX"
      "verify_chain D (in_memory D) cfg t None None s = Some (Inr o', s')" "vc_chain_valid o'" for s zs o' s'
    using mem_verify_chain_range [OF that(1-4), of None 0 None "length zs" D cfg] that(5,6)
    by (auto simp: audit_range_def tip_hash_of_simps audit_valid_iff)
  note a = intact [OF assms(3) es assms(11,12)] and b = intact [OF assms(7) es' assms(13,14)]
  from intact_chains_agree [OF assms(1,2) _ a b assms(15)] show ?thesis
    by (simp add: genesis_hash_def collide_def)
qed

theorem accepted_chains_agree_witness:
  "variant_entry \<noteq> sample_entry \<and>
   (map (commitment sample_D) [sample_entry] = map (commitment sample_D) [variant_entry]
    \<or> (\<exists>x \<in> preimages sample_D ''ARE_LEDGER_GENESIS'' [sample_entry].
         \<exists>y \<in> preimages sample_D ''ARE_LEDGER_GENESIS'' [variant_entry]. sha256_collision sample_D x y))"
  using variant_differs accepted_chains_agree [OF sample_encodings_ok _ sample_written_store_inv _ _ _
      variant_store_inv _ _ _ sample_verifies _ variant_verifies, of "[sample_entry]" "[variant_entry]"]
  by (simp add: sample_written_chains one_entry_chain positions_ok_def I64_MAX_def short_genesis_def sample_cfg_def
      tip_hash_of_simps variant_entry_simps)

section \<open>Writing\<close>

text \<open>
  C6. Every outcome of a write. A write on the in-memory service keeps the store well
  formed, and its result says exactly what happened: \<open>Ok\<close> means one new entry at the end
  of the chain (with its outbox event when publishing is on) or the replay of an earlier
  identical request; \<open>AlreadyExists\<close> means an earlier entry with the same key and other
  content; \<open>InvalidArgument\<close>, \<open>Unavailable\<close> and \<open>Internal\<close> mean an invalid request, a
  halted chain and a retry limit of zero; in all those cases nothing was stored.
\<close>

theorem write_entry_outcomes:
  assumes "mem_inv D (ss_repo st)" and "all_fresh env (mem_chain (ss_repo st)) (mem_outboxes (ss_repo st))"
    and "genesis_hash D cfg \<noteq> []" and "write_entry D (in_memory D) P cfg env input st = (r, st')"
  shows "mem_inv D (ss_repo st') \<and>
    write_outcome D P cfg env input True (is_halted cfg (en_check_time env) (we_entry_type input) st)
      (mem_chain (ss_repo st)) (mem_outboxes (ss_repo st)) r (mem_chain (ss_repo st')) (mem_outboxes (ss_repo st'))"
  using mem_write_entry [OF assms] by blast

theorem write_entry_outcomes_witness:
  "mem_inv sample_D (ss_repo sample_written) \<and>
    write_outcome sample_D sample_publisher sample_cfg sample_env sample_input True False
      (\<lambda>_. []) (\<lambda>_. None) (Inr (output_of_entry sample_D sample_entry))
      (\<lambda>t. if t = ''agent.decision'' then [sample_entry] else []) (mem_outboxes (ss_repo sample_written))"
  using write_entry_outcomes [OF sample_start_mem_inv sample_fresh sample_genesis sample_write]
  by (simp add: sample_start_chains sample_start_outboxes sample_written_chains sample_not_halted)

text \<open>
  C7. Writes succeed. A valid request for a chain that is not halted, with a retry limit
  above zero and an unused key, is accepted at the first attempt. The new entry carries the
  fields of the request, the next position, the hash of the previous entry (the genesis
  hash on an empty chain) and a hash that recomputes; no other chain changes.
\<close>

theorem write_entry_succeeds:
  assumes "mem_inv D (ss_repo st)" and "all_fresh env (mem_chain (ss_repo st)) (mem_outboxes (ss_repo st))"
    and "genesis_hash D cfg \<noteq> []" and "validate_write cfg input = None"
    and "\<not> is_halted cfg (en_check_time env) (we_entry_type input) st" and "cfg_chain_max_retries cfg \<noteq> 0"
    and "\<not> key_used (we_idempotency_key input) (mem_chain (ss_repo st) (we_entry_type input))"
  shows "\<exists>e st'. write_entry D (in_memory D) P cfg env input st = (Inr (output_of_entry D e), st')
    \<and> mem_chain (ss_repo st') = (mem_chain (ss_repo st))
        (we_entry_type input := mem_chain (ss_repo st) (we_entry_type input) @ [e])
    \<and> le_entry_type e = we_entry_type input \<and> idempotent_request_matches e input
    \<and> le_idempotency_key e = we_idempotency_key input
    \<and> le_chain_position e = int (length (mem_chain (ss_repo st) (we_entry_type input))) + 1
    \<and> le_previous_hash e = tip_hash_of (genesis_hash D cfg) (mem_chain (ss_repo st) (we_entry_type input))
    \<and> recompute_hash D e = Some (le_entry_hash e)"
proof -
  let ?L = "mem_chain (ss_repo st)"
  let ?e = "next_entry D ?L (en_draws env 0) (write_input_at D P cfg env input ?L 0)"
  obtain r st' where run: "write_entry D (in_memory D) P cfg env input st = (r, st')" by fastforce
  note W = mem_write_entry(2) [OF assms(1-3) run]
  from outcome_success [OF W assms(4-7)]
  have "r = Inr (output_of_entry D ?e)" "mem_chain (ss_repo st') =
      ?L(we_entry_type input := ?L (we_entry_type input) @ [?e])"
    by (simp_all add: appended_def append_entry_def)
  moreover have "recompute_hash D ?e = Some (le_entry_hash ?e)"
    using hash_ok_next_entry [of D ?L] unfolding hash_ok_def .
  ultimately show ?thesis
    using run idempotent_matches_new [of D ?L "en_draws env 0" P cfg env input 0]
    by (intro exI [of _ ?e] exI [of _ st']) simp
qed

theorem write_entry_succeeds_witness:
  "\<exists>e st'. write_entry sample_D (in_memory sample_D) sample_publisher sample_cfg sample_env sample_input sample_start
      = (Inr (output_of_entry sample_D e), st')
    \<and> mem_chain (ss_repo st') ''agent.decision'' = [e] \<and> le_chain_position e = 1
    \<and> le_previous_hash e = genesis_hash sample_D sample_cfg \<and> idempotent_request_matches e sample_input"
proof -
  have "we_entry_type sample_input = ''agent.decision''" "cfg_chain_max_retries sample_cfg \<noteq> 0"
    by (simp_all add: sample_input_def sample_cfg_def)
  with write_entry_succeeds [OF sample_start_mem_inv sample_fresh sample_genesis sample_valid sample_not_halted,
      where env = sample_env and P = sample_publisher]
  show ?thesis by (fastforce simp: sample_start_chains key_used_def tip_hash_of_simps)
qed

text \<open>
  C8. Idempotent retries. Once a write with an idempotency key has succeeded, repeating the
  same request at any later time (after any other operations, with any clock and UUIDs)
  returns the same entry id, hash, position and timestamp, and stores nothing.
\<close>

theorem write_entry_idempotent:
  assumes "service_inv D cfg st" and "genesis_hash D cfg \<noteq> []"
    and "all_fresh env (mem_chain (ss_repo st)) (mem_outboxes (ss_repo st))"
    and "write_entry D (in_memory D) P cfg env input st = (Inr out, st1)"
    and "we_idempotency_key input \<noteq> None" and "reachable D (mem_model D) P cfg st1 st2"
    and "all_fresh env' (mem_chain (ss_repo st2)) (mem_outboxes (ss_repo st2))"
    and "\<not> is_halted cfg (en_check_time env') (we_entry_type input) st2"
    and "validate_write cfg input = None" and "cfg_chain_max_retries cfg \<noteq> 0"
    and "write_entry D (in_memory D) P cfg env' input st2 = (r, st3)"
  shows "r = Inr out \<and> mem_chain (ss_repo st3) = mem_chain (ss_repo st2)
    \<and> mem_outboxes (ss_repo st3) = mem_outboxes (ss_repo st2)"
proof -
  have m: "mem_inv D (ss_repo st)" using assms(1) by (simp add: service_inv_def)
  from outcome_recorded [OF mem_write_entry(2) [OF m assms(3,2,4)] assms(5)] obtain e
    where e: "earlier input (mem_chain (ss_repo st1)) e" "idempotent_request_matches e input"
      "out = output_of_entry D e" by blast
  have "service_inv D cfg st1" using write_step_inv [OF assms(1,3,2,4)] by blast
  from reachable_inv [OF assms(6) this assms(2)]
  have inv2: "service_inv D cfg st2" and ext: "extends (mem_chain (ss_repo st1)) (mem_chain (ss_repo st2))" by auto
  from ext e(1) have e2: "earlier input (mem_chain (ss_repo st2)) e"
    unfolding extends_def earlier_def by (metis Un_iff set_append)
  have m2: "mem_inv D (ss_repo st2)" using inv2 by (simp add: service_inv_def)
  then have "ledger_inv D (mem_chain (ss_repo st2))" by (simp add: mem_inv_def)
  from outcome_repeated [OF mem_write_entry(2) [OF m2 assms(7,2,11)] this e2 e(2) assms(9,8,10)] e(3)
  show ?thesis by blast
qed

theorem write_entry_idempotent_witness:
  "\<exists>st3. write_entry sample_D (in_memory sample_D) sample_publisher sample_cfg sample_retry_env sample_input sample_written
      = (Inr (output_of_entry sample_D sample_entry), st3)
    \<and> mem_chain (ss_repo st3) = mem_chain (ss_repo sample_written)"
proof -
  have c: "we_idempotency_key sample_input \<noteq> None" "cfg_chain_max_retries sample_cfg \<noteq> 0"
    by (simp_all add: sample_input_def sample_cfg_def)
  obtain r st3 where run: "write_entry sample_D (in_memory sample_D) sample_publisher sample_cfg sample_retry_env
      sample_input sample_written = (r, st3)" by fastforce
  from write_entry_idempotent [OF sample_start_inv sample_genesis sample_fresh sample_write c(1) reachable.here
      sample_retry_fresh sample_written_not_halted sample_valid c(2) run] run
  show ?thesis by blast
qed

text \<open>
  Key reuse is refused. A valid request whose key already names an entry of the chain
  with other content or metadata gets \<open>AlreadyExists\<close>, and neither the ledger nor the
  outbox changes.
\<close>

theorem write_entry_conflict:
  assumes "mem_inv D (ss_repo st)" and "all_fresh env (mem_chain (ss_repo st)) (mem_outboxes (ss_repo st))"
    and "genesis_hash D cfg \<noteq> []" and "validate_write cfg input = None"
    and "\<not> is_halted cfg (en_check_time env) (we_entry_type input) st" and "cfg_chain_max_retries cfg \<noteq> 0"
    and "e \<in> set (mem_chain (ss_repo st) (we_entry_type input))"
    and "we_idempotency_key input = Some key" and "le_idempotency_key e = Some key"
    and "\<not> idempotent_request_matches e input"
    and "write_entry D (in_memory D) P cfg env input st = (r, st')"
  shows "(\<exists>message. r = Inl (AlreadyExists message)) \<and> mem_chain (ss_repo st') = mem_chain (ss_repo st)
    \<and> mem_outboxes (ss_repo st') = mem_outboxes (ss_repo st)"
proof -
  have "ledger_inv D (mem_chain (ss_repo st))" using assms(1) by (simp add: mem_inv_def)
  moreover have "earlier input (mem_chain (ss_repo st)) e" using assms(7-9) by (simp add: earlier_def)
  ultimately show ?thesis
    using outcome_rejected [OF mem_write_entry(2) [OF assms(1-3,11)] _ _ assms(10,4-6)] by blast
qed

theorem write_entry_conflict_witness:
  "\<exists>message st'. write_entry sample_D (in_memory sample_D) sample_publisher sample_cfg sample_retry_env
      (sample_input\<lparr>we_content := [9]\<rparr>) sample_written = (Inl (AlreadyExists message), st')
    \<and> mem_chain (ss_repo st') = mem_chain (ss_repo sample_written)"
proof -
  let ?in = "sample_input\<lparr>we_content := [9]\<rparr>"
  obtain r st' where run: "write_entry sample_D (in_memory sample_D) sample_publisher sample_cfg sample_retry_env
      ?in sample_written = (r, st')" by fastforce
  have c: "sample_entry \<in> set (mem_chain (ss_repo sample_written) (we_entry_type ?in))"
    "validate_write sample_cfg ?in = None" "cfg_chain_max_retries sample_cfg \<noteq> 0"
    "we_idempotency_key ?in = Some ''k1''" "le_idempotency_key sample_entry = Some ''k1''"
    "\<not> idempotent_request_matches sample_entry ?in"
    by (simp_all add: sample_written_chains sample_input_def sample_cfg_def validate_write_def
        idempotent_request_matches_def next_entry_def write_input_at_def entry_write_input_of_def)
  from write_entry_conflict [OF sample_written_mem_inv sample_retry_fresh sample_genesis c(2)
      sample_written_not_halted c(3,1,4-6) run] run
  show ?thesis by auto
qed

text \<open>
  C10. Exhausted retries halt the chain. Against a repository that refuses every append with
  a chain integrity violation, a write tries exactly the configured number of times,
  sleeping 10, 20, 40, ... milliseconds in between, then reports the violation and halts
  its chain; the repository state is untouched and other chains are not halted.
\<close>

theorem write_entry_exhausted:
  assumes "always_conflicts R (we_entry_type input)" and "validate_write cfg input = None"
    and "ss_chain_halted st (we_entry_type input) = None" and "we_idempotency_key input = None"
    and "unat (cfg_chain_max_retries cfg) = Suc n"
  shows "\<exists>st'. write_entry D R P cfg env input st = (Inl (Internal ''chain integrity violation''), st')
    \<and> ss_repo st' = ss_repo st
    \<and> ss_sleeps st' = ss_sleeps st @ map (\<lambda>k. 10 * 2 ^ k) [0..<n]
    \<and> ss_chain_halted st' = (ss_chain_halted st)(we_entry_type input \<mapsto> en_halt_time env)"
proof -
  have "check_halted cfg (en_check_time env) (we_entry_type input) st = Some st"
    using assms(3) by (simp add: check_halted_def)
  moreover have "append_under_lock D R P cfg env input st =
      (Inl (Internal ''chain integrity violation''), (chain_lock (we_entry_type input) st)
        \<lparr>ss_sleeps := ss_sleeps st @ map retry_backoff [0..<n],
         ss_chain_halted := (ss_chain_halted st)(we_entry_type input \<mapsto> en_halt_time env)\<rparr>)"
    using write_attempts_exhausted [OF assms(1), of 0 n cfg D P env "chain_lock (we_entry_type input) st"] assms(5)
    by (simp add: append_under_lock_def)
  moreover have "retry_backoff = (\<lambda>k. 10 * 2 ^ k)" by (rule ext) (simp add: retry_backoff_def)
  ultimately show ?thesis using assms(2,4) by (simp add: write_entry_def write_entry_impl_def)
qed

theorem write_entry_exhausted_witness:
  "\<exists>st'. write_entry sample_D contended noop_event_publisher sample_cfg sample_env keyless_input sample_start
      = (Inl (Internal ''chain integrity violation''), st')
    \<and> ss_repo st' = ss_repo sample_start
    \<and> ss_sleeps st' = [10, 20, 40, 80, 160, 320, 640, 1280, 2560]
    \<and> ss_chain_halted st' ''agent.decision'' = Some 0"
  using write_entry_exhausted [OF contended_always keyless_valid, of sample_start 9 sample_D noop_event_publisher
      sample_env]
  by (auto simp: sample_start_def service_new_def keyless_input_def sample_input_def sample_cfg_def sample_env_def
      upt_conv_Cons)

text \<open>
  C11. A halted chain. Until the recovery time has passed every valid write to the chain is
  refused as unavailable, without a repository call and with only the error counter
  increased; from then on a write proceeds exactly as if the chain had never been halted.
\<close>

theorem halted_chain:
  assumes "validate_write cfg input = None" and "ss_chain_halted st (we_entry_type input) = Some halted_at"
  shows "(en_check_time env - halted_at < cfg_chain_halt_recovery_seconds cfg * 1000000000 \<longrightarrow>
      write_entry D R P cfg env input st =
        (Inl SvcUnavailable, st\<lparr>ss_metrics := inc_write ''error'' (ss_metrics st)\<rparr>))
    \<and> (\<not> en_check_time env - halted_at < cfg_chain_halt_recovery_seconds cfg * 1000000000 \<longrightarrow>
      write_entry D R P cfg env input st =
        write_entry D R P cfg env input
          (st\<lparr>ss_chain_halted := (ss_chain_halted st)(we_entry_type input := None)\<rparr>))"
  using assms by (simp add: write_entry_def write_entry_impl_def check_halted_def write_label_def)

theorem halted_chain_witness:
  "write_entry sample_D contended noop_event_publisher sample_cfg (sample_env\<lparr>en_check_time := 59999999999\<rparr>)
      keyless_input (sample_start\<lparr>ss_chain_halted := [''agent.decision'' \<mapsto> 0]\<rparr>)
    = (Inl SvcUnavailable, sample_start\<lparr>ss_chain_halted := [''agent.decision'' \<mapsto> 0],
         ss_metrics := inc_write ''error'' (ss_metrics sample_start)\<rparr>)"
  using halted_chain [OF keyless_valid, of "sample_start\<lparr>ss_chain_halted := [''agent.decision'' \<mapsto> 0]\<rparr>" 0
      "sample_env\<lparr>en_check_time := 59999999999\<rparr>" sample_D contended noop_event_publisher]
  by (simp add: keyless_input_def sample_input_def sample_cfg_def)

text \<open>
  C12. Bounded effort, for every repository. A write sleeps an exponential series of at most
  the configured retries less one, never publishes, never touches the halt entry of another
  chain, and increases exactly one of the write counters, the one of its result.
\<close>

theorem write_entry_bounded:
  "case write_entry D R P cfg env input st of (r, st') \<Rightarrow>
     (\<exists>k \<le> unat (cfg_chain_max_retries cfg) - 1. ss_sleeps st' = ss_sleeps st @ map (\<lambda>j. 10 * 2 ^ j) [0..<k])
     \<and> ss_publish_log st' = ss_publish_log st
     \<and> (ss_chain_halted st')(we_entry_type input := None) = (ss_chain_halted st)(we_entry_type input := None)
     \<and> m_write_total (ss_metrics st') = (m_write_total (ss_metrics st))
         (write_label r := m_write_total (ss_metrics st) (write_label r) + 1)"
proof -
  obtain r st0 where impl: "write_entry_impl D R P cfg env input st = (r, st0)" by fastforce
  have "retry_backoff = (\<lambda>k. 10 * 2 ^ k)" by (rule ext) (simp add: retry_backoff_def)
  with write_entry_impl_frame [OF impl] show ?thesis
    by (auto simp: impl_frame_def write_entry_def impl inc_write_def fun_eq_iff)
qed

section \<open>Receipts, single entries and windows\<close>

text \<open>
  C13. Receipts check. A receipt handed out by \<open>issue_receipt\<close> is accepted by
  \<open>verify_proof\<close> in the resulting state, which returns the agent, source, content type,
  position, time and proof material of the request, unless two entries of the chain are an
  explicit SHA-256 collision.
\<close>

theorem receipt_roundtrip:
  assumes m: "mem_inv D (ss_repo st)" and "all_fresh env (mem_chain (ss_repo st)) (mem_outboxes (ss_repo st))"
    and "genesis_hash D cfg \<noteq> []" and enc: "encodings_ok D"
    and run: "issue_receipt D (in_memory D) P cfg env input st = (Inr receipt, st')"
  shows "\<exists>out. verify_proof D (in_memory D) (pr_entry_type receipt) (pr_entry_hash receipt) st' = (Inr out, st')
    \<and> vp_valid out \<and> vp_failure_reason out = ''''
    \<and> (vp_chain_position out = pr_chain_position receipt \<and> vp_written_ts_ms out = pr_written_ts_ms receipt
         \<and> vp_agent_id out = we_agent_id input \<and> vp_source_id out = we_source_id input
         \<and> vp_content_type out = we_content_type input \<and> vp_hash_version out = pr_hash_version receipt
         \<and> vp_input_hash out = pr_input_hash receipt \<and> vp_writer_signature out = pr_writer_signature receipt
         \<and> vp_signer_key_reference out = pr_signer_key_reference receipt
         \<and> vp_attestation_report out = pr_attestation_report receipt
       \<or> (\<exists>e \<in> set (mem_chain (ss_repo st') (we_entry_type input)).
            \<exists>e' \<in> set (mem_chain (ss_repo st') (we_entry_type input)).
              sha256_collision D (preimage D e) (preimage D e')))"
proof -
  let ?es = "mem_chain (ss_repo st') (we_entry_type input)"
  obtain w where w: "write_entry D (in_memory D) P cfg env input st = (Inr w, st')"
    and rec: "pr_entry_type receipt = we_entry_type input" "pr_entry_hash receipt = wo_entry_hash w"
      "pr_chain_position receipt = wo_chain_position w" "pr_written_ts_ms receipt = wo_written_ts_ms w"
      "pr_hash_version receipt = wo_hash_version w"
      "pr_input_hash receipt = unwrap_or_default (we_input_hash input)"
      "pr_writer_signature receipt = unwrap_or_default (we_writer_signature input)"
      "pr_signer_key_reference receipt = unwrap_or_default (we_signer_key_reference input)"
      "pr_attestation_report receipt = unwrap_or_default (we_attestation_report input)"
    using run by (auto simp: issue_receipt_def split: prod.splits sum.splits)
  note W = mem_write_entry [OF assms(1-3) w]
  from outcome_ok_entry [OF W(2)] obtain e where e: "e \<in> set ?es" "w = output_of_entry D e"
    "idempotent_request_matches e input" by blast
  obtain r st'' where v: "verify_proof D (in_memory D) (we_entry_type input) (le_entry_hash e) st' = (r, st'')" by fastforce
  note V = mem_verify_proof [OF mem_inv_store_inv [OF W(1)] v]
  from V(2) e(1) obtain e' where e': "e' \<in> set ?es" "le_entry_hash e' = le_entry_hash e" "r = Inr (proof_report D e')"
    by blast
  have ok: "hash_ok D e'" using mem_inv_hash_ok [OF W(1) e'(1)] by blast
  have "e' = e \<or> sha256_collision D (preimage D e') (preimage D e)"
    using same_hash_collision [OF W(1) enc e'(1) e(1) e'(2)] by blast
  with e e' ok v V(1) rec show ?thesis
    by (auto simp: proof_report_def output_of_entry_def hash_ok_def idempotent_request_matches_def
        intro!: exI [of _ "proof_report D e'"])
qed

theorem receipt_roundtrip_witness:
  "\<exists>receipt out. issue_receipt sample_D (in_memory sample_D) sample_publisher sample_cfg sample_env sample_input
      sample_start = (Inr receipt, sample_written)
    \<and> verify_proof sample_D (in_memory sample_D) ''agent.decision'' (pr_entry_hash receipt) sample_written
        = (Inr out, sample_written)
    \<and> vp_valid out"
proof -
  obtain receipt where run: "issue_receipt sample_D (in_memory sample_D) sample_publisher sample_cfg sample_env
      sample_input sample_start = (Inr receipt, sample_written)" and t: "pr_entry_type receipt = ''agent.decision''"
    using sample_write by (simp add: issue_receipt_def sample_input_def)
  from receipt_roundtrip [OF sample_start_mem_inv sample_fresh sample_genesis sample_encodings_ok run] run t
  show ?thesis by auto
qed

text \<open>
  C14. One entry. Verifying the entry at a given index reports whether its stored hash
  recomputes and whether it links to its predecessor (the genesis hash for the first), with
  the matching reason, and changes nothing; the contents of the store may be forged.
\<close>

theorem verify_entry_reports:
  assumes "mem_store_inv (ss_repo st)" and "mem_chain (ss_repo st) t = es" and "positions_ok es" and "i < length es"
  shows "verify_entry D (in_memory D) cfg (le_entry_id (es ! i)) st =
    (Inr \<lparr>ve_entry_id = le_entry_id (es ! i),
          ve_hash_valid = (recompute_hash D (es ! i) = Some (le_entry_hash (es ! i))),
          ve_chain_link_valid = (recompute_hash D (es ! i) \<noteq> None \<and>
            le_previous_hash (es ! i) = (if i = 0 then genesis_hash D cfg else le_entry_hash (es ! (i - 1)))),
          ve_failure_reason =
            (if recompute_hash D (es ! i) = None then ''unsupported_hash_version''
             else if recompute_hash D (es ! i) \<noteq> Some (le_entry_hash (es ! i)) then ''entry_hash_mismatch''
             else if le_previous_hash (es ! i) \<noteq> (if i = 0 then genesis_hash D cfg else le_entry_hash (es ! (i - 1)))
             then ''chain_link_mismatch'' else '''')\<rparr>, st)"
proof -
  have "tip_hash_of (genesis_hash D cfg) (take i es) = (if i = 0 then genesis_hash D cfg else le_entry_hash (es ! (i - 1)))"
    using assms(4) by (cases i) (simp_all add: tip_hash_of_def take_Suc_conv_app_nth)
  with mem_verify_entry [OF assms, of D cfg] show ?thesis by (simp add: entry_report_def hash_ok_def)
qed

theorem verify_entry_reports_witness:
  "\<exists>out. verify_entry sample_D (in_memory sample_D) sample_cfg 1 forged_state = (Inr out, forged_state)
    \<and> \<not> ve_chain_link_valid out"
proof -
  have "''forged'' \<noteq> genesis_hash sample_D sample_cfg"
    using forged_fault by (auto simp: entry_fault_def forged_entry_simps split: if_splits)
  with verify_entry_reports [OF forged_store_inv, of "''agent.decision''" "[forged_entry]" 0 sample_D sample_cfg]
  show ?thesis by (simp add: one_entry_chain forged_entry_simps positions_ok_def)
qed

text \<open>
  C15. The recent window. \<open>verify_recent_chain\<close> with a positive limit audits exactly the
  last \<open>min n (length es)\<close> entries, checking the first of them against the hash of the
  entry before the window; it accepts exactly when those links and hashes hold.
\<close>

theorem verify_recent_window:
  assumes "mem_store_inv (ss_repo st)" and "mem_chain (ss_repo st) t = es" and "positions_ok es"
    and "int (length es) \<le> I64_MAX" and "0 < n"
  shows "\<exists>out st'. verify_recent_chain D (in_memory D) cfg t n st = Some (Inr out, st') \<and> ss_repo st' = ss_repo st
    \<and> (vc_chain_valid out \<longleftrightarrow>
         linked (tip_hash_of (genesis_hash D cfg) (take (length es - nat n) es)) (drop (length es - nat n) es)
         \<and> (\<forall>e \<in> set (drop (length es - nat n) es). recompute_hash D e = Some (le_entry_hash e)))
    \<and> (vc_chain_valid out \<longrightarrow> vc_entries_checked out = min n (int (length es)))"
proof -
  let ?k = "length es - nat n"
  let ?A = "audit_range D (genesis_hash D cfg) es ?k (length es)"
  have v: "vc_chain_valid (fst ?A) \<longleftrightarrow> intact D (tip_hash_of (genesis_hash D cfg) (take ?k es)) (drop ?k es)"
    by (simp add: audit_range_def audit_valid_iff)
  have "int (length (drop ?k es)) = min n (int (length es))" using assms(5) by auto
  then have "vc_chain_valid (fst ?A) \<longrightarrow> vc_entries_checked (fst ?A) = min n (int (length es))"
    by (simp add: audit_range_def audit_valid_iff audit_intact)
  with v mem_verify_recent_chain [OF assms, of D cfg] show ?thesis
    by (intro exI [of _ "fst ?A"] exI [of _ "count_failure (snd ?A) st"])
      (simp add: intact_def hash_ok_def count_failure_def)
qed

theorem verify_recent_window_witness:
  "\<exists>out st'. verify_recent_chain sample_D (in_memory sample_D) sample_cfg ''agent.decision'' 10000 sample_written
      = Some (Inr out, st')
    \<and> (vc_chain_valid out \<longleftrightarrow> linked (genesis_hash sample_D sample_cfg) [sample_entry]
         \<and> recompute_hash sample_D sample_entry = Some (le_entry_hash sample_entry))"
  using verify_recent_window [OF sample_written_store_inv, of "''agent.decision''" "[sample_entry]" 10000 sample_D sample_cfg]
  by (auto simp: sample_written_chains positions_ok_def I64_MAX_def tip_hash_of_simps)

text \<open>
  C16. Audits always end. On any store with consistent indexes (gaps in the positions and
  forged contents allowed), with any boundary ids and any window size, \<open>verify_chain\<close> and
  \<open>verify_recent_chain\<close> return an answer and leave the store as it was.
\<close>

theorem verification_returns:
  assumes "mem_store_inv (ss_repo st)"
  shows "(\<exists>r st'. verify_chain D (in_memory D) cfg t s_id e_id st = Some (r, st') \<and> ss_repo st' = ss_repo st)
    \<and> (\<exists>r st'. verify_recent_chain D (in_memory D) cfg t n st = Some (r, st') \<and> ss_repo st' = ss_repo st)"
proof -
  have pin: "mem_store_inv (ss_repo st) \<and> ss_repo st = ss_repo st" using assms by simp
  show ?thesis
    using mem_at.verify_chain_returns [OF pin, of D D cfg t s_id e_id]
      mem_at.verify_recent_chain_returns [OF pin, of D D cfg t n] mem_observes_same(1)
    by blast
qed

theorem verification_returns_witness:
  "(\<exists>r st'. verify_chain sample_D (in_memory sample_D) sample_cfg ''x'' (Some 7) None forged_state = Some (r, st')
      \<and> ss_repo st' = ss_repo forged_state)
    \<and> (\<exists>r st'. verify_recent_chain sample_D (in_memory sample_D) sample_cfg ''x'' 3 forged_state = Some (r, st')
      \<and> ss_repo st' = ss_repo forged_state)"
  by (rule verification_returns [OF forged_store_inv])

text \<open>
  C17. Bad boundaries. An unknown id as start gives \<open>NotFound\<close>, whatever the end is, and so
  does an unknown id as end after a good start (none, or an entry of the chain). An entry of
  another chain gives \<open>InvalidArgument\<close> as start, and as end after a good start; and so does
  a start that lies behind the end. Nothing changes.
\<close>

theorem verify_chain_bad_boundaries:
  assumes inv: "mem_store_inv (ss_repo st)"
  shows "(u \<notin> le_entry_id ` all_entries (mem_chain (ss_repo st)) \<longrightarrow>
      verify_chain D (in_memory D) cfg t (Some u) e_id st = Some (Inl SvcNotFound, st))
    \<and> (u \<notin> le_entry_id ` all_entries (mem_chain (ss_repo st)) \<and> starts_at (mem_chain (ss_repo st) t) s_id i \<longrightarrow>
      verify_chain D (in_memory D) cfg t s_id (Some u) st = Some (Inl SvcNotFound, st))
    \<and> (a \<in> set (mem_chain (ss_repo st) t') \<and> t' \<noteq> t \<longrightarrow>
      verify_chain D (in_memory D) cfg t (Some (le_entry_id a)) e_id st =
        Some (Inl (InvalidArgument ''start_entry_id does not belong to entry_type''), st))
    \<and> (a \<in> set (mem_chain (ss_repo st) t') \<and> t' \<noteq> t \<and> starts_at (mem_chain (ss_repo st) t) s_id i \<longrightarrow>
      verify_chain D (in_memory D) cfg t s_id (Some (le_entry_id a)) st =
        Some (Inl (InvalidArgument ''end_entry_id does not belong to entry_type''), st))
    \<and> (a \<in> set (mem_chain (ss_repo st) t) \<and> b \<in> set (mem_chain (ss_repo st) t)
        \<and> le_chain_position b < le_chain_position a \<longrightarrow>
      verify_chain D (in_memory D) cfg t (Some (le_entry_id a)) (Some (le_entry_id b)) st =
        Some (Inl (InvalidArgument ''start_entry_id must not follow end_entry_id''), st))"
proof -
  have start: "\<exists>n. boundary_position (in_memory D) t ''start_entry_id does not belong to entry_type'' 1 s_id st = (Inr n, st)"
    if "starts_at (mem_chain (ss_repo st) t) s_id i"
    using that mem_boundary_found [OF inv, of "mem_chain (ss_repo st) t ! i" t D t]
    by (cases s_id) (auto simp: boundary_position_def [where boundary = None])
  show ?thesis
    using mem_boundary_missing [OF inv, of u D t] mem_boundary_found [OF inv, of a t' D t]
      mem_boundary_found [OF inv, of a t D t] mem_boundary_found [OF inv, of b t D t] start
    by (auto simp: verify_chain_def)
qed

theorem verify_chain_bad_boundaries_witness:
  "verify_chain sample_D (in_memory sample_D) sample_cfg ''agent.decision'' (Some 7) None forged_state
      = Some (Inl SvcNotFound, forged_state)
    \<and> verify_chain sample_D (in_memory sample_D) sample_cfg ''other'' (Some 1) None forged_state
      = Some (Inl (InvalidArgument ''start_entry_id does not belong to entry_type''), forged_state)
    \<and> verify_chain sample_D (in_memory sample_D) sample_cfg ''other'' None (Some 1) forged_state
      = Some (Inl (InvalidArgument ''end_entry_id does not belong to entry_type''), forged_state)"
proof -
  have "7 \<notin> le_entry_id ` all_entries (mem_chain (ss_repo forged_state))"
    by (auto simp: all_entries_def one_entry_chain forged_entry_simps split: if_splits)
  then show ?thesis
    using verify_chain_bad_boundaries [OF forged_store_inv, of 7 sample_D sample_cfg "''agent.decision''" None]
      verify_chain_bad_boundaries [OF forged_store_inv, of 7 sample_D sample_cfg "''other''" None None 0 forged_entry
        "''agent.decision''"]
    by (simp add: one_entry_chain forged_entry_simps)
qed

section \<open>The outbox\<close>

text \<open>
  C18. One outbox pass. Every pending event gets exactly one publish call: after a success
  it is delivered, after a failure its attempt count grows by one and it is failed once the
  count reaches the limit; events already delivered or failed, absent ones and the ledger
  are untouched.
\<close>

theorem outbox_pass:
  assumes "mem_inv D (ss_repo st)" and "st' = outbox_iteration P (in_memory D) cfg st"
  shows "mem_chain (ss_repo st') = mem_chain (ss_repo st) \<and>
    (case mem_outboxes (ss_repo st) i of
       None \<Rightarrow> mem_outboxes (ss_repo st') i = None
     | Some x \<Rightarrow>
         if ob_status x \<noteq> Pending then mem_outboxes (ss_repo st') i = Some x
         else \<exists>ok. (x, ok) \<in> set (drop (length (ss_publish_log st)) (ss_publish_log st')) \<and>
           mem_outboxes (ss_repo st') i = Some
             (if ok then x\<lparr>ob_status := Delivered\<rparr>
              else if ob_attempt_count x + 1 \<ge> sint (cfg_outbox_max_retries cfg)
              then x\<lparr>ob_attempt_count := ob_attempt_count x + 1, ob_status := Failed\<rparr>
              else x\<lparr>ob_attempt_count := ob_attempt_count x + 1\<rparr>))
    \<and> length (ss_publish_log st') - length (ss_publish_log st) =
        card {j. \<exists>x. mem_outboxes (ss_repo st) j = Some x \<and> ob_status x = Pending}"
proof -
  from mem_outbox.outbox_iteration_spec [OF assms(1) TrueI assms(2)] obtain xs
    where xs: "distinct (map ob_outbox_id xs)"
        "set xs = {x \<in> ran (mem_outboxes (ss_repo st)). ob_status x = Pending}"
      and log: "ss_publish_log st' = ss_publish_log st @ publish_outcomes P (length (ss_publish_log st)) xs"
      and same: "mem_chain (ss_repo st') = mem_chain (ss_repo st)" by blast
  have "{j. \<exists>x. mem_outboxes (ss_repo st) j = Some x \<and> ob_status x = Pending} = ob_outbox_id ` set xs"
    using mem_outbox.outbox_key [OF assms(1)] by (force simp: xs(2) ran_def)
  then have "card {j. \<exists>x. mem_outboxes (ss_repo st) j = Some x \<and> ob_status x = Pending} = length xs"
    using distinct_card [OF xs(1)] by simp
  moreover have "length (publish_outcomes P (length (ss_publish_log st)) xs) = length xs"
    using map_fst_outcomes [of P "length (ss_publish_log st)" xs] by (metis length_map)
  ultimately have calls: "length (ss_publish_log st') - length (ss_publish_log st) =
      card {j. \<exists>x. mem_outboxes (ss_repo st) j = Some x \<and> ob_status x = Pending}" by (simp add: log)
  note rec = mem_outbox.outbox_iteration_record [OF assms(1) TrueI assms(2), of i]
  show ?thesis
  proof (cases "mem_outboxes (ss_repo st) i")
    case None
    with rec(1) same calls show ?thesis by simp
  next
    case (Some x)
    show ?thesis
    proof (cases "ob_status x = Pending")
      case True
      from rec(3) [OF Some True] obtain ok where ok:
          "mem_outboxes (ss_repo st') i = Some (next_record (cfg_outbox_max_retries cfg) ok x)"
          "(x, ok) \<in> set (drop (length (ss_publish_log st)) (ss_publish_log st'))" by blast
      show ?thesis
        unfolding Some option.case using True same calls ok(2)
        by (intro conjI) (simp_all only: if_False not_True_eq_False simp_thms,
          rule exI [of _ ok], simp add: ok(1) next_record_def)
    next
      case False
      with rec(2) [OF Some] same calls show ?thesis by (simp add: Some)
    qed
  qed
qed

theorem outbox_pass_witness:
  "mem_outboxes (ss_repo (outbox_iteration sample_publisher (in_memory sample_D) sample_cfg sample_start)) 2 = None
    \<and> (\<exists>y. mem_outboxes (ss_repo (outbox_iteration sample_publisher (in_memory sample_D) sample_cfg sample_written)) 2 = Some y
      \<and> ob_outbox_id y = 2)"
  using outbox_pass [OF sample_start_mem_inv refl, where i = 2 and P = sample_publisher and cfg = sample_cfg]
    outbox_pass [OF sample_written_mem_inv refl, where i = 2 and P = sample_publisher and cfg = sample_cfg]
  by (auto simp: sample_start_outboxes sample_written_outboxes next_outbox_def new_outbox_def sample_env_def
      split: if_splits)

text \<open>
  C19. Every event is settled. With any behaviour of the event sink, an event with \<open>k\<close>
  failed attempts is delivered or failed after at most \<open>max_retries - k\<close> passes (one pass
  if none is left), so no event stays pending forever.
\<close>

theorem outbox_settled:
  assumes "mem_inv D (ss_repo st)" and "mem_outboxes (ss_repo st) i = Some x" and "0 < n"
    and "sint (cfg_outbox_max_retries cfg) - ob_attempt_count x \<le> int n"
  shows "\<exists>y. mem_outboxes (ss_repo ((outbox_iteration P (in_memory D) cfg ^^ n) st)) i = Some y
    \<and> ob_status y \<in> {Delivered, Failed}"
proof -
  from mem_outbox.outbox_settles [OF assms(1) TrueI assms(2,3), of cfg P] assms(4) obtain y
    where "mem_outboxes (ss_repo ((outbox_iteration P (in_memory D) cfg ^^ n) st)) i = Some y"
      "ob_status y \<noteq> Pending" by auto
  then show ?thesis by (cases "ob_status y") auto
qed

theorem outbox_settled_witness:
  "\<exists>y. mem_outboxes (ss_repo ((outbox_iteration sample_publisher (in_memory sample_D) sample_cfg ^^ 10) sample_written)) 2
      = Some y \<and> ob_status y \<in> {Delivered, Failed}"
  using outbox_settled [OF sample_written_mem_inv, of 2 _ 10 sample_cfg sample_publisher]
  by (simp add: sample_written_outboxes next_outbox_def new_outbox_def sample_cfg_def)

text \<open>
  C20. Exactly-once accounting. In every reachable state of a service on a repository that
  does not fail, an event marked delivered was accepted by the sink exactly once, a pending
  or failed one never; its attempt counter is the number of refused publish calls; it was
  given up only when that number reached the configured limit; and the sink was called for
  events of the outbox only.
\<close>

theorem outbox_accounts:
  assumes "seed_ok seed" and "genesis_hash D cfg \<noteq> []"
    and "reachable D (mem_model D) P cfg (service_new (mem_default seed)) st"
  shows "(\<forall>i x. mem_outboxes (ss_repo st) i = Some x \<longrightarrow>
      calls_for (ss_publish_log st) True i = (if ob_status x = Delivered then 1 else 0)
      \<and> int (calls_for (ss_publish_log st) False i) = ob_attempt_count x
      \<and> (ob_status x = Failed \<longrightarrow> sint (cfg_outbox_max_retries cfg) \<le> ob_attempt_count x))
    \<and> (\<forall>i ok. mem_outboxes (ss_repo st) i = None \<longrightarrow> calls_for (ss_publish_log st) ok i = 0)"
proof -
  have "system_inv (mem_inv D) (mem_model D) D cfg (service_new (mem_default seed))"
    using service_inv_new [OF assms(1), of D cfg] by (simp add: service_inv_system)
  from mem_system.reachable_accounted [OF assms(3) this assms(2) TrueI]
  have "accounted (cfg_outbox_max_retries cfg) (mem_outboxes (ss_repo st)) (ss_publish_log st)"
    by (simp add: accounted_def service_new_def mem_outboxes_def mem_default_def)
  then have A: "case mem_outboxes (ss_repo st) i of
      None \<Rightarrow> calls_for (ss_publish_log st) True i = 0 \<and> calls_for (ss_publish_log st) False i = 0
    | Some x \<Rightarrow> calls_for (ss_publish_log st) True i = (if ob_status x = Delivered then 1 else 0)
        \<and> int (calls_for (ss_publish_log st) False i) = ob_attempt_count x
        \<and> (ob_status x = Failed \<longrightarrow> sint (cfg_outbox_max_retries cfg) \<le> ob_attempt_count x)" for i
    unfolding accounted_def by blast
  have "calls_for (ss_publish_log st) ok i = 0" if "mem_outboxes (ss_repo st) i = None" for i ok
    using A [of i] that by (cases ok) simp_all
  moreover have "calls_for (ss_publish_log st) True i = (if ob_status x = Delivered then 1 else 0)
      \<and> int (calls_for (ss_publish_log st) False i) = ob_attempt_count x
      \<and> (ob_status x = Failed \<longrightarrow> sint (cfg_outbox_max_retries cfg) \<le> ob_attempt_count x)"
    if "mem_outboxes (ss_repo st) i = Some x" for i x using A [of i] that by simp
  ultimately show ?thesis by blast
qed

theorem outbox_accounts_witness:
  "\<exists>x. mem_outboxes (ss_repo sample_delivered) 2 = Some x \<and> ob_status x = Delivered
    \<and> calls_for (ss_publish_log sample_delivered) True 2 = 1"
proof -
  obtain x where x: "mem_outboxes (ss_repo sample_delivered) 2 = Some x" "ob_status x = Delivered"
    using sample_delivered_event by blast
  with outbox_accounts [OF sample_seed_ok sample_genesis sample_delivered_reachable [folded sample_start_new]]
  show ?thesis by auto
qed

section \<open>The repository, the envelope and queries\<close>

text \<open>
  C21. The in-memory append meets its contract. On a well-formed store with unused UUIDs,
  \<open>write_entry_with_outbox\<close> keeps the store well formed (indexes, tips and idempotency
  index included) and does what its result says: appends the canonical entry at the end of
  its chain with a pending event if asked for, or refuses a used key or a wrong previous
  hash and changes nothing; it never fails otherwise.
\<close>

theorem mem_write_meets_spec:
  assumes "mem_inv D s" and "fresh_draws (mem_chain s) (mem_outboxes s) d"
  shows "case mem_write_entry_with_outbox D d input s of (r, s') \<Rightarrow>
    mem_inv D s' \<and> write_spec D (\<lambda>ts. ts) True d input (mem_chain s) (mem_outboxes s) r (mem_chain s') (mem_outboxes s')"
  using in_memory_write [OF assms] by (auto split: prod.split)

theorem mem_write_meets_spec_witness:
  "case mem_write_entry_with_outbox sample_D (en_draws sample_env 0)
      (write_input_at sample_D sample_publisher sample_cfg sample_env sample_input (\<lambda>_. []) 0) (mem_default sample_seed)
    of (r, s') \<Rightarrow> mem_inv sample_D s' \<and> write_spec sample_D (\<lambda>ts. ts) True (en_draws sample_env 0)
      (write_input_at sample_D sample_publisher sample_cfg sample_env sample_input (\<lambda>_. []) 0)
      (\<lambda>_. []) (\<lambda>_. None) r (mem_chain s') (mem_outboxes s')"
proof -
  have "fresh_draws (mem_chain (ss_repo sample_start)) (mem_outboxes (ss_repo sample_start)) (en_draws sample_env 0)"
    using sample_fresh by (simp add: all_fresh_def)
  from mem_write_meets_spec [OF sample_start_mem_inv this, of "write_input_at sample_D sample_publisher sample_cfg
      sample_env sample_input (\<lambda>_. []) 0"] show ?thesis
    by (simp only: sample_start_chains sample_start_outboxes) (simp only: sample_start_repo)
qed

text \<open>
  C22. The hash envelope is unambiguous. For the two supported versions, two entries have
  the same canonical bytes exactly when they have the same version and agree on every field
  the version commits to (an absent optional field counts as empty); no field boundary can
  be shifted and no version 2 envelope is a version 3 envelope.
\<close>

theorem envelope_injective:
  assumes "encodings_ok D"
    and "v \<in> {ENTRY_HASH_VERSION_V2, ENTRY_HASH_VERSION_V3}" and "w \<in> {ENTRY_HASH_VERSION_V2, ENTRY_HASH_VERSION_V3}"
  shows "canonical_bytes D v a = canonical_bytes D w b \<longleftrightarrow> v = w \<and> committed v a = committed w b"
  by (rule canonical_bytes_inject [OF assms])

theorem envelope_injective_witness:
  "canonical_bytes sample_D ENTRY_HASH_VERSION_V3 (entry_hash_input sample_D sample_entry)
     \<noteq> canonical_bytes sample_D ENTRY_HASH_VERSION_V3 (entry_hash_input sample_D forged_entry)"
proof -
  have "le_previous_hash sample_entry = genesis_hash sample_D sample_cfg" by (simp add: tip_hash_of_simps)
  moreover have "genesis_hash sample_D sample_cfg \<noteq> ''forged''"
    using forged_fault by (auto simp: entry_fault_def forged_entry_simps split: if_splits)
  ultimately have "ch_previous_hash (committed ENTRY_HASH_VERSION_V3 (entry_hash_input sample_D sample_entry))
      \<noteq> ch_previous_hash (committed ENTRY_HASH_VERSION_V3 (entry_hash_input sample_D forged_entry))"
    by (simp add: committed_def committed_v2_def committed_v3_def entry_hash_input_def forged_entry_simps)
  then show ?thesis
    using envelope_injective [OF sample_encodings_ok, of ENTRY_HASH_VERSION_V3 ENTRY_HASH_VERSION_V3] by force
qed

text \<open>
  C23. Pagination is complete. A client that starts without a page token and follows the
  tokens to the end gets, within as many calls as there are matching entries plus one, every
  entry of the ledger that matches the filters, exactly once, ordered by time and position.
\<close>

theorem pagination_complete:
  assumes "mem_inv D (ss_repo st)" and "qi_page_token q = None"
    and "card {e \<in> all_entries (mem_chain (ss_repo st)). matches_query D (query_of q) e} < fuel"
    and "int (card {e \<in> all_entries (mem_chain (ss_repo st)). matches_query D (query_of q) e}) < 2 ^ 63"
  shows "\<exists>es. all_pages (in_memory D) q fuel st = Some (Inr es) \<and> distinct es
    \<and> set es = {e \<in> all_entries (mem_chain (ss_repo st)). matches_query D (query_of q) e}
    \<and> sorted (map (\<lambda>e. (timestamp_millis D (le_written_ts e), le_chain_position e)) es)"
proof -
  let ?v = "mem_view D (ss_repo st) (query_of q)"
  have "mem_index_inv (ss_repo st)" using assms(1) by (simp add: mem_inv_def)
  note V = mem_view_spec [OF this, of D "query_of q"]
  have len: "length ?v = card {e \<in> all_entries (mem_chain (ss_repo st)). matches_query D (query_of q) e}"
    using distinct_card [OF V(1)] V(2) by simp
  have "page_offset (qi_page_token q) = 0" using assms(2) by (simp add: page_offset_def)
  then have "all_pages (in_memory D) q fuel st = Some (Inr ?v)"
    using mem_query.all_pages_view [where st = st and D = D and q = q and fuel = fuel] assms(3,4) by (simp add: len)
  with V show ?thesis by blast
qed

theorem pagination_complete_witness:
  "\<exists>es. all_pages (in_memory sample_D) (sample_query\<lparr>qi_page_size := 1\<rparr>) 2 sample_written = Some (Inr es)
    \<and> distinct es \<and> set es = {sample_entry}"
proof -
  let ?q = "sample_query\<lparr>qi_page_size := 1\<rparr>"
  have "all_entries (mem_chain (ss_repo sample_written)) = {sample_entry}"
    by (auto simp: all_entries_def sample_written_chains split: if_splits)
  then have one: "{e \<in> all_entries (mem_chain (ss_repo sample_written)). matches_query sample_D (query_of ?q) e} = {sample_entry}"
    by (auto simp: matches_query_def query_of_def sample_query_def sample_input_def next_entry_def
        write_input_at_def entry_write_input_of_def)
  from pagination_complete [OF sample_written_mem_inv, of ?q 2] show ?thesis
    unfolding one by (auto simp: sample_query_def)
qed

section \<open>The background verifier\<close>

text \<open>
  C24. What a verifier pass publishes. On any auditable store a pass returns and records a
  status that is valid exactly when the recent window of every chain is intact, checks every
  non-empty chain once, and sets the integrity gauge accordingly; the store is unchanged.
\<close>

theorem verifier_pass_status:
  assumes "mem_store_inv (ss_repo (vr_service vst))" and "auditable (mem_chain (ss_repo (vr_service vst)))"
    and "0 < cfg_verify_max_entries_per_chain cfg"
  shows "\<exists>vst' v. verifier_pass D (in_memory D) cfg now elapsed vst = Some vst' \<and> vr_status vst' = Some v
    \<and> (vn_all_valid v \<longleftrightarrow> (\<forall>t. window_intact D cfg (cfg_verify_max_entries_per_chain cfg)
          (mem_chain (ss_repo (vr_service vst))) t))
    \<and> vn_chains_checked v = card {t. mem_chain (ss_repo (vr_service vst)) t \<noteq> []}
    \<and> m_chain_integrity_valid (ss_metrics (vr_service vst')) = (if vn_all_valid v then 1 else 0)
    \<and> ss_repo (vr_service vst') = ss_repo (vr_service vst)"
proof -
  let ?L = "mem_chain (ss_repo (vr_service vst))" and ?n = "cfg_verify_max_entries_per_chain cfg"
  let ?res = "\<lambda>t. chain_result_of t (Inr (fst (window_report D cfg ?n ?L t)))"
  from mem_run_verification [OF assms, of D cfg] obtain ts st'
    where run: "run_verification D (in_memory D) cfg ?n (vr_service vst) = Some (map ?res ts, st')"
      and same: "ss_repo st' = ss_repo (vr_service vst)"
      and ts: "distinct ts" "set ts = {t. ?L t \<noteq> []}" by blast
  have "window_intact D cfg ?n ?L t" if "?L t = []" for t
    using that by (simp add: window_intact_def window_def before_window_def intact_simps)
  then have valid: "list_all cr_valid (map ?res ts) \<longleftrightarrow> (\<forall>t. window_intact D cfg ?n ?L t)"
    using ts(2) by (auto simp: list_all_iff chain_result_of_def window_report_valid)
  have count: "length ts = card {t. ?L t \<noteq> []}" using distinct_card [OF ts(1)] ts(2) by simp
  show ?thesis
    unfolding verifier_pass_def run option.case prod.case Let_def valid
    using count same by (simp add: sleep_def set_integrity_gauge_def)
qed

theorem verifier_pass_status_witness:
  "\<exists>vst' v. verifier_pass sample_D (in_memory sample_D) sample_cfg 0 0 \<lparr>vr_service = forged_state, vr_status = None\<rparr>
      = Some vst' \<and> vr_status vst' = Some v \<and> \<not> vn_all_valid v
    \<and> m_chain_integrity_valid (ss_metrics (vr_service vst')) = 0"
proof -
  have "\<not> window_intact sample_D sample_cfg 10000 (mem_chain (ss_repo forged_state)) ''agent.decision''"
    by (simp add: window_intact_def window_def before_window_def one_entry_chain intact_simps tip_hash_of_simps forged_fault)
  moreover have "auditable (mem_chain (ss_repo forged_state))"
    by (simp add: auditable_def one_entry_chain positions_ok_def forged_entry_simps I64_MAX_def)
  moreover have "cfg_verify_max_entries_per_chain sample_cfg = 10000" by (simp add: sample_cfg_def)
  ultimately show ?thesis
    using verifier_pass_status [of "\<lparr>vr_service = forged_state, vr_status = None\<rparr>" sample_cfg sample_D 0 0]
    by (fastforce simp: forged_store_inv)
qed

text \<open>
  C25. The verifier fails open. When the repository cannot list the chains, a pass checks
  nothing, yet records a valid status, sets the integrity gauge to 1 and leaves the
  readiness route answering 200, whatever the chains contain.
\<close>

theorem verifier_blind_when_types_fail:
  assumes "repo_get_distinct_entry_types R (ss_repo (vr_service vst)) = (Inl err, s')"
  shows "\<exists>vst' v. verifier_pass D R cfg now elapsed vst = Some vst' \<and> vr_status vst' = Some v
    \<and> vn_all_valid v \<and> vn_chains_checked v = 0
    \<and> m_chain_integrity_valid (ss_metrics (vr_service vst')) = 1
    \<and> readyz True (vr_status vst') = (200, ''ready'')"
  using assms
  by (simp add: verifier_pass_def run_verification_def get_distinct_entry_types_def map_err_repo_def on_repo_def
      sleep_def set_integrity_gauge_def readyz_def Let_def)

theorem verifier_blind_when_types_fail_witness:
  "\<exists>vst' v. verifier_pass sample_D
      ((in_memory sample_D)\<lparr>repo_get_distinct_entry_types := (\<lambda>s. (Inl Unavailable, s))\<rparr>) sample_cfg 0 0
      \<lparr>vr_service = forged_state, vr_status = None\<rparr> = Some vst' \<and> vr_status vst' = Some v
    \<and> vn_all_valid v \<and> vn_chains_checked v = 0
    \<and> m_chain_integrity_valid (ss_metrics (vr_service vst')) = 1
    \<and> readyz True (vr_status vst') = (200, ''ready'')"
  by (rule verifier_blind_when_types_fail [where err = Unavailable]) simp

section \<open>The gRPC layer\<close>

text \<open>
  C26. Write, then read, over gRPC. When the \<open>WriteEntry\<close> handler answers with an entry id,
  the \<open>GetEntry\<close> handler called with that id returns the content, the metadata and the
  proof material of the request byte for byte, with the hash and the position of the
  answer.
\<close>

theorem grpc_write_then_get:
  assumes "mem_inv D (ss_repo st)" and "all_fresh env (mem_chain (ss_repo st)) (mem_outboxes (ss_repo st))"
    and "genesis_hash D cfg \<noteq> []" and enc: "encodings_ok D"
    and "grpc_write_entry D (in_memory D) P cfg env input st = (Inr response, st')"
  shows "\<exists>entry. grpc_get_entry D (in_memory D) (ws_entry_id response) st' = (Inr entry, st')
    \<and> pe_entry_id entry = ws_entry_id response \<and> pe_entry_hash entry = ws_entry_hash response
    \<and> int_to_string (pe_chain_position entry) = ws_chain_position response
    \<and> pe_entry_type entry = wq_entry_type input \<and> pe_agent_id entry = wq_agent_id input
    \<and> pe_content entry = wq_content input \<and> pe_content_type entry = wq_content_type input
    \<and> pe_source_id entry = wq_source_id input \<and> pe_correlation_id entry = wq_correlation_id input
    \<and> pe_input_hash entry = wq_input_hash input \<and> pe_writer_signature entry = wq_writer_signature input
    \<and> pe_signer_key_reference entry = wq_signer_key_reference input
    \<and> pe_attestation_report entry = wq_attestation_report input"
proof -
  let ?in = "write_input_of_request input"
  obtain out where w: "write_entry D (in_memory D) P cfg env ?in st = (Inr out, st')"
    and resp: "ws_entry_id response = uuid_to_string D (wo_entry_id out)" "ws_entry_hash response = wo_entry_hash out"
      "ws_chain_position response = int_to_string (wo_chain_position out)"
    using assms(5) by (auto simp: grpc_write_entry_def respond_def split: prod.splits sum.splits)
  note W = mem_write_entry [OF assms(1-3) w]
  from outcome_ok_entry [OF W(2)] obtain e where e: "e \<in> set (mem_chain (ss_repo st') (we_entry_type ?in))"
    "out = output_of_entry D e" "idempotent_request_matches e ?in" by blast
  have "le_entry_type e = we_entry_type ?in" using mem_inv_hash_ok [OF W(1) e(1)] by blast
  moreover have "parse_uuid D (ws_entry_id response) = Inr (le_entry_id e)"
    using enc by (simp add: parse_uuid_def resp e(2) output_of_entry_def encodings_ok_def)
  ultimately show ?thesis
    using mem_get_entry_found [OF W(1) e(1)] e(2,3) resp
    by (auto simp: grpc_get_entry_def respond_def pb_entry_def output_of_entry_def idempotent_request_matches_def
        write_input_of_request_def unwrap_empty_to_none)
qed

theorem grpc_write_then_get_witness:
  "\<exists>response entry. grpc_write_entry sample_D (in_memory sample_D) sample_publisher sample_cfg sample_env
      sample_request sample_start = (Inr response, sample_written)
    \<and> grpc_get_entry sample_D (in_memory sample_D) (ws_entry_id response) sample_written = (Inr entry, sample_written)
    \<and> pe_content entry = [1, 2, 3]"
proof -
  obtain response where run: "grpc_write_entry sample_D (in_memory sample_D) sample_publisher sample_cfg sample_env
      sample_request sample_start = (Inr response, sample_written)"
    by (simp add: grpc_write_entry_def respond_def sample_request_input sample_write)
  from grpc_write_then_get [OF sample_start_mem_inv sample_fresh sample_genesis sample_encodings_ok run] run
  show ?thesis by (auto simp: sample_request_def)
qed

section \<open>Configuration and start-up\<close>

text \<open>
  C27. A loaded configuration is in range: ports fit 16 bits, sizes 64 bits, the HTTP
  timeout, the halt recovery time and the verification window are positive, the connection
  string is the configured one and an outbox endpoint is never blank.
\<close>

theorem from_env_in_range:
  assumes "from_env env = Inr cfg"
  shows "cfg_grpc_port cfg < 2 ^ 16 \<and> cfg_health_port cfg < 2 ^ 16 \<and> cfg_metrics_port cfg < 2 ^ 16
    \<and> cfg_max_content_size_bytes cfg < 2 ^ 64
    \<and> 0 < cfg_outbox_http_timeout_seconds cfg \<and> 0 < cfg_chain_halt_recovery_seconds cfg
    \<and> 0 < cfg_verify_max_entries_per_chain cfg \<and> cfg_verify_max_entries_per_chain cfg \<le> I64_MAX
    \<and> env ''ARE_LEDGER_DB_CONNECTION_STRING'' = Some (cfg_db_connection_string cfg)
    \<and> (\<forall>url. cfg_outbox_http_endpoint cfg = Some url \<longrightarrow> \<not> trim_is_empty url)"
proof -
  note F = from_env_Inr [OF assms]
  show ?thesis
    using parse_u16_range [OF F(1)] parse_u16_range [OF F(2)] parse_u16_range [OF F(3)] parse_usize_range [OF F(4)]
      parse_nonzero_u64_range [OF F(6)] parse_nonzero_u64_range [OF F(8)] parse_positive_i64_range [OF F(10)]
      F(5) optional_not_blank [of env "''ARE_LEDGER_OUTBOX_HTTP_ENDPOINT''"]
    by (simp add: required_Inr F(11) I64_MAX_def)
qed

theorem from_env_in_range_witness:
  "\<exists>cfg. from_env [''ARE_LEDGER_DB_CONNECTION_STRING'' \<mapsto> ''host=db''] = Inr cfg
    \<and> 0 < cfg_chain_halt_recovery_seconds cfg \<and> cfg_grpc_port cfg < 2 ^ 16
    \<and> cfg_db_connection_string cfg = ''host=db''"
proof -
  obtain cfg where cfg: "from_env [''ARE_LEDGER_DB_CONNECTION_STRING'' \<mapsto> ''host=db''] = Inr cfg"
    by (simp add: from_env_def parse_u16_def parse_usize_def required_def parse_nonzero_u64_def
        parse_verify_interval_def parse_positive_i64_def)
  with from_env_in_range [OF cfg] show ?thesis by auto
qed

text \<open>
  C28. A retry limit that is a multiple of 2 to the 32 becomes zero. The limit is parsed as
  64 bits and cast to 32; with such a value the configuration loads without an error, and no
  valid write of a chain with no halt on record is ever appended, whatever the repository is: the
  repository is asked at most for the entry with the idempotency key; that entry, an
  unavailable repository and a conflicting key are answered as usual, and every other request
  is refused as an internal integrity violation.
\<close>

theorem truncated_retry_limit:
  assumes "from_env env = Inr cfg" and "env ''ARE_LEDGER_CHAIN_MAX_RETRIES'' = Some raw"
    and "parse_unsigned 64 raw = Some n" and "2 ^ 32 dvd n"
    and "validate_write cfg input = None" and "ss_chain_halted st (we_entry_type input) = None"
    and "(case we_idempotency_key input of
        None \<Rightarrow> (Inr None, ss_repo st)
      | Some key \<Rightarrow> repo_find_idempotent R (we_entry_type input) key (ss_repo st)) = (found, s)"
  shows "\<exists>st'. write_entry D R P cfg wenv input st =
      (case found of
         Inl err \<Rightarrow> Inl (map_repo err)
       | Inr (Some e) \<Rightarrow>
           if idempotent_request_matches e input then Inr (output_of_entry D e)
           else Inl (AlreadyExists idempotency_conflict_message)
       | Inr None \<Rightarrow> Inl (Internal ''chain integrity violation''), st')
    \<and> ss_repo st' = s"
proof -
  obtain m where m: "parse_usize env ''ARE_LEDGER_CHAIN_MAX_RETRIES'' 10 = Inr m"
    "cfg_chain_max_retries cfg = word_of_nat m" using from_env_Inr(7) [OF assms(1)] by blast
  with parse_usize_set [OF m(1) assms(2)] assms(3) have "cfg_chain_max_retries cfg = word_of_nat n" by simp
  moreover have "(word_of_nat n :: u32) = 0" using assms(4) by (simp add: word_of_nat_eq_0_iff)
  ultimately have "unat (cfg_chain_max_retries cfg) = 0" by simp
  then show ?thesis
    using assms(5-) by (auto simp: write_entry_def write_entry_impl_def check_halted_def append_under_lock_def on_repo_def
        chain_lock_def split: option.splits sum.splits)
qed

theorem truncated_retry_limit_witness:
  "\<exists>cfg st'. from_env [''ARE_LEDGER_DB_CONNECTION_STRING'' \<mapsto> ''host=db'',
        ''ARE_LEDGER_CHAIN_MAX_RETRIES'' \<mapsto> ''4294967296''] = Inr cfg
    \<and> write_entry sample_D (in_memory sample_D) noop_event_publisher cfg sample_env keyless_input sample_start
        = (Inl (Internal ''chain integrity violation''), st')
    \<and> (\<exists>st''. write_entry sample_D (in_memory sample_D) noop_event_publisher cfg sample_env sample_input sample_written
        = (Inr (output_of_entry sample_D sample_entry), st''))"
proof -
  let ?env = "[''ARE_LEDGER_DB_CONNECTION_STRING'' \<mapsto> ''host=db'', ''ARE_LEDGER_CHAIN_MAX_RETRIES'' \<mapsto> ''4294967296'']"
  have n: "parse_unsigned 64 ''4294967296'' = Some 4294967296"
    by (simp add: parse_unsigned_def parse_digits_def is_digit_def digits_value_def digit_value_def)
  obtain cfg where cfg: "from_env ?env = Inr cfg" and max: "cfg_max_content_size_bytes cfg = 1048576"
    by (simp add: from_env_def parse_u16_def parse_usize_def required_def parse_nonzero_u64_def
        parse_verify_interval_def parse_positive_i64_def n)
  have ok: "validate_write cfg keyless_input = None" "validate_write cfg sample_input = None"
    by (simp_all add: validate_write_def max keyless_input_def sample_input_def)
  obtain st' where "write_entry sample_D (in_memory sample_D) noop_event_publisher cfg sample_env keyless_input sample_start
      = (Inl (Internal ''chain integrity violation''), st')"
    using truncated_retry_limit [OF cfg _ n, of keyless_input sample_start "in_memory sample_D" "Inr None" "ss_repo sample_start"
        sample_D noop_event_publisher sample_env] ok
    by (auto simp: keyless_input_def sample_start_def service_new_def)
  moreover have "\<exists>st''. write_entry sample_D (in_memory sample_D) noop_event_publisher cfg sample_env sample_input sample_written
      = (Inr (output_of_entry sample_D sample_entry), st'')"
  proof -
    have i: "we_idempotency_key sample_input = Some ''k1''" "we_entry_type sample_input = ''agent.decision''"
      by (simp_all add: sample_input_def)
    have "mem_find_idempotent ''agent.decision'' ''k1'' (ss_repo sample_written) = (Inr (Some sample_entry), ss_repo sample_written)"
      unfolding mem_find_idempotent_eq [OF sample_written_mem_inv] sample_written_chains by (simp add: with_key_def i)
    moreover have "ss_chain_halted sample_written ''agent.decision'' = None"
      using write_entry_keeps_unhalted [OF sample_write] by (simp add: sample_start_def service_new_def)
    ultimately show ?thesis
      using truncated_retry_limit [OF cfg _ n, of sample_input sample_written "in_memory sample_D" "Inr (Some sample_entry)"
          "ss_repo sample_written" sample_D noop_event_publisher sample_env] ok(2) idempotent_matches_new
      by (simp add: i) blast
  qed
  ultimately show ?thesis using cfg by blast
qed

text \<open>
  C29. Start-up requires an append-only role and keeps the TLS choice. If the server starts,
  its configuration was loaded from the environment, the database role it connects with may
  insert into and select from the ledger table and may neither update nor delete, and every
  stream the connector of its pool hands out is a rustls stream exactly when the connection
  string names an \<open>sslmode\<close> other than \<open>disable\<close>.
\<close>

theorem started_server_is_append_only:
  assumes "start_server G H env = Inr server"
  shows "from_env env = Inr (sv_config server) \<and>
    (\<exists>client.
       pg_connect G (cfg_db_connection_string (sv_config server)) (sv_tls server) = Inr client
       \<and> pg_has_table_privilege G client ledger_table ''INSERT'' = Inr True
       \<and> pg_has_table_privilege G client ledger_table ''SELECT'' = Inr True
       \<and> pg_has_table_privilege G client ledger_table ''UPDATE'' = Inr False
       \<and> pg_has_table_privilege G client ledger_table ''DELETE'' = Inr False) \<and>
    (\<forall>T domain inner socket stream.
       make_tls_connect T (sv_tls server) domain = Inr inner \<longrightarrow> tls_connect T inner socket = Inr stream \<longrightarrow>
       ((\<exists>r. stream = RustlsStream r) \<longleftrightarrow>
          (\<exists>mode. parse_ssl_mode (cfg_db_connection_string (sv_config server)) = Some mode \<and> mode \<noteq> ''disable'')))"
proof -
  from assms have cfg: "from_env env = Inr (sv_config server)"
    and perm: "verify_ledger_entries_immutable G (cfg_db_connection_string (sv_config server)) = Inr ()"
    and tls: "make_pg_tls (pg_usable_roots G) (cfg_db_connection_string (sv_config server)) = Inr (sv_tls server)"
    by (auto simp: start_server_def build_pool_def split: sum.splits if_splits)
  from perm show ?thesis
    unfolding verify_ledger_entries_immutable_def Let_def evaluate_permissions_def
    by (auto simp: cfg tls connected_stream_matches [OF tls] split: sum.splits if_splits)
qed

theorem started_server_is_append_only_witness:
  "\<exists>server. start_server sample_driver sample_http [''ARE_LEDGER_DB_CONNECTION_STRING'' \<mapsto> ''host=db''] = Inr server
    \<and> pg_has_table_privilege sample_driver () ledger_table ''UPDATE'' = Inr False"
proof -
  obtain server where run: "start_server sample_driver sample_http
      [''ARE_LEDGER_DB_CONNECTION_STRING'' \<mapsto> ''host=db''] = Inr server"
    using sample_server_starts by blast
  from started_server_is_append_only [OF run] run show ?thesis by auto
qed

text \<open>
  C30. The status of a \<open>WriteEntry\<close> call. Behind the interceptor, on the in-memory service
  and with a retry limit above zero, the status code is determined by the request: without
  the bearer token (when one is configured) it is unauthenticated; else invalid argument when
  a required field is empty or the content too long; else unavailable when the chain is
  halted; else already exists when the key was used by a different request; and in all other
  cases the call succeeds. A call that does not succeed leaves chains and outbox unchanged,
  and an unauthenticated one the whole state.
\<close>

theorem grpc_write_status:
  assumes "mem_inv D (ss_repo st)" and "all_fresh env (mem_chain (ss_repo st)) (mem_outboxes (ss_repo st))"
    and "genesis_hash D cfg \<noteq> []" and retries: "cfg_chain_max_retries cfg \<noteq> 0"
    and run: "serve_grpc to_str cfg headers (grpc_write_entry D (in_memory D) P cfg env request) st = (r, st')"
  shows "(case r of Inl status \<Rightarrow> Some (st_code status) | Inr _ \<Rightarrow> None) =
      (if \<not> authorised to_str cfg headers then Some Code_unauthenticated
       else if wq_entry_type request = [] \<or> wq_agent_id request = [] \<or> wq_content_type request = []
         \<or> wq_source_id request = [] \<or> length (wq_content request) > cfg_max_content_size_bytes cfg
       then Some Code_invalid_argument
       else if is_halted cfg (en_check_time env) (wq_entry_type request) st then Some Code_unavailable
       else if conflicting (write_input_of_request request) (mem_chain (ss_repo st)) then Some Code_already_exists
       else None)
    \<and> (isl r \<longrightarrow> mem_chain (ss_repo st') = mem_chain (ss_repo st) \<and> mem_outboxes (ss_repo st') = mem_outboxes (ss_repo st))
    \<and> (\<not> authorised to_str cfg headers \<longrightarrow> st' = st)"
proof (cases "authorised to_str cfg headers")
  case True
  let ?in = "write_input_of_request request"
  obtain w st1 where w: "write_entry D (in_memory D) P cfg env ?in st = (w, st1)" by fastforce
  note W = mem_write_result [OF assms(1-3) w retries]
  have r: "st' = st1" "isl r = isl w"
    "(case r of Inl status \<Rightarrow> Some (st_code status) | Inr _ \<Rightarrow> None) =
       (case w of Inl e \<Rightarrow> Some (st_code (map_err e)) | Inr _ \<Rightarrow> None)"
    using run True w by (auto simp: serve_grpc_cases grpc_write_entry_def respond_def split: sum.splits)
  show ?thesis
    using W(1) W(2) True unfolding r
    by (auto simp: validate_write_def write_input_of_request_def split: if_splits)
qed (use run in \<open>auto simp: serve_grpc_cases\<close>)

theorem grpc_write_status_witness:
  "\<exists>r st'. serve_grpc Some sample_cfg (\<lambda>_. None)
     (grpc_write_entry sample_D (in_memory sample_D) sample_publisher sample_cfg sample_env sample_request)
     sample_start = (r, st') \<and> \<not> isl r"
proof -
  obtain r st' where run: "serve_grpc Some sample_cfg (\<lambda>_. None)
     (grpc_write_entry sample_D (in_memory sample_D) sample_publisher sample_cfg sample_env sample_request)
     sample_start = (r, st')" by fastforce
  have "(case r of Inl status \<Rightarrow> Some (st_code status) | Inr _ \<Rightarrow> None) = None"
    using grpc_write_status [OF sample_start_mem_inv sample_fresh sample_genesis _ run]
    by (simp add: sample_cfg_def authorised_def sample_request_def sample_not_halted conflicting_def sample_start_chains
        write_input_of_request_def)
  with run show ?thesis by (cases r) auto
qed

text \<open>
  The bearer gate. Without a configured API token every request passes; with one, a
  request passes exactly when its \<open>authorization\<close> header is the text \<open>Bearer\<close>, a space
  and that token, in full; the same comparison guards \<open>/shutdownz\<close>, which is absent without
  a token and triggers the shutdown only for a matching one.
\<close>

theorem bearer_gate:
  "(grpc_gate to_str cfg request = None \<longleftrightarrow>
      (case cfg_api_token cfg of
         None \<Rightarrow> True
       | Some token \<Rightarrow> \<exists>v. request ''authorization'' = Some v \<and> to_str v = Some (''Bearer '' @ token)))
    \<and> shutdownz to_str cfg request sent =
        (case cfg_shutdown_token cfg of
           None \<Rightarrow> (404, sent)
         | Some token \<Rightarrow>
             if \<exists>v. request ''authorization'' = Some v \<and> to_str v = Some (''Bearer '' @ token)
             then (202, True) else (401, sent))"
  unfolding grpc_gate_def authorize_grpc_request_def shutdownz_def authorized_http_def bearer_matches_iff
  by (cases "cfg_api_token cfg"; cases "cfg_shutdown_token cfg") auto

section \<open>Publishing over HTTP\<close>

text \<open>
  A publish call succeeds exactly when an endpoint is configured, the request (the
  event payload, with the outbox id as idempotency key, the entry id and the bearer token if
  one is configured) was answered, and the answer is not an error status. Every attempt for
  the same event sends the same request.
\<close>

theorem http_publish_succeeds_iff:
  "http_publish D H h n x = Inr () \<longleftrightarrow>
     (\<exists>url code. hp_endpoint h = Some url \<and> hc_error_for_status H code = None
        \<and> hc_send H n
            \<lparr>hr_url = url,
             hr_headers =
               [(''content-type'', ''application/json''),
                (''Idempotency-Key'', uuid_to_string D (ob_outbox_id x)),
                (''X-Ledger-Entry-ID'', uuid_to_string D (ob_entry_id x))]
               @ (case hp_bearer_token h of None \<Rightarrow> [] | Some token \<Rightarrow> [(''authorization'', ''Bearer '' @ token)]),
             hr_body = ob_payload x\<rparr> = Inr code)"
  by (auto simp: http_publish_def http_publish_request_def split: option.splits sum.splits)

text \<open>
  A large outbox retry limit gives up at once. The limit is compared after a cast to a
  signed 32-bit number, so with a limit of 2 to the 31 or more an event is failed for good
  after its first refused publish call.
\<close>

theorem huge_outbox_limit_fails_early:
  assumes "mem_inv D (ss_repo st)" and "mem_outboxes (ss_repo st) = [i \<mapsto> x]" and "ob_status x = Pending"
    and "0 \<le> ob_attempt_count x" and "2 ^ 31 \<le> unat (cfg_outbox_max_retries cfg)"
    and "pub_publish P (length (ss_publish_log st)) x = Inl refusal"
  shows "mem_outboxes (ss_repo (outbox_iteration P (in_memory D) cfg st)) =
    [i \<mapsto> x\<lparr>ob_attempt_count := ob_attempt_count x + 1, ob_status := Failed\<rparr>]"
proof -
  have "sint (cfg_outbox_max_retries cfg) < 0" by (rule huge_u32_negative [OF assms(5)])
  then have "ob_attempt_count x + 1 \<ge> sint (cfg_outbox_max_retries cfg)" using assms(4) by simp
  moreover have "False = (\<not> isl (pub_publish P (length (ss_publish_log st)) x))" using assms(6) by simp
  ultimately show ?thesis
    using single_event_pass(2) [OF assms(1-3) _ refl, of False P cfg] by (simp add: next_record_def)
qed

theorem huge_outbox_limit_fails_early_witness:
  "\<exists>x. mem_outboxes (ss_repo (outbox_iteration sample_publisher (in_memory sample_D)
      (sample_cfg\<lparr>cfg_outbox_max_retries := 0x80000000\<rparr>) sample_written)) = [2 \<mapsto> x]
    \<and> ob_status x = Failed \<and> ob_attempt_count x = 1"
proof -
  let ?x = "next_outbox sample_D (\<lambda>_. []) (en_draws sample_env 0)
    (write_input_at sample_D sample_publisher sample_cfg sample_env sample_input (\<lambda>_. []) 0)"
  have "ss_publish_log sample_written = []"
    using write_entry_log [OF sample_write] by (simp add: sample_start_def service_new_def)
  moreover have "ob_status ?x = Pending" "ob_attempt_count ?x = 0" by (simp_all add: next_outbox_def new_outbox_def)
  ultimately show ?thesis
    using huge_outbox_limit_fails_early [OF sample_written_mem_inv sample_written_outboxes, of
        "sample_cfg\<lparr>cfg_outbox_max_retries := 0x80000000\<rparr>" sample_publisher "''refused''"]
    by (intro exI [of _ "?x\<lparr>ob_attempt_count := 1, ob_status := Failed\<rparr>"])
      (simp add: sample_publisher_def [THEN arg_cong [of _ _ pub_publish], simplified])
qed

section \<open>Shutting down\<close>

text \<open>
  C32. Graceful shutdown, exactly. After any run that started all three servers, a server is
  told to stop exactly when, after its own start, a signal arrived or a request to
  \<open>/shutdownz\<close> carried the configured token. If every server still up was told, the process
  ends when they finish, without an error exactly when no server had failed. Otherwise, so
  also when the one signal came before a server had subscribed, the process stays up as long
  as no server fails and nobody asks again.
\<close>

theorem shutdown_ends_process:
  assumes "watch_ok W alive" and "process_run W to_str cfg xs (process_new W) = Some p" and "pr_point p = At_join"
    and "\<forall>s. pr_servers p s \<noteq> Stopped Panicked"
  shows "(\<forall>s rx. pr_servers p s = Serving rx \<longrightarrow>
      (wl_changed W rx (pr_channel p) \<longleftrightarrow> asked_after to_str cfg (start_number s) xs)) \<and>
    (if \<forall>s rx. pr_servers p s = Serving rx \<longrightarrow> asked_after to_str cfg (start_number s) xs
     then \<exists>q r. process_run W to_str cfg (drain p) p = Some q \<and> pr_point q = Exited r
       \<and> (r = Inr () \<longleftrightarrow> (\<forall>s e. pr_servers p s \<noteq> Stopped (Serve_error e)))
     else \<forall>ys q. list_all (quiet to_str cfg) ys \<longrightarrow> process_run W to_str cfg ys p = Some q \<longrightarrow> pr_point q = At_join)"
proof -
  have inv: "process_inv W alive to_str cfg xs p"
    using process_run_keeps [OF assms(1) process_inv_new assms(2)] by simp
  show ?thesis
  proof (cases "\<forall>s rx. pr_servers p s = Serving rx \<longrightarrow> asked_after to_str cfg (start_number s) xs")
    case True
    with asked_process_drains [OF assms(1) inv assms(3)] assms(4) process_invD(2) [OF inv] show ?thesis by auto
  next
    case False
    then obtain s rx where "pr_servers p s = Serving rx" "\<not> asked_after to_str cfg (start_number s) xs" by blast
    from unasked_process_stays [OF assms(1) inv assms(3) this assms(4)] False process_invD(2) [OF inv]
    show ?thesis by (simp only: if_False) blast
  qed
qed

theorem shutdown_ends_process_witness:
  "(\<exists>p q. process_run version_watch Some sample_cfg [Spawned, Bound None, Bound None, Signal] (process_new version_watch) = Some p
      \<and> process_run version_watch Some sample_cfg (drain p) p = Some q \<and> pr_point q = Exited (Inr ()))
   \<and> (\<exists>p. process_run version_watch Some sample_cfg [Signal, Spawned, Bound None, Bound None] (process_new version_watch) = Some p
      \<and> (\<forall>ys q. list_all (quiet Some sample_cfg) ys \<longrightarrow> process_run version_watch Some sample_cfg ys p = Some q \<longrightarrow>
           pr_point q = At_join))"
proof
  obtain p where run: "process_run version_watch Some sample_cfg [Spawned, Bound None, Bound None, Signal]
      (process_new version_watch) = Some p" and at: "pr_point p = At_join"
    and up: "\<And>s. \<exists>rx. pr_servers p s = Serving rx" using signal_in_time [of Some sample_cfg] by blast
  have no: "pr_servers p s \<noteq> Stopped r" for s r using up [of s] by auto
  have asked: "asked_after Some sample_cfg (start_number s) [Spawned, Bound None, Bound None, Signal]" for s
    by (cases s) (simp_all add: numeral_2_eq_2 numeral_3_eq_3)
  from shutdown_ends_process [OF version_watch_ok run at] no asked
  have "\<exists>q. process_run version_watch Some sample_cfg (drain p) p = Some q \<and> pr_point q = Exited (Inr ())" by auto
  with run show "\<exists>p q. process_run version_watch Some sample_cfg [Spawned, Bound None, Bound None, Signal]
      (process_new version_watch) = Some p
      \<and> process_run version_watch Some sample_cfg (drain p) p = Some q \<and> pr_point q = Exited (Inr ())" by blast
next
  obtain p rx where run: "process_run version_watch Some sample_cfg [Signal, Spawned, Bound None, Bound None]
      (process_new version_watch) = Some p" and at: "pr_point p = At_join" and up: "pr_servers p Health = Serving rx"
    and no: "\<forall>s. pr_servers p s \<noteq> Stopped Panicked" using signal_too_early [of Some sample_cfg] by blast
  have "\<not> asked_after Some sample_cfg (start_number Health) [Signal, Spawned, Bound None, Bound None]"
    by (simp add: numeral_2_eq_2)
  with up have "\<not> (\<forall>s rx. pr_servers p s = Serving rx \<longrightarrow>
      asked_after Some sample_cfg (start_number s) [Signal, Spawned, Bound None, Bound None])" by blast
  with shutdown_ends_process [OF version_watch_ok run at no]
  have "\<forall>ys q. list_all (quiet Some sample_cfg) ys \<longrightarrow> process_run version_watch Some sample_cfg ys p = Some q \<longrightarrow>
      pr_point q = At_join" by (simp only: if_False) blast
  with run show "\<exists>p. process_run version_watch Some sample_cfg [Signal, Spawned, Bound None, Bound None]
      (process_new version_watch) = Some p \<and> (\<forall>ys q. list_all (quiet Some sample_cfg) ys \<longrightarrow>
        process_run version_watch Some sample_cfg ys p = Some q \<longrightarrow> pr_point q = At_join)" by blast
qed

section \<open>The PostgreSQL repository\<close>

text \<open>
  C33. The PostgreSQL transaction meets the same contract as the in-memory append, up to
  what a table can keep of an instant and up to faults. On tables that satisfy the schema,
  for an input the columns keep unchanged, it keeps the tables well formed and does what
  its answer says: the canonical entry is the new end of its chain, with its pending event
  if one was asked for; or a used key, or a wrong previous hash, is refused and nothing
  changes; when the answer is \<open>Unavailable\<close> the whole append happened or none of it.
\<close>

theorem pg_write_meets_spec:
  assumes "pg_inv E D s" and "fresh_draws (pg_chain E s) (pg_outboxes D s) d" and "pg_storable E D input"
  shows "case pg_write_entry_with_outbox E D d input s of (r, s') \<Rightarrow>
    pg_inv E D s' \<and> write_spec D (pg_clip E) False d input (pg_chain E s) (pg_outboxes D s) r
      (pg_chain E s') (pg_outboxes D s')"
  using pg_write_law [OF assms] by (auto split: prod.split)

theorem pg_write_meets_spec_witness:
  "case pg_write_entry_with_outbox sample_E sample_D (en_draws sample_env 0)
      (write_input_at sample_D sample_publisher sample_cfg sample_env sample_input (\<lambda>_. []) 0) (ss_repo sample_pg_start)
    of (r, s') \<Rightarrow> pg_inv sample_E sample_D s' \<and> write_spec sample_D (pg_clip sample_E) False (en_draws sample_env 0)
      (write_input_at sample_D sample_publisher sample_cfg sample_env sample_input (\<lambda>_. []) 0)
      (\<lambda>_. []) (\<lambda>_. None) r (pg_chain sample_E s') (pg_outboxes sample_D s')"
proof -
  have "fresh_draws (pg_chain sample_E (ss_repo sample_pg_start)) (pg_outboxes sample_D (ss_repo sample_pg_start))
      (en_draws sample_env 0)"
    using sample_pg_fresh by (simp add: all_fresh_def)
  moreover have "pg_storable sample_E sample_D
      (write_input_at sample_D sample_publisher sample_cfg sample_env sample_input (\<lambda>_. []) 0)"
    using sample_storable [OF sample_pg_start_inv] by (simp add: all_storable_def sample_pg_empty)
  ultimately show ?thesis using pg_write_meets_spec [OF sample_pg_start_inv] by (simp add: sample_pg_empty)
qed

text \<open>
  Immutability and no false alarms under faults. On the PostgreSQL repository, from
  empty tables, with any calls failing before or after they took effect and rows arriving in
  any order, and with writes that draw unused UUIDs and whose texts the columns keep
  (\<open>write_ready\<close> of \<open>pg_model\<close>): every chain of an earlier state is a prefix of the same chain in every later
  state, and the full audit of a chain either is unavailable or accepts it and counts all of
  its entries.
\<close>

theorem pg_ledger_immutable:
  assumes "pg_env_ok E D" and "genesis_hash D cfg \<noteq> []"
    and "reachable D (pg_model E D) P cfg (service_new pg_empty) st" and "reachable D (pg_model E D) P cfg st st'"
    and "int (length (pg_chain E (ss_repo st') t)) \<le> I64_MAX"
  shows "(\<exists>es. pg_chain E (ss_repo st') t = pg_chain E (ss_repo st) t @ es)
    \<and> (\<exists>r st''. verify_chain D (postgres E D) cfg t None None st' = Some (r, st'')
      \<and> (r = Inl SvcUnavailable \<or> r = Inr (chain_ok (int (length (pg_chain E (ss_repo st') t))))))"
proof -
  have "keeps (pg_inv E D) (pg_model E D) D cfg st st'"
    by (rule pg_system.reachable_keeps [OF assms(4) pg_reachable [OF assms(1-3)] assms(2)])
  with pg_verify_chain [OF _ _ assms(5)] show ?thesis by (simp add: keeps_def extends_def system_inv_def)
qed

theorem pg_ledger_immutable_witness:
  "(\<exists>es. pg_chain sample_E (ss_repo sample_pg_written) ''agent.decision'' =
      pg_chain sample_E (ss_repo (service_new pg_empty)) ''agent.decision'' @ es)
    \<and> (\<exists>r st''. verify_chain sample_D (postgres sample_E sample_D) sample_cfg ''agent.decision'' None None
        sample_pg_written = Some (r, st'') \<and> (r = Inl SvcUnavailable \<or> r = Inr (chain_ok 1)))"
  using pg_ledger_immutable [OF sample_pg_env sample_genesis reachable.here sample_pg_reachable,
      of "''agent.decision''"]
  by (simp add: sample_pg_chain I64_MAX_def)

text \<open>
  At most one entry per idempotency key, under faults. Of two writes with the same
  entry type and key that both succeed, with any other operations and failures between them
  (a commit whose answer was lost included), the second returns the answer of the first,
  and the chain holds exactly one entry with the key. All writes draw unused UUIDs, and the
  columns keep their texts (\<open>write_ready\<close> of \<open>pg_model\<close>).
\<close>

theorem pg_answers_agree:
  assumes "pg_env_ok E D" and "genesis_hash D cfg \<noteq> []"
    and "reachable D (pg_model E D) P cfg (service_new pg_empty) st"
    and "write_ready D (pg_model E D) P cfg env input st"
    and "write_entry D (postgres E D) P cfg env input st = (Inr out, st1)"
    and "reachable D (pg_model E D) P cfg st1 st2"
    and "write_ready D (pg_model E D) P cfg env' input' st2"
    and "write_entry D (postgres E D) P cfg env' input' st2 = (Inr out', st3)"
    and "we_idempotency_key input = Some k" and "we_idempotency_key input' = Some k"
    and "we_entry_type input' = we_entry_type input"
  shows "\<exists>e. {x \<in> set (pg_chain E (ss_repo st3) (we_entry_type input)). le_idempotency_key x = Some k} = {e}
    \<and> out = output_of_entry D e \<and> out' = out"
  using pg_system.successful_answers_agree [OF pg_reachable [OF assms(1-3)] assms(2,4) _ assms(6,7) _ assms(9-11),
      unfolded pg_model_simps, OF assms(5,8)] .

theorem pg_answers_agree_witness:
  "\<exists>e st3. write_entry sample_D (postgres sample_E sample_D) sample_publisher sample_cfg sample_retry_env sample_input
      sample_pg_written = (Inr (output_of_entry sample_D e), st3)
    \<and> {x \<in> set (pg_chain sample_E (ss_repo st3) ''agent.decision''). le_idempotency_key x = Some ''k1''} = {e}"
proof -
  obtain st3 where st3: "write_entry sample_D (postgres sample_E sample_D) sample_publisher sample_cfg sample_retry_env
      sample_input sample_pg_written = (Inr (output_of_entry sample_D sample_entry), st3)"
    using sample_pg_retry by blast
  have i: "we_idempotency_key sample_input = Some ''k1''" "we_entry_type sample_input = ''agent.decision''"
    by (simp_all add: sample_input_def)
  have "reachable sample_D (pg_model sample_E sample_D) sample_publisher sample_cfg (service_new pg_empty) sample_pg_start"
    by (simp add: sample_pg_start_def reachable.here)
  from pg_answers_agree [OF sample_pg_env sample_genesis this sample_pg_ready sample_pg_write reachable.here
      sample_pg_retry_ready st3 i(1) i(1) refl]
  obtain e where "{x \<in> set (pg_chain sample_E (ss_repo st3) ''agent.decision''). le_idempotency_key x = Some ''k1''} = {e}"
    "output_of_entry sample_D sample_entry = output_of_entry sample_D e"
    unfolding i(2) by (elim exE conjE) (rule that)
  with st3 show ?thesis by (intro exI [of _ e] exI [of _ st3]) (simp only: simp_thms)
qed

text \<open>
  C36. A write to PostgreSQL succeeds. When no call fails, a valid request whose texts fit
  their columns, with an unused key, on a chain that is not halted, is appended at the first
  attempt: the answer describes the entry that is now the end of its chain, at the next
  position, linked to the previous tip, and no other chain changes.
\<close>

theorem pg_write_succeeds:
  assumes "pg_quiet E" and "pg_inv E D (ss_repo st)"
    and "all_fresh env (pg_chain E (ss_repo st)) (pg_outboxes D (ss_repo st))"
    and "genesis_hash D cfg \<noteq> []" and "validate_write cfg input = None"
    and "\<not> is_halted cfg (en_check_time env) (we_entry_type input) st" and "cfg_chain_max_retries cfg \<noteq> 0"
    and "request_fits input"
    and "\<not> key_used (we_idempotency_key input) (pg_chain E (ss_repo st) (we_entry_type input))"
    and "event_accepted E D (en_draws env 0) (write_input_at D P cfg env input (pg_chain E (ss_repo st)) 0)
      (int (length (pg_chain E (ss_repo st) (we_entry_type input))) + 1)"
    and "timestamp_millis D (pg_clip E (en_now env 0)) = timestamp_millis D (en_now env 0)"
  shows "\<exists>e st'. write_entry D (postgres E D) P cfg env input st = (Inr (output_of_entry D e), st')
    \<and> pg_chain E (ss_repo st') = (pg_chain E (ss_repo st))
        (we_entry_type input := pg_chain E (ss_repo st) (we_entry_type input) @ [e])
    \<and> le_chain_position e = int (length (pg_chain E (ss_repo st) (we_entry_type input))) + 1
    \<and> le_previous_hash e = tip_hash_of (genesis_hash D cfg) (pg_chain E (ss_repo st) (we_entry_type input))
    \<and> idempotent_request_matches e input"
proof -
  let ?w = "write_input_at D P cfg env input (pg_chain E (ss_repo st)) 0"
  let ?e = "next_entry D (pg_chain E (ss_repo st)) (en_draws env 0) (clip_input (pg_clip E) ?w)"
  have "le_chain_position ?e = int (length (pg_chain E (ss_repo st) (we_entry_type input))) + 1"
    "le_previous_hash ?e = tip_hash_of (genesis_hash D cfg) (pg_chain E (ss_repo st) (we_entry_type input))"
    "idempotent_request_matches ?e input"
    by (simp_all add: next_entry_def new_entry_def clip_input_def write_input_at_def entry_write_input_of_def
        idempotent_request_matches_def)
  with pg_write_fits [OF assms(1-9) refl assms(10,11) refl] show ?thesis by blast
qed

theorem pg_write_succeeds_witness:
  "\<exists>e st'. write_entry sample_D (postgres sample_E sample_D) sample_publisher sample_cfg sample_env sample_input
      sample_pg_start = (Inr (output_of_entry sample_D e), st')
    \<and> pg_chain sample_E (ss_repo st') = (\<lambda>_. [])(''agent.decision'' := [e])
    \<and> le_chain_position e = 1 \<and> le_previous_hash e = genesis_hash sample_D sample_cfg"
proof -
  have c: "cfg_chain_max_retries sample_cfg \<noteq> 0" "\<not> key_used k []" for k
    by (simp_all add: sample_cfg_def key_used_def split: option.splits)
  have "we_entry_type sample_input = ''agent.decision''" by (simp add: sample_input_def)
  with pg_write_succeeds [OF sample_quiet sample_pg_start_inv sample_pg_fresh sample_genesis sample_valid
      sample_pg_not_halted c(1) sample_request_fits _ sample_event, where env = sample_env and P = sample_publisher] c(2)
  show ?thesis by (fastforce simp: sample_pg_empty sample_clip tip_hash_of_simps)
qed

text \<open>
  C37. What a PostgreSQL query answers. For a prefix without \<open>LIKE\<close> wildcards and time
  bounds up to the year 2106, an answered query is a page of one list that holds exactly
  the rows with the prefix and the equal columns whose instant lies between the bounds
  (the double-precision argument of \<open>to_timestamp\<close> loses nothing), once each, sorted by
  instant and position, and the total count is the length of that list.
\<close>

theorem pg_query_answers:
  assumes "pg_store_inv E s" and "instants_ok E" and "plain_query q" and "pg_query_entries E q s = (Inr res, s')"
  shows "\<exists>rows. distinct rows \<and> set rows = {row \<in> set (pg_entries s). row_matches q row}
    \<and> sorted (map (\<lambda>row. (er_written_ts row, er_chain_position row)) rows)
    \<and> qr_entries res = map (map_row_entry E) (take (eq_limit q) (drop (eq_offset q) rows))
    \<and> qr_total_count res = int (length rows)"
  by (rule pg_query_page [OF assms])

theorem pg_query_answers_witness:
  "\<exists>res s'. pg_query_entries sample_E sample_entry_query sample_table = (Inr res, s')
    \<and> qr_total_count res = 2 \<and> set (map le_entry_id (qr_entries res)) = {1, 3}"
proof -
  obtain res s' where run: "pg_query_entries sample_E sample_entry_query sample_table = (Inr res, s')"
    using sample_query_runs by blast
  have rows: "{row \<in> set (pg_entries sample_table). row_matches sample_entry_query row} =
      {sample_row 1 ''agent.decision'' 5000000, sample_row 3 ''agent.note'' 4000000}"
    by (auto simp: sample_table_def sample_row_def row_matches_def sample_entry_query_def)
  from pg_query_answers [OF sample_table_inv sample_instants sample_query_plain run] obtain rs where
    rs: "distinct rs" "set rs = {sample_row 1 ''agent.decision'' 5000000, sample_row 3 ''agent.note'' 4000000}"
      "qr_entries res = map (map_row_entry sample_E) (take 10 rs)" "qr_total_count res = int (length rs)"
    unfolding rows by (auto simp: sample_entry_query_def)
  have "length rs = 2" using distinct_card [OF rs(1)] unfolding rs(2) by (simp add: sample_row_def)
  with rs have "set (map le_entry_id (qr_entries res)) = {1, 3}" by (simp add: sample_row_def)
  with \<open>length rs = 2\<close> rs(4) run show ?thesis by auto
qed

text \<open>
  C38. The tables satisfy the schema in every run. Any number of processes with any requests
  (texts of any length, which the columns may cut off, and repeated UUIDs included), outbox
  processors and readers interleave call by call, under any faults. In every state reached
  from empty tables every row satisfies the column types and checks of the migrations (texts
  fit their \<open>VARCHAR\<close> columns and hold no zero byte, a known hash version, a known event
  status, an attempt counter that fits 32 bits); entry ids, chain positions, the idempotency
  keys of a chain and event ids are unique; positions count up from one in every chain; and
  every chain of an earlier state is a prefix of the same chain in a later one.
\<close>

theorem pg_tables_typed:
  assumes "\<forall>n. seed_ok (pe_scan E n)"
    and "fleet_reachable D (pg_any E D) Ps cfg ts (fleet_new pg_empty) f" and "fleet_reachable D (pg_any E D) Ps cfg ts f f'"
    and "s = cl_repo (fl_cluster f)" and "s' = cl_repo (fl_cluster f')"
  shows "(\<forall>row \<in> set (pg_entries s'). entry_row_typed row) \<and> (\<forall>row \<in> set (pg_outbox s'). outbox_row_typed row)
    \<and> distinct (map er_entry_id (pg_entries s'))
    \<and> distinct (map (\<lambda>row. (er_entry_type row, er_chain_position row)) (pg_entries s'))
    \<and> distinct (map (\<lambda>row. (er_entry_type row, er_idempotency_key row))
        (filter (\<lambda>row. er_idempotency_key row \<noteq> None) (pg_entries s')))
    \<and> distinct (map or_outbox_id (pg_outbox s'))
    \<and> (\<forall>t. positions_ok (pg_chain E s' t) \<and> (\<exists>es. pg_chain E s' t = pg_chain E s t @ es))"
proof -
  have "pg_schema E (cl_repo (fl_cluster (fleet_new pg_empty)))"
    using pg_schema_empty [OF assms(1)] by (simp add: fleet_new_def cluster_new_def)
  from fleet_moves [OF assms(2) this] have "pg_schema E s" by (simp add: pg_moves_def assms(4))
  with fleet_moves [OF assms(3)] have "pg_schema E s'" "extends (pg_chain E s) (pg_chain E s')"
    by (simp_all add: pg_moves_def assms(4,5))
  then show ?thesis
    by (simp add: pg_schema_def pg_ordered_def pg_typed_def pg_store_inv_def position_key_def [abs_def] key_index_def extends_def)
qed

theorem pg_tables_typed_witness:
  "\<exists>f row. fleet_reachable sample_D (pg_any sample_E sample_D) (\<lambda>_. sample_publisher) sample_cfg
      (\<lambda>_. \<lparr>tk_proc = 0, tk_input = spaced_input, tk_env = sample_env\<rparr>) (fleet_new pg_empty) f
    \<and> row \<in> set (pg_entries (cl_repo (fl_cluster f))) \<and> er_agent_id row = full_width \<and> entry_row_typed row"
proof -
  let ?ts = "\<lambda>_. \<lparr>tk_proc = 0, tk_input = spaced_input, tk_env = sample_env\<rparr>"
  obtain out e st' where run: "write_entry sample_D (postgres sample_E sample_D) sample_publisher sample_cfg sample_env
      spaced_input sample_pg_start = (Inr out, st')"
    and e: "pg_chain sample_E (ss_repo st') ''agent.decision'' = [e]" "le_agent_id e = full_width"
    using spaced_write by blast
  obtain f where f: "fleet_reachable sample_D (pg_any sample_E sample_D) (\<lambda>_. sample_publisher) sample_cfg ?ts (fleet_new pg_empty) f"
    "cl_repo (fl_cluster f) = ss_repo st'"
    using write_any [where ts = ?ts and i = 0 and Ps = "\<lambda>_. sample_publisher" and s = pg_empty, simplified, OF run [unfolded sample_pg_start_def]]
    by blast
  have "e \<in> map_row_entry sample_E ` set (pg_chain_rows (ss_repo st') ''agent.decision'')"
    using arg_cong [OF e(1), of set] by (simp add: set_pg_chain)
  then obtain row where row: "row \<in> set (pg_entries (ss_repo st'))" "map_row_entry sample_E row = e"
    by (auto simp: pg_chain_rows_def)
  have "\<forall>n. seed_ok (pe_scan sample_E n)" using sample_pg_env by (simp add: pg_env_ok_def)
  from pg_tables_typed [OF this f(1) fleet_reachable.start refl refl] row(1) have "entry_row_typed row" by (simp add: f(2))
  moreover have "er_agent_id row = full_width" using row(2) e(2) by (auto simp: map_row_entry_def)
  ultimately show ?thesis using f row(1) by (intro exI [of _ f] exI [of _ row]) simp
qed

text \<open>
  C39. A trailing space breaks a chain for good. The service checks no lengths and hashes the
  request as it came; a \<open>VARCHAR\<close> column cuts off excess spaces without an error. So a valid
  request whose agent id exceeds its column by trailing spaces is accepted and answered, and
  the stored entry, at position \<open>n\<close>, has the shortened agent id under the hash of the long one.
  Unless the two collide under SHA-256, whatever any number of processes do from then on,
  every answered audit that covers the entry (of a range that holds position \<open>n\<close>, as the full
  range does, or of a recent window that reaches back to it) rejects the chain, as long as
  its positions fit 64 bits.
\<close>

theorem pg_trailing_space_breaks_chain:
  assumes "pg_quiet E" and inv: "pg_inv E D (ss_repo st)"
    and "all_fresh env (pg_chain E (ss_repo st)) (pg_outboxes D (ss_repo st))"
    and "genesis_hash D cfg \<noteq> []" and "validate_write cfg input = None"
    and "\<not> is_halted cfg (en_check_time env) (we_entry_type input) st" and "cfg_chain_max_retries cfg \<noteq> 0"
    and "request_fits (input\<lparr>we_agent_id := take_chars 255 (we_agent_id input)\<rparr>)"
    and "\<not> varchar_error 255 (we_agent_id input)" and "drop_chars 255 (we_agent_id input) \<noteq> []"
    and "\<not> key_used (we_idempotency_key input) (pg_chain E (ss_repo st) (we_entry_type input))"
    and "w = write_input_at D P cfg env input (pg_chain E (ss_repo st)) 0"
    and n: "n = int (length (pg_chain E (ss_repo st) (we_entry_type input))) + 1"
    and "event_accepted E D (en_draws env 0) w n" and "encodings_ok D"
    and "a = new_entry D (dr_entry_id (en_draws env 0)) w n"
  shows "\<exists>e st'. write_entry D (postgres E D) P cfg env input st = (Inr (output_of_entry D a), st')
    \<and> pg_chain E (ss_repo st') (we_entry_type input) = pg_chain E (ss_repo st) (we_entry_type input) @ [e]
    \<and> le_agent_id e = take_chars 255 (we_agent_id input)
    \<and> (sha256_collision D (preimage D a) (preimage D e) \<or>
       (\<forall>Ps ts f f' p es. cl_repo (fl_cluster f) = ss_repo st' \<longrightarrow> fleet_reachable D (pg_any E D) Ps cfg ts f f' \<longrightarrow>
         es = pg_chain E (cl_repo (fl_cluster f')) (we_entry_type input) \<longrightarrow> int (length es) \<le> I64_MAX \<longrightarrow>
         audits_reject D (postgres E D) cfg (we_entry_type input) (nat n) es (view (fl_cluster f') p)))"
proof -
  from pg_trailing_spaces [OF assms] obtain e st' where
    run: "write_entry D (postgres E D) P cfg env input st = (Inr (output_of_entry D a), st')" and
    chain: "pg_chain E (ss_repo st') (we_entry_type input) = pg_chain E (ss_repo st) (we_entry_type input) @ [e]" and
    agent: "le_agent_id e = take_chars 255 (we_agent_id input)" and
    bad: "sha256_collision D (preimage D a) (preimage D e) \<or> \<not> hash_ok D e" by blast
  have sch: "pg_schema E (ss_repo st')" by (rule write_entry_schema [OF pg_inv_schema [OF inv] run])
  have "nat n = length (pg_chain E (ss_repo st) (we_entry_type input)) + 1" by (simp add: n)
  then have "\<not> hash_ok D e \<Longrightarrow> cl_repo (fl_cluster f) = ss_repo st' \<Longrightarrow> fleet_reachable D (pg_any E D) Ps cfg ts f f' \<Longrightarrow>
      int (length (pg_chain E (cl_repo (fl_cluster f')) (we_entry_type input))) \<le> I64_MAX \<Longrightarrow>
      audits_reject D (postgres E D) cfg (we_entry_type input) (nat n)
        (pg_chain E (cl_repo (fl_cluster f')) (we_entry_type input)) (view (fl_cluster f') p)" for Ps ts f f' p
    by (simp only:) (rule pg_bad_entry_stays [OF sch chain])
  with run chain agent bad show ?thesis by (intro exI [of _ e] exI [of _ st']) blast
qed

theorem pg_trailing_space_breaks_chain_witness:
  "\<exists>out e st'. write_entry sample_D (postgres sample_E sample_D) sample_publisher sample_cfg sample_env spaced_input
      sample_pg_start = (Inr out, st')
    \<and> pg_chain sample_E (ss_repo st') ''agent.decision'' = [e] \<and> le_agent_id e = full_width"
  using pg_trailing_space_breaks_chain [OF sample_quiet sample_pg_start_inv sample_pg_fresh sample_genesis
      spaced_input_simps(1) sample_pg_not_halted sample_limit spaced_fits(1,2) spaced_long sample_pg_unused refl refl
      sample_event sample_encodings_ok refl, where env = sample_env and P = sample_publisher]
  by (fastforce simp: sample_pg_empty spaced_input_simps(2) spaced_short)

section \<open>Concurrent writers\<close>

text \<open>
  C9. Concurrent writers. Any number of requests run interleaved, step by step, in any
  number of processes that share one PostgreSQL database, with calls failing or losing
  their answers and audits, reads and outbox passes in between. Two things are asked of the
  requests that have started: they draw no UUID twice, and no text of a request exceeds its
  column by trailing spaces alone (C39 shows what happens then), nor does the database lose a
  millisecond of its clock readings. Then every chain only
  grows at its end; every request that ended with success describes an entry that is in its
  chain with the key, content and metadata of the request; two requests with the same chain
  and key that succeed got the same answer, and the chain holds exactly one entry with the
  key; and a full audit by any process of a chain whose positions fit 64 bits is unavailable
  or accepts the chain and counts all of its entries.
\<close>

theorem concurrent_writers_safe:
  assumes "pg_env_ok E D" and "genesis_hash D cfg \<noteq> []"
    and "draws_distinct cfg ts (started c')" and "requests_kept E D ts (started c')"
    and "cluster_reachable D (pg_any E D) P cfg ts (cluster_new pg_empty) c"
    and "cluster_reachable D (pg_any E D) P cfg ts c c'"
  shows "(\<forall>t. \<exists>es. pg_chain E (cl_repo c') t = pg_chain E (cl_repo c) t @ es)
    \<and> (\<forall>i out. cl_phase c' i = Finished (Inr out) \<longrightarrow>
        (\<exists>e \<in> set (pg_chain E (cl_repo c') (tk_chain (ts i))).
           le_idempotency_key e = we_idempotency_key (tk_input (ts i))
           \<and> idempotent_request_matches e (tk_input (ts i)) \<and> out = output_of_entry D e))
    \<and> (\<forall>i j k out out'. cl_phase c' i = Finished (Inr out) \<longrightarrow> cl_phase c' j = Finished (Inr out') \<longrightarrow>
        tk_chain (ts i) = tk_chain (ts j) \<longrightarrow> we_idempotency_key (tk_input (ts i)) = Some k \<longrightarrow>
        we_idempotency_key (tk_input (ts j)) = Some k \<longrightarrow>
        out' = out \<and> (\<exists>e. {x \<in> set (pg_chain E (cl_repo c') (tk_chain (ts i))). le_idempotency_key x = Some k} = {e}))
    \<and> (\<forall>p t. int (length (pg_chain E (cl_repo c') t)) \<le> I64_MAX \<longrightarrow>
        (\<exists>r st. verify_chain D (postgres E D) cfg t None None (view c' p) = Some (r, st)
          \<and> (r = Inl SvcUnavailable \<or> r = Inr (chain_ok (int (length (pg_chain E (cl_repo c') t)))))))"
proof -
  note runs = cluster_ready_new [OF assms(1,3-6)]
  have "system_inv (pg_inv E D) (pg_model E D) D cfg (service_new pg_empty)" by (rule pg_system_start [OF assms(1)])
  then have "pg_system.cluster_inv E D cfg ts (cluster_new pg_empty)"
    by (intro pg_system.cluster_new_ok) (simp_all add: system_inv_def service_new_def)
  with pg_system.cluster_keeps [OF runs(1)] have "pg_system.cluster_inv E D cfg ts c" by blast
  from pg_system.cluster_keeps [OF runs(2) this] have ok: "pg_system.cluster_inv E D cfg ts c'"
    and grows: "extends (pg_chain E (cl_repo c)) (pg_chain E (cl_repo c'))" by simp_all
  have parts: "pg_inv E D (ss_repo (view c' p))" "rooted D cfg (pg_chain E (ss_repo (view c' p)))"
    "phase_ok D cfg (tk_input (ts i)) (pg_chain E (cl_repo c')) (cl_phase c' i)" for p i
    using ok by (simp_all add: pg_system.cluster_inv_def)
  show ?thesis
  proof (intro conjI allI impI)
    show "\<exists>es. pg_chain E (cl_repo c') t = pg_chain E (cl_repo c) t @ es" for t using grows by (simp add: extends_def)
    show "\<exists>e \<in> set (pg_chain E (cl_repo c') (tk_chain (ts i))). le_idempotency_key e = we_idempotency_key (tk_input (ts i))
        \<and> idempotent_request_matches e (tk_input (ts i)) \<and> out = output_of_entry D e"
      if "cl_phase c' i = Finished (Inr out)" for i out
      using parts(3) [of i] that by (simp add: answered_def)
    fix i j k out out'
    assume two: "cl_phase c' i = Finished (Inr out)" "cl_phase c' j = Finished (Inr out')"
      "tk_chain (ts i) = tk_chain (ts j)" "we_idempotency_key (tk_input (ts i)) = Some k"
      "we_idempotency_key (tk_input (ts j)) = Some k"
    note agree = pg_system.cluster_answers_agree [OF ok two]
    show "out' = out" "\<exists>e. {x \<in> set (pg_chain E (cl_repo c') (tk_chain (ts i))). le_idempotency_key x = Some k} = {e}"
      using agree by simp_all
  next
    show "\<exists>r st. verify_chain D (postgres E D) cfg t None None (view c' p) = Some (r, st)
        \<and> (r = Inl SvcUnavailable \<or> r = Inr (chain_ok (int (length (pg_chain E (cl_repo c') t)))))"
      if "int (length (pg_chain E (cl_repo c') t)) \<le> I64_MAX" for p t
      using pg_verify_chain [OF parts(1,2), of p t] that by simp
  qed
qed

theorem concurrent_writers_safe_witness:
  "\<exists>c out e. cluster_reachable sample_D (pg_any sample_E sample_D) sample_publisher sample_cfg (sample_tasks 1)
      (cluster_new pg_empty) c
    \<and> cl_phase c 0 = Finished (Inr out) \<and> cl_phase c 1 = Finished (Inr out)
    \<and> tk_proc (sample_tasks 1 0) \<noteq> tk_proc (sample_tasks 1 1)
    \<and> e \<in> set (pg_chain sample_E (cl_repo c) ''agent.decision'') \<and> out = output_of_entry sample_D e"
proof -
  let ?out = "output_of_entry sample_D sample_entry"
  obtain c where c: "cluster_reachable sample_D (pg_any sample_E sample_D) sample_publisher sample_cfg (sample_tasks 1)
      (cluster_new pg_empty) c"
    "cl_phase c = (\<lambda>_. Checking)(0 := Finished (Inr ?out), 1 := Finished (Inr ?out))"
    using sample_cluster_second cluster_any by blast
  have two: "cl_phase c 0 = Finished (Inr ?out)" "cl_phase c 1 = Finished (Inr ?out)" by (simp_all add: c(2))
  have "started c = {0, 1}" by (auto simp: started_def c(2))
  then have "draws_distinct sample_cfg (sample_tasks 1) (started c)" using sample_distinct by simp
  note S = concurrent_writers_safe [OF sample_pg_env sample_genesis this sample_kept c(1) cluster_reachable.start]
  from S [THEN conjunct2, THEN conjunct1, rule_format, OF two(2)] obtain e where
    "e \<in> set (pg_chain sample_E (cl_repo c) ''agent.decision'')" "?out = output_of_entry sample_D e"
    by (auto simp: sample_chain)
  with c(1) two show ?thesis
    by (intro exI [of _ c] exI [of _ ?out] exI [of _ e]) (simp add: sample_tasks_def)
qed

text \<open>
  C31. The small steps are the write path. For any repository and any cluster: a request
  that has not started and runs alone, with the lock of its chain free, takes enabled steps
  until it has finished with exactly the result of \<open>write_entry\<close>; its process and the
  repository are then in exactly the state that \<open>write_entry\<close> leaves, the lock is free
  again, and nothing else has changed.
\<close>

theorem write_entry_in_small_steps:
  assumes "cl_phase c i = Checking" and "cl_locked c (tk_proc (ts i)) (tk_chain (ts i)) = None"
    and "write_entry D R P cfg (tk_env (ts i)) (tk_input (ts i)) (view c (tk_proc (ts i))) = (r, st)"
  shows "\<exists>c'. solo D R P cfg ts i c c' \<and> cl_phase c' = (cl_phase c)(i := Finished r)
    \<and> view c' (tk_proc (ts i)) = st \<and> cl_locked c' = cl_locked c
    \<and> (\<forall>q. q \<noteq> tk_proc (ts i) \<longrightarrow> cl_proc c' q = cl_proc c q)"
proof -
  from solo_task_runs [where ts = ts and i = i and c = c, OF returns_write_entry [OF assms(3)] assms(1) refl] assms(2)
  show ?thesis by (simp add: fun_upd_idem)
qed

theorem write_entry_in_small_steps_witness:
  "\<exists>c'. solo sample_D (in_memory sample_D) sample_publisher sample_cfg (sample_tasks 0) 0 (cluster_new (mem_default sample_seed)) c'
    \<and> cl_phase c' 0 = Finished (Inr (output_of_entry sample_D sample_entry)) \<and> view c' 0 = sample_written"
proof -
  let ?c = "cluster_new (mem_default sample_seed)"
  have "cl_phase ?c 0 = Checking" "cl_locked ?c (tk_proc (sample_tasks 0 0)) (tk_chain (sample_tasks 0 0)) = None"
    by (simp_all add: cluster_new_def)
  moreover have "write_entry sample_D (in_memory sample_D) sample_publisher sample_cfg (tk_env (sample_tasks 0 0))
      (tk_input (sample_tasks 0 0)) (view ?c (tk_proc (sample_tasks 0 0)))
      = (Inr (output_of_entry sample_D sample_entry), sample_written)"
    by (simp add: cluster_new_view sample_start_new sample_write)
  ultimately show ?thesis using write_entry_in_small_steps [of ?c 0 "sample_tasks 0"] by fastforce
qed

text \<open>
  C40. One process: no contention, no deadlock. With all writers in one process, under any
  interleaving and any faults of the database, if the requests that have started draw no UUID
  twice and none of their texts exceeds its column by trailing spaces alone (and the database
  keeps the milliseconds of the clock), a request that is about to append carries
  the hash of the present tip and is in its first attempt, no chain is ever about to be
  halted, and no request ends with an internal error: the per-chain lock removes the
  retries. And while a request has not ended, a request of the same process and chain can
  move, and each move brings it nearer to its end.
\<close>

theorem one_process_no_contention:
  assumes "pg_env_ok E D" and "genesis_hash D cfg \<noteq> []" and "cfg_chain_max_retries cfg \<noteq> 0"
    and "\<forall>i j. tk_proc (ts i) = tk_proc (ts j)"
    and "draws_distinct cfg ts (started c)" and "requests_kept E D ts (started c)"
    and "cluster_reachable D (pg_any E D) P cfg ts (cluster_new pg_empty) c"
  shows "(\<forall>i k h. cl_phase c i = Appending k h \<longrightarrow>
        k = 0 \<and> h = tip_hash_of (genesis_hash D cfg) (pg_chain E (cl_repo c) (tk_chain (ts i))))
    \<and> (\<forall>i m. cl_phase c i \<noteq> Halting \<and> cl_phase c i \<noteq> Finished (Inl (Internal m)))
    \<and> (\<forall>i. (\<forall>r. cl_phase c i \<noteq> Finished r) \<longrightarrow>
        (\<exists>j. enabled ts j c \<and> tk_chain (ts j) = tk_chain (ts i)
          \<and> rank (unat (cfg_chain_max_retries cfg)) (cl_phase (advance D (postgres E D) P cfg ts j c) j)
            < rank (unat (cfg_chain_max_retries cfg)) (cl_phase c j)))"
proof -
  note run = cluster_ready_new(1) [OF assms(1,5,6,7) cluster_reachable.start]
  have "system_inv (pg_inv E D) (pg_model E D) D cfg (service_new pg_empty)" by (rule pg_system_start [OF assms(1)])
  then have new: "pg_system.cluster_inv E D cfg ts (cluster_new pg_empty)" "pg_system.calm E D cfg ts (cluster_new pg_empty)"
    by (intro pg_system.cluster_new_ok; simp add: system_inv_def service_new_def)+
  have "pg_system.calm E D cfg ts c"
    by (rule pg_system.cluster_calm [OF run new(1) lock_inv_new new(2) assms(2-4)])
  then have calm: "calm_phase (tip_hash_of (genesis_hash D cfg) (pg_chain E (cl_repo c) (tk_chain (ts i)))) (cl_phase c i)" for i
    by (simp add: pg_system.calm_def)
  have lock: "lock_inv ts c" by (rule lock_inv_reachable [OF run lock_inv_new])
  have "rank (unat (cfg_chain_max_retries cfg)) (cl_phase (advance D (postgres E D) P cfg ts j c) j)
      < rank (unat (cfg_chain_max_retries cfg)) (cl_phase c j)" if "enabled ts j c" for j
    by (rule enabled_decreases [OF that])
  with writers_move [OF lock] calm show ?thesis by (metis calm_phase_simps(7,9,11))
qed

theorem one_process_no_contention_witness:
  "\<exists>c j. cluster_reachable sample_D (pg_any sample_E sample_D) sample_publisher sample_cfg (sample_tasks 0)
      (cluster_new pg_empty) c
    \<and> (\<forall>m. cl_phase c 0 \<noteq> Finished (Inl (Internal m))) \<and> cl_phase c 0 \<noteq> Checking
    \<and> enabled (sample_tasks 0) j c \<and> tk_chain (sample_tasks 0 j) = ''agent.decision''"
proof -
  obtain c where c: "cluster_reachable sample_D (pg_any sample_E sample_D) sample_publisher sample_cfg (sample_tasks 0)
      (cluster_new pg_empty) c" "cl_phase c = (\<lambda>_. Checking)(0 := Finished (Inr (output_of_entry sample_D sample_entry)))"
    using sample_cluster_first cluster_any by blast
  have one: "\<forall>i j. tk_proc (sample_tasks 0 i) = tk_proc (sample_tasks 0 j)" by (simp add: sample_tasks_def)
  have "started c \<subseteq> {0, 1}" by (auto simp: started_def c(2))
  note S = one_process_no_contention [OF sample_pg_env sample_genesis sample_limit one
      draws_distinct_subset [OF sample_distinct this] sample_kept c(1)]
  have "\<forall>r. cl_phase c 1 \<noteq> Finished r" by (simp add: c(2))
  from S [THEN conjunct2, THEN conjunct2, rule_format, OF this [rule_format]] obtain j where
    "enabled (sample_tasks 0) j c" "tk_chain (sample_tasks 0 j) = ''agent.decision''" by (auto simp: sample_chain)
  moreover have "\<forall>m. cl_phase c 0 \<noteq> Finished (Inl (Internal m))" using S [THEN conjunct2, THEN conjunct1] by blast
  moreover have "cl_phase c 0 \<noteq> Checking" by (simp add: c(2))
  ultimately show ?thesis using c(1) by blast
qed

section \<open>Several outbox processors\<close>

text \<open>
  C34. Events under any interleaving. Any number of processes share one PostgreSQL database;
  their writers, their readers and their outbox processors interleave call by call, with
  calls failing or losing their answers and a sink that answers every process as it likes.
  The requests that have started draw no UUID twice, no text of theirs exceeds its column by
  trailing spaces alone, and the database keeps the milliseconds of their clock readings.
  Then chains only grow; no event is ever lost or changed in its contents, its counter only
  grows, and once settled it is never pending again; an event that is marked delivered was
  accepted by the sink; and every event any process ever published describes an entry that
  is in the ledger, with its hash.
\<close>

theorem concurrent_outbox_safe:
  assumes "pg_env_ok E D" and "genesis_hash D cfg \<noteq> []"
    and "draws_distinct cfg ts (started (fl_cluster f'))" and "requests_kept E D ts (started (fl_cluster f'))"
    and "fleet_reachable D (pg_any E D) Ps cfg ts (fleet_new pg_empty) f"
    and "fleet_reachable D (pg_any E D) Ps cfg ts f f'"
  shows "(\<forall>t. \<exists>es. pg_chain E (cl_repo (fl_cluster f')) t = pg_chain E (cl_repo (fl_cluster f)) t @ es)
    \<and> (\<forall>i x. pg_outboxes D (cl_repo (fl_cluster f)) i = Some x \<longrightarrow>
        (\<exists>y. pg_outboxes D (cl_repo (fl_cluster f')) i = Some y \<and> same_event x y
          \<and> ob_attempt_count x \<le> ob_attempt_count y \<and> (ob_status x \<noteq> Pending \<longrightarrow> ob_status y \<noteq> Pending)))
    \<and> (\<forall>i x. pg_outboxes D (cl_repo (fl_cluster f')) i = Some x \<longrightarrow> ob_status x = Delivered \<longrightarrow>
        (\<exists>p y. (y, True) \<in> set (calls f' p) \<and> ob_outbox_id y = i))
    \<and> (\<forall>p y ok. (y, ok) \<in> set (calls f' p) \<longrightarrow>
        (\<exists>e \<in> set (pg_chain E (cl_repo (fl_cluster f')) (ob_entry_type y)). describes D y e))"
proof -
  note runs = fleet_ready_new [OF assms(1,3-6)]
  have "system_inv (pg_inv E D) (pg_model E D) D cfg (service_new pg_empty)" by (rule pg_system_start [OF assms(1)])
  then have "pg_shared.fleet_inv E D cfg ts (fleet_new pg_empty)"
    by (intro pg_shared.fleet_new_ok) (simp_all add: system_inv_def service_new_def fun_eq_iff pg_outboxes_def pg_empty_def)
  with pg_shared.fleet_keeps [OF runs(1)] have "pg_shared.fleet_inv E D cfg ts f" by blast
  from pg_shared.fleet_keeps [OF runs(2) this] have ok: "pg_shared.fleet_inv E D cfg ts f'"
    and moves: "events_move (pg_outboxes D (cl_repo (fl_cluster f))) (pg_outboxes D (cl_repo (fl_cluster f')))"
    and grows: "extends (pg_chain E (cl_repo (fl_cluster f))) (pg_chain E (cl_repo (fl_cluster f')))" by simp_all
  have "\<exists>e \<in> set (pg_chain E (cl_repo (fl_cluster f')) (ob_entry_type y)). describes D y e"
    if "(y, b) \<in> set (calls f' p)" for p y b
  proof -
    have "known (pg_outboxes D (cl_repo (fl_cluster f'))) y" using ok that by (auto simp: pg_shared.fleet_inv_def)
    moreover have "events_backed D (pg_chain E (cl_repo (fl_cluster f'))) (pg_outboxes D (cl_repo (fl_cluster f')))"
      using ok by (simp add: pg_shared.fleet_inv_def)
    ultimately show ?thesis by (rule known_backed)
  qed
  moreover have "accepted (pg_outboxes D (cl_repo (fl_cluster f'))) (calls f')" using ok by (simp add: pg_shared.fleet_inv_def)
  ultimately show ?thesis using moves grows unfolding events_move_def extends_def accepted_def by blast
qed

theorem concurrent_outbox_safe_witness:
  "\<exists>f e p. fleet_reachable sample_D (pg_any sample_E sample_D) sample_sinks sample_cfg (sample_tasks 0) (fleet_new pg_empty) f
    \<and> (\<exists>x. pg_outboxes sample_D (cl_repo (fl_cluster f)) 2 = Some x \<and> ob_status x = Delivered)
    \<and> (sample_pg_event, True) \<in> set (calls f p)
    \<and> e \<in> set (pg_chain sample_E (cl_repo (fl_cluster f)) (ob_entry_type sample_pg_event)) \<and> describes sample_D sample_pg_event e"
proof -
  obtain f where run: "fleet_reachable sample_D (pg_model sample_E sample_D) sample_sinks sample_cfg (sample_tasks 0) (fleet_new pg_empty) f"
    and f: "pg_outboxes sample_D (cl_repo (fl_cluster f)) 2 = Some (sample_pg_event\<lparr>ob_status := Delivered\<rparr>)"
    "(sample_pg_event, True) \<in> set (calls f 1)" "started (fl_cluster f) = {0}"
    using sample_fleet_delivered by blast
  note f = fleet_any [OF run] f
  have "draws_distinct sample_cfg (sample_tasks 0) (started (fl_cluster f))"
    by (rule draws_distinct_subset [OF sample_distinct]) (simp add: f(4))
  note S = concurrent_outbox_safe [OF sample_pg_env sample_genesis this sample_kept f(1) fleet_reachable.start]
  from S [THEN conjunct2, THEN conjunct2, THEN conjunct2, rule_format, OF f(3)] obtain e where
    "e \<in> set (pg_chain sample_E (cl_repo (fl_cluster f)) (ob_entry_type sample_pg_event))" "describes sample_D sample_pg_event e"
    by blast
  with f show ?thesis by (intro exI [of _ f] exI [of _ e] exI [of _ 1]) simp
qed

text \<open>
  C35. Two processors can turn a delivered event into a failed one. Nothing reserves an event
  for one processor, and \<open>mark_outbox_failed\<close>, unlike \<open>mark_outbox_delivered\<close>, does not ask
  for the status. Whenever two processes have polled the same pending event at its last
  attempt, the sink accepts the call of the one and refuses that of the other, there is a run
  without any fault after which the event is marked failed although the sink accepted it.
\<close>

theorem accepted_event_can_fail:
  assumes "pg_quiet E" and "pg_inv E D (cl_repo (fl_cluster f))" and "p \<noteq> q"
    and "starts_outbox_processor (Ps p)" and "starts_outbox_processor (Ps q)"
    and "fl_processor f p = Working (x # xs)" and "fl_processor f q = Working (x # ys)"
    and "pg_outboxes D (cl_repo (fl_cluster f)) (ob_outbox_id x) = Some x" and "ob_status x = Pending"
    and "pub_publish (Ps p) (length (calls f p)) x = Inr u" and "pub_publish (Ps q) (length (calls f q)) x = Inl refusal"
    and "sint (cfg_outbox_max_retries cfg) \<le> ob_attempt_count x + 1"
  shows "\<exists>f' y. fleet_reachable D (pg_model E D) Ps cfg ts f f' \<and> (x, True) \<in> set (calls f' p)
    \<and> pg_outboxes D (cl_repo (fl_cluster f')) (ob_outbox_id x) = Some y \<and> ob_status y = Failed"
  by (rule two_processors_one_event [OF assms])

theorem accepted_event_can_fail_witness:
  "\<exists>f' y. fleet_reachable sample_D (pg_model sample_E sample_D) sample_sinks (sample_cfg\<lparr>cfg_outbox_max_retries := 1\<rparr>) (sample_tasks 0)
      \<lparr>fl_cluster = cluster_new (ss_repo sample_pg_written), fl_processor = (\<lambda>_. Working [sample_pg_event])\<rparr> f'
    \<and> (sample_pg_event, True) \<in> set (calls f' 1)
    \<and> pg_outboxes sample_D (cl_repo (fl_cluster f')) 2 = Some y \<and> ob_status y = Failed"
proof -
  let ?f = "\<lparr>fl_cluster = cluster_new (ss_repo sample_pg_written), fl_processor = (\<lambda>_. Working [sample_pg_event])\<rparr>"
  have c: "cl_repo (cluster_new s) = s" "calls ?f p = []" for p and s :: pg_state
    by (simp_all add: cluster_new_def calls_def service_new_def)
  have "starts_outbox_processor (sample_sinks p)" for p by simp
  from accepted_event_can_fail [where f = ?f and p = 1 and q = 0 and Ps = sample_sinks and E = sample_E and D = sample_D
      and cfg = "sample_cfg\<lparr>cfg_outbox_max_retries := 1\<rparr>" and x = sample_pg_event and xs = "[]" and ys = "[]" and refusal = "''refused''"
      and ts = "sample_tasks 0", OF sample_quiet _ _ this this]
  show ?thesis by (simp add: c sample_pg_inv sample_pg_outbox)
qed

end
